(* ===== verification/Prelude.thy ===== *)
theory Prelude
  imports Main "HOL-Library.AList" "HOL-Library.Sublist" "HOL-Library.Char_ord"
begin

section \<open>Shared vocabulary, automation and interfaces\<close>

text \<open>
  What every other theory of the development builds on: the result types of fallible Go
  functions, the lemma collections the component theories feed, generic facts on lists and
  association lists (the model of Go maps), and the interfaces (locales) that components
  promise to each other: a \<open>codec\<close>, a \<open>stream_codec\<close> (a self-delimiting codec on byte
  streams) and an \<open>invariant_machine\<close> (a state machine with an inductive invariant).
\<close>

subsection \<open>Results\<close>

text \<open>
  A Go function returning \<open>(T, error)\<close> becomes a function into \<open>error + T\<close>; \<open>errors.New s\<close>
  is \<open>ErrorString s\<close>, and the package's own error types have their own constructors.
  A function that may also panic returns a value of \<open>'a outcome\<close>.
\<close>

datatype error =
    ErrorString string
  | ErrInvalidPacket (Reason: string) (Raw: string)
  | ErrUnmaskedFrame
  | ErrPayloadTooLarge
  | ErrProtocol
  | EOF
  | ErrUnexpectedEOF

datatype 'a outcome = Return 'a | Fail error | GoPanic string

abbreviation is_ok :: "'e + 'a \<Rightarrow> bool" where
  "is_ok r \<equiv> (case r of Inl _ \<Rightarrow> False | Inr _ \<Rightarrow> True)"

named_theorems wire_simps \<open>equations of the wire formats\<close>
named_theorems state_defs \<open>definitions of the state-changing operations\<close>
named_theorems wf_intros \<open>preservation of the well-formedness invariants\<close>

lemma is_ok_iff: "is_ok r \<longleftrightarrow> (\<exists>x. r = Inr x)"
  by (cases r) auto

subsection \<open>Lists\<close>

lemma take_length_append [simp]: "take (length xs) (xs @ ys) = xs"
  by simp

lemma takeWhile_append_stop:
  "\<forall>x\<in>set xs. P x \<Longrightarrow> (ys = [] \<or> \<not> P (hd ys)) \<Longrightarrow> takeWhile P (xs @ ys) = xs"
  by (cases ys) (auto simp: takeWhile_append)

lemma dropWhile_append_stop:
  "\<forall>x\<in>set xs. P x \<Longrightarrow> (ys = [] \<or> \<not> P (hd ys)) \<Longrightarrow> dropWhile P (xs @ ys) = ys"
  by (cases ys) (auto simp: dropWhile_append)

lemma dropWhile_hd_False: "xs = [] \<or> \<not> P (hd xs) \<Longrightarrow> dropWhile P xs = xs"
  by (cases xs) auto

lemma length_dropWhile_less: "xs \<noteq> [] \<Longrightarrow> P (hd xs) \<Longrightarrow> length (dropWhile P xs) < length xs"
  by (cases xs) (auto simp: le_imp_less_Suc length_dropWhile_le)

lemma nth_update: "(xs[i := x]) ! j = (if i = j \<and> j < length xs then x else xs ! j)"
  by (cases "i < length xs") (auto simp: nth_list_update list_update_beyond)

subsection \<open>Go maps as association lists\<close>

text \<open>
  A Go map is a list of key/value pairs with distinct keys. Its order stands for the
  iteration order, which Go leaves open: a theorem that does not fix the list holds for
  every order.
\<close>

abbreviation keys :: "('k \<times> 'v) list \<Rightarrow> 'k list" where
  "keys m \<equiv> map fst m"

abbreviation wf_map :: "('k \<times> 'v) list \<Rightarrow> bool" where
  "wf_map m \<equiv> distinct (keys m)"

lemma wf_map_update [simp, intro]: "wf_map m \<Longrightarrow> wf_map (AList.update k v m)"
  by (rule distinct_update)

lemma wf_map_delete [simp, intro]: "wf_map m \<Longrightarrow> wf_map (AList.delete k m)"
  by (rule distinct_delete)

lemma map_of_delete [simp]: "map_of (AList.delete k m) = (map_of m)(k := None)"
  by (rule delete_conv')

lemma map_of_update [simp]: "map_of (AList.update k v m) = (map_of m)(k \<mapsto> v)"
  by (rule update_conv')

lemma map_of_NoneD: "map_of m k = None \<Longrightarrow> (k, v) \<notin> set m"
  by (auto simp: map_of_eq_None_iff intro: rev_image_eqI)

lemma wf_map_map_of_iff [simp]: "wf_map m \<Longrightarrow> map_of m k = Some v \<longleftrightarrow> (k, v) \<in> set m"
  by simp

lemma delete_not_in: "k \<notin> set (keys m) \<Longrightarrow> AList.delete k m = m"
  by (induction m) auto

lemma set_delete: "wf_map m \<Longrightarrow> set (AList.delete k m) = {(k', v) \<in> set m. k' \<noteq> k}"
  by (auto simp: AList.delete_eq)

lemma length_delete_in:
  "wf_map m \<Longrightarrow> map_of m k = Some v \<Longrightarrow> length m = Suc (length (AList.delete k m))"
proof (induction m)
  case (Cons p m)
  then show ?case by (cases "fst p = k") (auto simp: delete_not_in dest: weak_map_of_SomeI)
qed simp

lemma length_update_new: "map_of m k = None \<Longrightarrow> length (AList.update k v m) = Suc (length m)"
  by (induction m) auto

lemma update_new: "map_of m k = None \<Longrightarrow> AList.update k v m = m @ [(k, v)]"
  by (induction m) auto

subsection \<open>Interfaces\<close>

text \<open>
  A codec: what \<open>enc\<close> writes, \<open>dec\<close> reads back, on the values \<open>ok\<close> admits.
\<close>

locale codec =
  fixes enc :: "'a \<Rightarrow> 'b"
    and dec :: "'b \<Rightarrow> 'a option"
    and ok :: "'a \<Rightarrow> bool"
  assumes dec_enc: "ok x \<Longrightarrow> dec (enc x) = Some x"
begin

lemma enc_inject: "ok x \<Longrightarrow> ok y \<Longrightarrow> enc x = enc y \<longleftrightarrow> x = y"
  by (metis dec_enc option.inject)

lemma enc_inj_on: "inj_on enc (Collect ok)"
  by (auto simp: inj_on_def enc_inject)

lemma dec_map_enc: "list_all ok xs \<Longrightarrow> map (\<lambda>y. dec y) (map enc xs) = map Some xs"
  by (induction xs) (auto simp: dec_enc)

end

text \<open>
  A self-delimiting codec on streams: reading takes one value off the front of the stream
  and leaves the rest. Any sequence of values then reads back in order, and no value's
  encoding is a proper prefix of another's.
\<close>

fun read_all :: "nat \<Rightarrow> ('b list \<Rightarrow> ('a \<times> 'b list) option) \<Rightarrow> 'b list \<Rightarrow> 'a list option" where
  "read_all 0 rd s = (if s = [] then Some [] else None)"
| "read_all (Suc n) rd s = (case rd s of None \<Rightarrow> None
     | Some (x, r) \<Rightarrow> map_option (\<lambda>xs. x # xs) (read_all n rd r))"

locale stream_codec =
  fixes emit :: "'a \<Rightarrow> 'b list"
    and rd :: "'b list \<Rightarrow> ('a \<times> 'b list) option"
    and ok :: "'a \<Rightarrow> bool"
  assumes rd_emit: "ok x \<Longrightarrow> rd (emit x @ rest) = Some (x, rest)"
begin

lemma rd_emit_all:
  "list_all ok xs \<Longrightarrow> read_all (length xs) rd (concat (map emit xs)) = Some xs"
  by (induction xs) (auto simp: rd_emit)

lemma emit_prefix_free:
  assumes "ok x" "ok y" "prefix (emit x) (emit y)" shows "x = y"
proof -
  from assms(3) obtain zs where "emit y = emit x @ zs" by (auto simp: prefix_def)
  then have "rd (emit y) = Some (x, zs)" using rd_emit [OF assms(1)] by simp
  moreover have "rd (emit y) = Some (y, [])" using rd_emit [OF assms(2), of "[]"] by simp
  ultimately show ?thesis by simp
qed

end

sublocale stream_codec \<subseteq> single: codec emit "\<lambda>s. map_option fst (rd s)" ok
proof
  fix x assume "ok x"
  then show "map_option fst (rd (emit x)) = Some x"
    using rd_emit [of x "[]"] by simp
qed

text \<open>
  A state machine with an invariant that its start state has and every step keeps; then every
  run from the start state stays inside it.
\<close>

locale invariant_machine =
  fixes init :: 's
    and step :: "'e \<Rightarrow> 's \<Rightarrow> 's"
    and inv :: "'s \<Rightarrow> bool"
  assumes inv_init: "inv init"
    and inv_step: "inv s \<Longrightarrow> inv (step e s)"
begin

lemma inv_fold: "inv s \<Longrightarrow> inv (fold step es s)"
  by (induction es arbitrary: s) (auto simp: inv_step)

lemma inv_run: "inv (fold step es init)"
  by (rule inv_fold [OF inv_init])

lemma inv_prefix: "inv (fold step (take n es) init)"
  by (rule inv_run)

end

end
