(* ===== verification/Go_Strings.thy ===== *)
theory Go_Strings
  imports Prelude
begin

section \<open>The Go string and number functions the packages call\<close>

text \<open>
  A Go string is a sequence of bytes, here a \<open>char list\<close> (an HOL \<open>char\<close> is a byte). This theory
  gives the functions of \<open>strings\<close> and \<open>strconv\<close> that the sources use, at the arguments they
  use them with: \<open>TrimSpace\<close>, \<open>HasPrefix\<close>, \<open>IndexByte\<close>, \<open>ContainsAny\<close>, \<open>Itoa\<close>, \<open>Atoi\<close>, \<open>ParseInt\<close>,
  \<open>ToUpper\<close> and \<open>EqualFold\<close>, with the laws the codecs rest on (in particular that decimal
  printing and parsing are inverse and that trimming is idempotent).
\<close>

subsection \<open>strings.HasPrefix, IndexByte, ContainsAny\<close>

abbreviation HasPrefix :: "string \<Rightarrow> string \<Rightarrow> bool" where
  "HasPrefix s p \<equiv> prefix p s"

fun IndexByte :: "string \<Rightarrow> char \<Rightarrow> nat option" where
  "IndexByte [] c = None"
| "IndexByte (x # xs) c = (if x = c then Some 0 else map_option Suc (IndexByte xs c))"

definition ContainsAny :: "string \<Rightarrow> string \<Rightarrow> bool" where
  "ContainsAny s chars \<longleftrightarrow> list_ex (\<lambda>c. List.member chars c) s"

lemma ContainsAny_iff: "ContainsAny s chars \<longleftrightarrow> set s \<inter> set chars \<noteq> {}"
  by (auto simp: ContainsAny_def list_ex_iff)

lemma IndexByte_None_iff: "IndexByte s c = None \<longleftrightarrow> c \<notin> set s"
  by (induction s) auto

lemma IndexByte_SomeD:
  "IndexByte s c = Some n \<Longrightarrow> n < length s \<and> s ! n = c \<and> c \<notin> set (take n s)"
proof (induction s arbitrary: n)
  case (Cons x xs)
  then show ?case by (cases n) (auto split: if_splits)
qed simp

lemma IndexByte_append: "c \<notin> set xs \<Longrightarrow> IndexByte (xs @ c # ys) c = Some (length xs)"
  by (induction xs) auto

subsection \<open>Decimal numbers: strconv.Itoa, Atoi, ParseInt\<close>

definition is_digit :: "char \<Rightarrow> bool" where
  "is_digit c \<longleftrightarrow> CHR ''0'' \<le> c \<and> c \<le> CHR ''9''"

definition digit_char :: "nat \<Rightarrow> char" where
  "digit_char d = char_of (48 + d)"

definition digit_val :: "char \<Rightarrow> nat" where
  "digit_val c = of_char c - 48"

fun digits_of :: "nat \<Rightarrow> string" where
  "digits_of n = (if n < 10 then [digit_char n] else digits_of (n div 10) @ [digit_char (n mod 10)])"

declare digits_of.simps [simp del]

definition Itoa :: "int \<Rightarrow> string" where
  "Itoa i = (if i < 0 then CHR ''-'' # digits_of (nat (- i)) else digits_of (nat i))"

definition digits_val :: "string \<Rightarrow> nat" where
  "digits_val ds = foldl (\<lambda>n c. 10 * n + digit_val c) 0 ds"

definition max_int64 :: int where "max_int64 = 2 ^ 63 - 1"
definition min_int64 :: int where "min_int64 = - (2 ^ 63)"

text \<open>
  \<open>ParseInt (s, 10, 64)\<close> and, on a 64-bit platform, \<open>Atoi\<close>: an optional sign, at least one
  digit, nothing else, and the value within the 64-bit range; otherwise an error.
\<close>

definition Atoi :: "string \<Rightarrow> int option" where
  "Atoi s =
     (let neg = HasPrefix s ''-'';
          ds = (if neg \<or> HasPrefix s ''+'' then tl s else s);
          n = int (digits_val ds)
      in if ds = [] \<or> \<not> list_all is_digit ds then None
         else if neg then (if - n < min_int64 then None else Some (- n))
         else if n > max_int64 then None else Some n)"

lemma of_char_digit_char: "d < 10 \<Longrightarrow> (of_char (digit_char d) :: nat) = 48 + d"
  by (simp add: digit_char_def)

lemma is_digit_of_char: "is_digit c \<longleftrightarrow> 48 \<le> (of_char c :: nat) \<and> (of_char c :: nat) \<le> 57"
  by (simp add: is_digit_def less_eq_char_def)

lemma is_digit_literals [simp]:
  "is_digit CHR ''0''" "is_digit CHR ''9''"
  "\<not> is_digit CHR ''-''" "\<not> is_digit CHR ''+''" "\<not> is_digit CHR ''.''" "\<not> is_digit CHR ''e''"
  "\<not> is_digit CHR ''E''" "\<not> is_digit CHR '',''" "\<not> is_digit CHR '':''" "\<not> is_digit CHR ''/''"
  "\<not> is_digit CHR ''[''" "\<not> is_digit CHR '']''" "\<not> is_digit CHR ''{''" "\<not> is_digit CHR ''}''"
  "\<not> is_digit CHR ''n''" "\<not> is_digit CHR ''t''" "\<not> is_digit CHR ''f''" "\<not> is_digit CHR 0x22"
  "\<not> is_digit CHR 0x20" "\<not> is_digit CHR 0x09" "\<not> is_digit CHR 0x0A" "\<not> is_digit CHR 0x0D"
  by (simp_all add: is_digit_def less_eq_char_def)

lemma is_digit_digit_char [simp]: "d < 10 \<Longrightarrow> is_digit (digit_char d)"
  by (simp add: is_digit_of_char of_char_digit_char)

lemma digit_val_digit_char [simp]: "d < 10 \<Longrightarrow> digit_val (digit_char d) = d"
  by (simp add: digit_val_def of_char_digit_char)

lemma digits_of_nonempty [simp]: "digits_of n \<noteq> []"
  by (subst digits_of.simps) simp

lemma digits_of_digits [simp]: "c \<in> set (digits_of n) \<Longrightarrow> is_digit c"
proof (induction n arbitrary: c rule: digits_of.induct)
  case (1 n)
  then show ?case by (subst (asm) (2) digits_of.simps) (auto split: if_splits)
qed

lemma list_all_digits_of [simp]: "list_all is_digit (digits_of n)"
  by (simp add: list_all_iff)

lemma digits_val_snoc: "digits_val (ds @ [c]) = 10 * digits_val ds + digit_val c"
  by (simp add: digits_val_def)

lemma digits_val_digits_of [simp]: "digits_val (digits_of n) = n"
proof (induction n rule: digits_of.induct)
  case (1 n)
  show ?case
  proof (cases "n < 10")
    case True
    then show ?thesis by (simp add: digits_of.simps [of n] digits_val_def)
  next
    case False
    then show ?thesis using "1.IH" by (simp add: digits_of.simps [of n] digits_val_snoc)
  qed
qed

lemma digit_not_sign: "is_digit c \<Longrightarrow> c \<noteq> CHR ''-'' \<and> c \<noteq> CHR ''+''"
  by (auto simp: is_digit_def less_eq_char_def)

lemma digits_hd: "ds \<noteq> [] \<Longrightarrow> list_all is_digit ds \<Longrightarrow> is_digit (hd ds)"
  by (cases ds) auto

lemma digits_no_sign:
  "ds \<noteq> [] \<Longrightarrow> list_all is_digit ds \<Longrightarrow> \<not> prefix ''-'' ds \<and> \<not> prefix ''+'' ds"
  by (cases ds) (auto dest: digit_not_sign)

lemma Atoi_digits:
  "ds \<noteq> [] \<Longrightarrow> list_all is_digit ds \<Longrightarrow>
   Atoi ds = (if int (digits_val ds) > max_int64 then None else Some (int (digits_val ds)))"
  using digits_no_sign [of ds] by (simp add: Atoi_def)

lemma Atoi_Itoa: "min_int64 \<le> i \<Longrightarrow> i \<le> max_int64 \<Longrightarrow> Atoi (Itoa i) = Some i"
proof (cases "i < 0")
  case True
  assume "min_int64 \<le> i"
  with True show ?thesis by (simp add: Atoi_def Itoa_def Let_def)
next
  case False
  assume "i \<le> max_int64"
  with False show ?thesis by (simp add: Itoa_def Atoi_digits)
qed

lemma Atoi_bounds: "Atoi s = Some n \<Longrightarrow> min_int64 \<le> n \<and> n \<le> max_int64"
  by (auto simp: Atoi_def Let_def min_int64_def max_int64_def split: if_splits)

interpretation decimal: codec Itoa Atoi "\<lambda>i. min_int64 \<le> i \<and> i \<le> max_int64"
  by unfold_locales (simp add: Atoi_Itoa)

lemma Itoa_nonneg: "0 \<le> i \<Longrightarrow> Itoa i \<noteq> [] \<and> list_all is_digit (Itoa i)"
  by (simp add: Itoa_def)

lemma Itoa_digits_val: "0 \<le> i \<Longrightarrow> int (digits_val (Itoa i)) = i"
  by (simp add: Itoa_def)

subsection \<open>strings.TrimSpace\<close>

text \<open>
  \<open>TrimSpace\<close> removes leading and trailing code points that \<open>unicode.IsSpace\<close> accepts. They are
  listed here by their UTF-8 encodings; no encoding is a prefix or a suffix of another valid
  one, so stripping these byte sequences from either end is what decoding code points does.
\<close>

definition space_seqs :: "string list" where
  "space_seqs =
    [[CHR 0x09], [CHR 0x0A], [CHR 0x0B], [CHR 0x0C], [CHR 0x0D], [CHR 0x20],
     [CHR 0xC2, CHR 0x85], [CHR 0xC2, CHR 0xA0], [CHR 0xE1, CHR 0x9A, CHR 0x80],
     [CHR 0xE2, CHR 0x80, CHR 0x80], [CHR 0xE2, CHR 0x80, CHR 0x81],
     [CHR 0xE2, CHR 0x80, CHR 0x82], [CHR 0xE2, CHR 0x80, CHR 0x83],
     [CHR 0xE2, CHR 0x80, CHR 0x84], [CHR 0xE2, CHR 0x80, CHR 0x85],
     [CHR 0xE2, CHR 0x80, CHR 0x86], [CHR 0xE2, CHR 0x80, CHR 0x87],
     [CHR 0xE2, CHR 0x80, CHR 0x88], [CHR 0xE2, CHR 0x80, CHR 0x89],
     [CHR 0xE2, CHR 0x80, CHR 0x8A], [CHR 0xE2, CHR 0x80, CHR 0xA8],
     [CHR 0xE2, CHR 0x80, CHR 0xA9], [CHR 0xE2, CHR 0x80, CHR 0xAF],
     [CHR 0xE2, CHR 0x81, CHR 0x9F], [CHR 0xE3, CHR 0x80, CHR 0x80]]"

lemma space_seqs_nonempty: "w \<in> set space_seqs \<Longrightarrow> w \<noteq> []"
  by (auto simp: space_seqs_def)

definition leading_space :: "string \<Rightarrow> string option" where
  "leading_space s = find (\<lambda>w. prefix w s) space_seqs"

definition trailing_space :: "string \<Rightarrow> string option" where
  "trailing_space s = find (\<lambda>w. suffix w s) space_seqs"

lemma leading_space_SomeD: "leading_space s = Some w \<Longrightarrow> w \<noteq> [] \<and> prefix w s"
  by (auto simp: leading_space_def find_Some_iff space_seqs_nonempty)

lemma trailing_space_SomeD: "trailing_space s = Some w \<Longrightarrow> w \<noteq> [] \<and> suffix w s"
  by (auto simp: trailing_space_def find_Some_iff space_seqs_nonempty)

function TrimLeftSpace :: "string \<Rightarrow> string" where
  "TrimLeftSpace s =
     (case leading_space s of None \<Rightarrow> s | Some w \<Rightarrow> TrimLeftSpace (drop (length w) s))"
  by pat_completeness auto
termination
  by (relation "measure length") (auto dest!: leading_space_SomeD simp: prefix_def)

function TrimRightSpace :: "string \<Rightarrow> string" where
  "TrimRightSpace s =
     (case trailing_space s of None \<Rightarrow> s
      | Some w \<Rightarrow> TrimRightSpace (take (length s - length w) s))"
  by pat_completeness auto
termination
  by (relation "measure length") (auto dest!: trailing_space_SomeD simp: suffix_def)

declare TrimLeftSpace.simps [simp del] TrimRightSpace.simps [simp del]

definition TrimSpace :: "string \<Rightarrow> string" where
  "TrimSpace s = TrimRightSpace (TrimLeftSpace s)"

definition trimmed :: "string \<Rightarrow> bool" where
  "trimmed s \<longleftrightarrow> leading_space s = None \<and> trailing_space s = None"

lemma TrimLeftSpace_leading: "leading_space (TrimLeftSpace s) = None"
proof (induction s rule: TrimLeftSpace.induct)
  case (1 s)
  then show ?case by (cases "leading_space s") (simp_all add: TrimLeftSpace.simps [of s])
qed

lemma TrimRightSpace_trailing: "trailing_space (TrimRightSpace s) = None"
proof (induction s rule: TrimRightSpace.induct)
  case (1 s)
  then show ?case by (cases "trailing_space s") (simp_all add: TrimRightSpace.simps [of s])
qed

lemma TrimRightSpace_prefix: "prefix (TrimRightSpace s) s"
proof (induction s rule: TrimRightSpace.induct)
  case (1 s)
  show ?case
  proof (cases "trailing_space s")
    case None
    then show ?thesis by (simp add: TrimRightSpace.simps [of s])
  next
    case (Some w)
    with "1.IH" have "prefix (TrimRightSpace s) (take (length s - length w) s)"
      by (simp add: TrimRightSpace.simps [of s])
    then show ?thesis using take_is_prefix prefix_order.trans by blast
  qed
qed

lemma leading_space_prefix: "prefix t s \<Longrightarrow> leading_space s = None \<Longrightarrow> leading_space t = None"
  by (auto simp: leading_space_def find_None_iff dest: prefix_order.trans)

lemma TrimSpace_trimmed: "trimmed (TrimSpace s)"
  unfolding trimmed_def TrimSpace_def
  using leading_space_prefix [OF TrimRightSpace_prefix TrimLeftSpace_leading]
    TrimRightSpace_trailing by blast

lemma TrimSpace_id: "trimmed s \<Longrightarrow> TrimSpace s = s"
  by (simp add: trimmed_def TrimSpace_def TrimLeftSpace.simps [of s] TrimRightSpace.simps [of s])

lemma TrimSpace_idem [simp]: "TrimSpace (TrimSpace s) = TrimSpace s"
  by (rule TrimSpace_id [OF TrimSpace_trimmed])

lemma trimmed_Nil [simp]: "trimmed []"
  by (auto simp: trimmed_def leading_space_def trailing_space_def find_None_iff dest: space_seqs_nonempty)

lemma TrimSpace_Nil [simp]: "TrimSpace [] = []"
  by (rule TrimSpace_id [OF trimmed_Nil])

lemma space_seqs_no_slash_all: "list_all (\<lambda>w. \<not> List.member w (CHR ''/'')) space_seqs"
  by (simp add: space_seqs_def)

lemma space_seqs_no_slash: "w \<in> set space_seqs \<Longrightarrow> CHR ''/'' \<notin> set w"
  using space_seqs_no_slash_all by (auto simp: list_all_iff)

lemma leading_space_slash [simp]: "leading_space (CHR ''/'' # s) = None"
proof -
  have "\<not> prefix w (CHR ''/'' # s)" if "w \<in> set space_seqs" for w
    using space_seqs_nonempty [OF that] space_seqs_no_slash [OF that] by (cases w) auto
  then show ?thesis by (simp add: leading_space_def find_None_iff)
qed

lemma trailing_space_slash: "trailing_space s = None \<Longrightarrow> trailing_space (CHR ''/'' # s) = None"
proof -
  assume a: "trailing_space s = None"
  have "\<not> suffix w (CHR ''/'' # s)" if "w \<in> set space_seqs" for w
    using that a space_seqs_no_slash [OF that]
    by (auto simp: trailing_space_def find_None_iff suffix_Cons)
  then show ?thesis by (auto simp: trailing_space_def find_None_iff)
qed

lemma trimmed_slash: "trimmed s \<Longrightarrow> trimmed (CHR ''/'' # s)"
  by (simp add: trimmed_def trailing_space_slash)

lemma trimmed_iff:
  "trimmed s \<longleftrightarrow> (\<forall>w\<in>set space_seqs. \<not> prefix w s \<and> \<not> suffix w s)"
  by (auto simp: trimmed_def leading_space_def trailing_space_def find_None_iff)

subsection \<open>strings.ToUpper and EqualFold against ASCII constants\<close>

text \<open>
  The sources compare \<open>ToUpper s\<close> and \<open>EqualFold (s, t)\<close> with ASCII text only. Outside ASCII,
  two code points have an ASCII upper-case form (dotless i, U+0131, and long s, U+017F) and two
  fold to ASCII letters (long s and the Kelvin sign, U+212A); every other non-ASCII byte stays a
  non-ASCII byte and so differs from every ASCII character. Comparing two non-ASCII strings
  (possible only for allowed origins outside ASCII) is byte for byte here.
\<close>

definition up_char :: "char \<Rightarrow> char" where
  "up_char c = (if CHR ''a'' \<le> c \<and> c \<le> CHR ''z'' then char_of (of_char c - (32::nat)) else c)"

definition low_char :: "char \<Rightarrow> char" where
  "low_char c = (if CHR ''A'' \<le> c \<and> c \<le> CHR ''Z'' then char_of (of_char c + (32::nat)) else c)"

fun ToUpper :: "string \<Rightarrow> string" where
  "ToUpper [] = []"
| "ToUpper [c] = [up_char c]"
| "ToUpper (c # d # s) =
     (if [c, d] = [CHR 0xC4, CHR 0xB1] then CHR ''I'' # ToUpper s
      else if [c, d] = [CHR 0xC5, CHR 0xBF] then CHR ''S'' # ToUpper s
      else up_char c # ToUpper (d # s))"

definition ToLower_ascii :: "string \<Rightarrow> string" where
  "ToLower_ascii s = map low_char s"

function fold_case :: "string \<Rightarrow> string" where
  "fold_case s =
     (if s = [] then []
      else if prefix ([CHR 0xC5, CHR 0xBF]) s then CHR ''s'' # fold_case (drop 2 s)
      else if prefix ([CHR 0xE2, CHR 0x84, CHR 0xAA]) s then CHR ''k'' # fold_case (drop 3 s)
      else low_char (hd s) # fold_case (tl s))"
  by pat_completeness auto
termination
  by (relation "measure length") auto

declare fold_case.simps [simp del]

definition EqualFold :: "string \<Rightarrow> string \<Rightarrow> bool" where
  "EqualFold s t \<longleftrightarrow> fold_case s = fold_case t"

lemma EqualFold_equiv: "EqualFold s s" "EqualFold s t \<Longrightarrow> EqualFold t s"
  "EqualFold s t \<Longrightarrow> EqualFold t u \<Longrightarrow> EqualFold s u"
  by (simp_all add: EqualFold_def)

text \<open>\<open>strings.Contains\<close>.\<close>

definition Contains :: "string \<Rightarrow> string \<Rightarrow> bool" where
  "Contains s t \<longleftrightarrow> list_ex (\<lambda>u. prefix t u) (suffixes s)"

lemma Contains_iff: "Contains s t \<longleftrightarrow> sublist t s"
  by (auto simp: Contains_def list_ex_iff sublist_altdef')

end
