(* ===== verification/Go_Utf8.thy ===== *)
theory Go_Utf8
  imports Go_Strings
begin

section \<open>UTF-8, as unicode/utf8 and unicode/utf16 see it\<close>

text \<open>
  \<open>utf8_len s\<close> is the length of the well-formed UTF-8 sequence at the head of \<open>s\<close> (the byte
  ranges of Go's \<open>utf8.DecodeRune\<close> table: no overlong forms, no surrogates, nothing above
  U+10FFFF) and 0 where there is none. \<open>runes\<close> cuts a string into such sequences, a byte that
  starts none standing alone, as a Go range loop does; \<open>Valid\<close> is \<open>utf8.Valid\<close>.
\<close>

text \<open>
  The table of leading bytes: how many bytes follow, and the range of the first of them.
\<close>

definition utf8_head :: "char \<Rightarrow> (nat \<times> char \<times> char) option" where
  "utf8_head c =
     (if c < CHR 0x80 then Some (0, CHR 0x80, CHR 0xBF)
      else if c < CHR 0xC2 then None
      else if c \<le> CHR 0xDF then Some (1, CHR 0x80, CHR 0xBF)
      else if c = CHR 0xE0 then Some (2, CHR 0xA0, CHR 0xBF)
      else if c = CHR 0xED then Some (2, CHR 0x80, CHR 0x9F)
      else if c \<le> CHR 0xEF then Some (2, CHR 0x80, CHR 0xBF)
      else if c = CHR 0xF0 then Some (3, CHR 0x90, CHR 0xBF)
      else if c \<le> CHR 0xF3 then Some (3, CHR 0x80, CHR 0xBF)
      else if c = CHR 0xF4 then Some (3, CHR 0x80, CHR 0x8F)
      else None)"

fun tail_ok :: "nat \<Rightarrow> char \<Rightarrow> char \<Rightarrow> string \<Rightarrow> bool" where
  "tail_ok 0 lo hi r \<longleftrightarrow> True"
| "tail_ok (Suc n) lo hi [] \<longleftrightarrow> False"
| "tail_ok (Suc n) lo hi (c # r) \<longleftrightarrow> lo \<le> c \<and> c \<le> hi \<and> tail_ok n (CHR 0x80) (CHR 0xBF) r"

definition utf8_len :: "string \<Rightarrow> nat" where
  "utf8_len s = (case s of [] \<Rightarrow> 0 | c # r \<Rightarrow>
     (case utf8_head c of None \<Rightarrow> 0
      | Some (n, lo, hi) \<Rightarrow> if tail_ok n lo hi r then Suc n else 0))"

fun runes :: "string \<Rightarrow> string list" where
  "runes [] = []"
| "runes (c # s) = (let n = utf8_len (c # s) - 1 in (c # take n s) # runes (drop n s))"

definition Valid :: "string \<Rightarrow> bool" where
  "Valid s \<longleftrightarrow> list_all (\<lambda>p. 0 < utf8_len p) (runes s)"

lemma concat_runes [simp]: "concat (runes s) = s"
  by (induction s rule: runes.induct) (simp_all add: Let_def)

lemma runes_nonempty: "p \<in> set (runes s) \<Longrightarrow> p \<noteq> []"
  by (induction s rule: runes.induct) (auto simp: Let_def)

lemma utf8_head_SomeD:
  "utf8_head c = Some (n, lo, hi) \<Longrightarrow> n \<le> 3 \<and> (n = 0 \<longleftrightarrow> c < CHR 0x80) \<and> CHR 0x80 \<le> lo"
  by (auto simp: utf8_head_def less_eq_char_def split: if_splits)

lemma tail_ok_append: "tail_ok n lo hi r \<Longrightarrow> tail_ok n lo hi (r @ t)"
  by (induction n lo hi r rule: tail_ok.induct) auto

lemma tail_ok_take [simp]: "tail_ok n lo hi (take n r) \<longleftrightarrow> tail_ok n lo hi r"
  by (induction n lo hi r rule: tail_ok.induct) auto

lemma tail_ok_length: "tail_ok n lo hi r \<Longrightarrow> n \<le> length r"
  by (induction n lo hi r rule: tail_ok.induct) auto

lemma tail_ok_bytes:
  "tail_ok n lo hi r \<Longrightarrow> CHR 0x80 \<le> lo \<Longrightarrow> c \<in> set (take n r) \<Longrightarrow> \<not> c < CHR 0x80"
  by (induction n lo hi r rule: tail_ok.induct) (auto simp: not_less)

lemma utf8_len_cases:
  obtains "utf8_len (c # r) = 0"
  | n lo hi where "utf8_head c = Some (n, lo, hi)" "tail_ok n lo hi r" "utf8_len (c # r) = Suc n"
proof (cases "utf8_head c")
  case None
  then show ?thesis using that(1) by (simp add: utf8_len_def)
next
  case (Some x)
  obtain n lo hi where x: "x = (n, lo, hi)" by (cases x)
  show ?thesis
    using that Some x by (cases "tail_ok n lo hi r") (simp_all add: utf8_len_def)
qed

lemma utf8_len_Nil [simp]: "utf8_len [] = 0"
  by (simp add: utf8_len_def)

lemma utf8_len_le: "utf8_len s \<le> length s"
proof (cases s)
  case (Cons c r)
  show ?thesis by (rule utf8_len_cases [of c r]) (auto simp: Cons dest: tail_ok_length)
qed simp

lemma utf8_len_le_4: "utf8_len s \<le> 4"
proof (cases s)
  case (Cons c r)
  show ?thesis by (rule utf8_len_cases [of c r]) (auto simp: Cons dest: utf8_head_SomeD)
qed simp

lemma utf8_len_append: "0 < utf8_len p \<Longrightarrow> utf8_len (p @ t) = utf8_len p"
  by (cases p) (auto simp: utf8_len_def tail_ok_append split: option.splits if_splits)

lemma utf8_len_take: "0 < utf8_len s \<Longrightarrow> utf8_len (take (utf8_len s) s) = utf8_len s"
  by (cases s) (auto simp: utf8_len_def split: option.splits if_splits)

lemma utf8_len_ascii [simp]: "c < CHR 0x80 \<Longrightarrow> utf8_len (c # r) = 1"
  by (simp add: utf8_len_def utf8_head_def)

lemma utf8_len_single: "utf8_len (c # r) = 0 \<Longrightarrow> utf8_len [c] = 0"
  by (auto simp: utf8_len_def split: option.splits if_splits elim: tail_ok.elims)

text \<open>Every byte of a sequence of two or more is outside ASCII.\<close>

lemma utf8_bytes_high:
  assumes "1 < utf8_len s" "c \<in> set (take (utf8_len s) s)" shows "\<not> c < CHR 0x80"
proof (cases s)
  case (Cons d r)
  obtain n lo hi where t: "utf8_head d = Some (n, lo, hi)" "tail_ok n lo hi r" "utf8_len s = Suc n"
    using assms(1) Cons by (cases rule: utf8_len_cases [of d r]) auto
  have "c = d \<or> c \<in> set (take n r)" using assms(2) t(3) Cons by auto
  then show ?thesis
    using tail_ok_bytes [OF t(2)] utf8_head_SomeD [OF t(1)] assms(1) t(3) by auto
qed (use assms in simp)

lemma runes_append: "0 < utf8_len p \<Longrightarrow> length p = utf8_len p \<Longrightarrow> runes (p @ t) = p # runes t"
proof (cases p)
  case (Cons c q)
  moreover assume "0 < utf8_len p" "length p = utf8_len p"
  moreover have "utf8_len (c # q @ t) = utf8_len p"
    using utf8_len_append [of p t] Cons \<open>0 < utf8_len p\<close> by simp
  ultimately show ?thesis by (auto simp: Let_def)
qed simp

lemma runes_invalid: "utf8_len (c # t) = 0 \<Longrightarrow> runes (c # t) = [c] # runes t"
  by simp

subsection \<open>Encoding a code point, and UTF-16 surrogates\<close>

definition RuneError :: string where
  "RuneError = [CHR 0xEF, CHR 0xBF, CHR 0xBD]"

definition is_surrogate :: "nat \<Rightarrow> bool" where
  "is_surrogate r \<longleftrightarrow> 0xD800 \<le> r \<and> r < 0xE000"

definition encode_rune :: "nat \<Rightarrow> string" where
  "encode_rune r =
     (if r < 0x80 then [char_of r]
      else if r < 0x800 then [char_of (0xC0 + r div 64), char_of (0x80 + r mod 64)]
      else if is_surrogate r \<or> 0x10FFFF < r then RuneError
      else if r < 0x10000 then
        [char_of (0xE0 + r div 4096), char_of (0x80 + r div 64 mod 64), char_of (0x80 + r mod 64)]
      else
        [char_of (0xF0 + r div 262144), char_of (0x80 + r div 4096 mod 64),
         char_of (0x80 + r div 64 mod 64), char_of (0x80 + r mod 64)])"

text \<open>\<open>utf16.DecodeRune\<close>: a high and a low surrogate make one code point.\<close>

definition decode_surrogates :: "nat \<Rightarrow> nat \<Rightarrow> nat option" where
  "decode_surrogates r1 r2 =
     (if 0xD800 \<le> r1 \<and> r1 < 0xDC00 \<and> 0xDC00 \<le> r2 \<and> r2 < 0xE000
      then Some ((r1 - 0xD800) * 1024 + (r2 - 0xDC00) + 0x10000) else None)"

text \<open>Replacing every byte that starts no sequence by U+FFFD, as Go's JSON functions do.\<close>

definition sanitize :: "string \<Rightarrow> string" where
  "sanitize s = concat (map (\<lambda>p. if utf8_len p = 0 then RuneError else p) (runes s))"

lemma sanitize_Valid: "Valid s \<Longrightarrow> sanitize s = s"
proof -
  assume "Valid s"
  then have "map (\<lambda>p. if utf8_len p = 0 then RuneError else p) (runes s) = map id (runes s)"
    by (intro map_cong) (auto simp: Valid_def list_all_iff)
  then show ?thesis by (simp add: sanitize_def)
qed

lemma Valid_Nil [simp]: "Valid []"
  by (simp add: Valid_def)

lemma Valid_append: "0 < utf8_len p \<Longrightarrow> length p = utf8_len p \<Longrightarrow> Valid (p @ t) \<longleftrightarrow> Valid t"
  by (simp add: Valid_def runes_append)

lemma Valid_ascii_Cons: "c < CHR 0x80 \<Longrightarrow> Valid (c # t) \<longleftrightarrow> Valid t"
  using Valid_append [of "[c]" t] by simp

lemma Valid_ascii: "\<forall>c\<in>set s. c < CHR 0x80 \<Longrightarrow> Valid s"
  by (induction s) (simp_all add: Valid_ascii_Cons)

text \<open>Validity only looks at whole sequences: it splits over concatenation at a boundary.\<close>

lemma Valid_appendI: "Valid s \<Longrightarrow> Valid t \<Longrightarrow> Valid (s @ t)"
proof (induction s rule: runes.induct)
  case (2 c s)
  let ?n = "utf8_len (c # s)"
  from "2.prems"(1) have n: "0 < ?n"
    using utf8_len_single [of c s] by (cases ?n) (auto simp: Valid_def Let_def)
  let ?p = "take ?n (c # s)"
  have p: "0 < utf8_len ?p" "length ?p = utf8_len ?p"
    using n utf8_len_take [OF n] utf8_len_le [of "c # s"] by simp_all
  have eq: "c # s = ?p @ drop (?n - 1) s" using n by (cases ?n) simp_all
  have "Valid (drop (?n - 1) s)"
    using "2.prems"(1) by (auto simp: Valid_def Let_def)
  then have "Valid (drop (?n - 1) s @ t)" using "2.IH" "2.prems"(2) by simp
  then have "Valid (?p @ drop (?n - 1) s @ t)" using Valid_append [OF p] by blast
  then show ?case by (metis append_assoc append_Cons eq)
qed simp

end
