(* ===== verification/Go_Json.thy ===== *)
theory Go_Json
  imports Go_Utf8
begin

section \<open>The part of encoding/json the packages use\<close>

text \<open>
  Go checks JSON with a byte automaton (a step function and a stack of open objects and
  arrays) and builds the value alongside it. The same automaton is modelled here: \<open>jstep\<close> is
  the scanner's step function fused with the construction of the value, \<open>jrun\<close> its run over
  the bytes, \<open>parse\<close> the check that the run ends at the end of a top-level value. \<open>print\<close> is what
  \<open>json.Marshal\<close> writes for a tree of values (strings with Go's HTML-safe escapes).
  The main result is \<open>parse_print\<close>: what \<open>print\<close> writes, \<open>parse\<close> reads back.
\<close>

subsection \<open>Values\<close>

text \<open>
  A parsed value. A number is kept as its literal; a string is the unquoted byte string; an
  object keeps its members in source order, repeated keys included.
\<close>

datatype json =
    JNull
  | JBool bool
  | JNum string
  | JStr string
  | JArr "json list"
  | JObj "(string \<times> json) list"

subsection \<open>String literals: quote and unquote\<close>

definition hex_digit :: "nat \<Rightarrow> char" where
  "hex_digit n = (if n < 10 then char_of (48 + n) else char_of (87 + n))"

definition is_hex :: "char \<Rightarrow> bool" where
  "is_hex c \<longleftrightarrow> is_digit c \<or> (CHR ''a'' \<le> c \<and> c \<le> CHR ''f'') \<or> (CHR ''A'' \<le> c \<and> c \<le> CHR ''F'')"

definition hex_val :: "char \<Rightarrow> nat" where
  "hex_val c = (if is_digit c then of_char c - 48
     else if CHR ''a'' \<le> c \<and> c \<le> CHR ''f'' then of_char c - 87 else of_char c - 55)"

definition getu4 :: "string \<Rightarrow> nat" where
  "getu4 s = foldl (\<lambda>r c. 16 * r + hex_val c) 0 (take 4 s)"

text \<open>The bytes \<open>json.Marshal\<close> copies as they are, and the escapes of the others.\<close>

definition html_safe :: "char \<Rightarrow> bool" where
  "html_safe c \<longleftrightarrow> CHR 0x20 \<le> c \<and> c < CHR 0x80 \<and>
     c \<notin> {CHR 0x22, CHR ''&'', CHR ''<'', CHR ''>'', CHR 0x5C}"

definition esc_ascii :: "char \<Rightarrow> string" where
  "esc_ascii c =
     (if html_safe c then [c]
      else if c = CHR 0x22 \<or> c = CHR 0x5C then [CHR 0x5C, c]
      else if c = CHR 0x08 then [CHR 0x5C, CHR ''b'']
      else if c = CHR 0x0C then [CHR 0x5C, CHR ''f'']
      else if c = CHR 0x0A then [CHR 0x5C, CHR ''n'']
      else if c = CHR 0x0D then [CHR 0x5C, CHR ''r'']
      else if c = CHR 0x09 then [CHR 0x5C, CHR ''t'']
      else [CHR 0x5C, CHR ''u'', CHR ''0'', CHR ''0'',
            hex_digit (of_char c div 16), hex_digit (of_char c mod 16)])"

definition esc_rune :: "string \<Rightarrow> string" where
  "esc_rune p =
     (if utf8_len p = 0 then CHR 0x5C # ''ufffd''
      else if utf8_len p = 1 then esc_ascii (hd p)
      else if p = [CHR 0xE2, CHR 0x80, CHR 0xA8] then CHR 0x5C # ''u2028''
      else if p = [CHR 0xE2, CHR 0x80, CHR 0xA9] then CHR 0x5C # ''u2029''
      else p)"

definition escape :: "string \<Rightarrow> string" where
  "escape s = concat (map esc_rune (runes s))"

definition unesc :: "char \<Rightarrow> char" where
  "unesc e = (if e = CHR ''b'' then CHR 0x08 else if e = CHR ''f'' then CHR 0x0C
     else if e = CHR ''n'' then CHR 0x0A else if e = CHR ''r'' then CHR 0x0D
     else if e = CHR ''t'' then CHR 0x09 else e)"

text \<open>
  \<open>unquote\<close> on the text between the quotes of a scanned literal: escapes resolved, surrogate
  pairs joined, a lone surrogate and every byte that is not UTF-8 replaced by U+FFFD.
\<close>

fun unquote :: "string \<Rightarrow> string" where
  "unquote [] = []"
| "unquote (c # r) =
     (if c = CHR 0x5C then
        (case r of [] \<Rightarrow> []
         | e # r' \<Rightarrow>
            if e = CHR ''u'' then
              (let rr = getu4 r'; r2 = drop 4 r' in
               if is_surrogate rr then
                 (case (if take 2 r2 = [CHR 0x5C, CHR ''u'']
                        then decode_surrogates rr (getu4 (drop 2 r2)) else None) of
                    Some cp \<Rightarrow> encode_rune cp @ unquote (drop 6 r2)
                  | None \<Rightarrow> RuneError @ unquote r2)
               else encode_rune rr @ unquote r2)
            else unesc e # unquote r')
      else if c < CHR 0x80 then c # unquote r
      else let n = utf8_len (c # r) in
           if n = 0 then RuneError @ unquote r else (c # take (n - 1) r) @ unquote (drop (n - 1) r))"

subsection \<open>The automaton\<close>

datatype numst = NNeg | N0 | N1 | NDot | NDot0 | NE | NESign | NE0

datatype jmode =
    BeginValue | BeginValueOrEmpty | BeginStringOrEmpty | BeginString
  | InString string | InStringEsc string | InStringEscU nat string
  | Num numst string | Lit string json
  | EndValue json | JErr

text \<open>
  The stack of Go's \<open>parseState\<close>: an open array with its elements so far (latest first), an
  open object that waits for a key, an open object whose key has been read.
\<close>

datatype jframe =
    ArrayValue "json list"
  | ObjectKey "(string \<times> json) list"
  | ObjectValue "(string \<times> json) list" string

type_synonym jconf = "jmode \<times> jframe list"

definition is_ws :: "char \<Rightarrow> bool" where
  "is_ws c \<longleftrightarrow> c = CHR '' '' \<or> c = CHR 0x09 \<or> c = CHR 0x0D \<or> c = CHR 0x0A"

definition maxNestingDepth :: nat where "maxNestingDepth = 10000"

definition push :: "jmode \<Rightarrow> jframe \<Rightarrow> jframe list \<Rightarrow> jconf" where
  "push m f st = (if Suc (length st) \<le> maxNestingDepth then (m, f # st) else (JErr, []))"

fun num_step :: "numst \<Rightarrow> char \<Rightarrow> numst option" where
  "num_step NNeg c = (if c = CHR ''0'' then Some N0 else if is_digit c then Some N1 else None)"
| "num_step N1 c = (if is_digit c then Some N1 else if c = CHR ''.'' then Some NDot
     else if c = CHR ''e'' \<or> c = CHR ''E'' then Some NE else None)"
| "num_step N0 c = (if c = CHR ''.'' then Some NDot
     else if c = CHR ''e'' \<or> c = CHR ''E'' then Some NE else None)"
| "num_step NDot c = (if is_digit c then Some NDot0 else None)"
| "num_step NDot0 c = (if is_digit c then Some NDot0
     else if c = CHR ''e'' \<or> c = CHR ''E'' then Some NE else None)"
| "num_step NE c = (if c = CHR ''+'' \<or> c = CHR ''-'' then Some NESign
     else if is_digit c then Some NE0 else None)"
| "num_step NESign c = (if is_digit c then Some NE0 else None)"
| "num_step NE0 c = (if is_digit c then Some NE0 else None)"

fun num_final :: "numst \<Rightarrow> bool" where
  "num_final N0 = True" | "num_final N1 = True"
| "num_final NDot0 = True" | "num_final NE0 = True"
| "num_final _ = False"

definition begin_value :: "char \<Rightarrow> jframe list \<Rightarrow> jconf" where
  "begin_value c st =
     (if is_ws c then (BeginValue, st)
      else if c = CHR ''{'' then push BeginStringOrEmpty (ObjectKey []) st
      else if c = CHR ''['' then push BeginValueOrEmpty (ArrayValue []) st
      else if c = CHR 0x22 then (InString [], st)
      else if c = CHR ''-'' then (Num NNeg [c], st)
      else if c = CHR ''0'' then (Num N0 [c], st)
      else if c = CHR ''t'' then (Lit ''rue'' (JBool True), st)
      else if c = CHR ''f'' then (Lit ''alse'' (JBool False), st)
      else if c = CHR ''n'' then (Lit ''ull'' JNull, st)
      else if is_digit c then (Num N1 [c], st)
      else (JErr, []))"

definition key_of :: "json \<Rightarrow> string" where
  "key_of v = (case v of JStr s \<Rightarrow> s | _ \<Rightarrow> [])"

fun end_value :: "json \<Rightarrow> char \<Rightarrow> jframe list \<Rightarrow> jconf" where
  "end_value v c [] = (if is_ws c then (EndValue v, []) else (JErr, []))"
| "end_value v c (ArrayValue vs # st) =
     (if is_ws c then (EndValue v, ArrayValue vs # st)
      else if c = CHR '','' then (BeginValue, ArrayValue (v # vs) # st)
      else if c = CHR '']'' then (EndValue (JArr (rev (v # vs))), st)
      else (JErr, []))"
| "end_value v c (ObjectKey ms # st) =
     (if is_ws c then (EndValue v, ObjectKey ms # st)
      else if c = CHR '':'' then (BeginValue, ObjectValue ms (key_of v) # st)
      else (JErr, []))"
| "end_value v c (ObjectValue ms k # st) =
     (if is_ws c then (EndValue v, ObjectValue ms k # st)
      else if c = CHR '','' then (BeginString, ObjectKey ((k, v) # ms) # st)
      else if c = CHR ''}'' then (EndValue (JObj (rev ((k, v) # ms))), st)
      else (JErr, []))"

definition begin_string :: "char \<Rightarrow> jframe list \<Rightarrow> jconf" where
  "begin_string c st =
     (if is_ws c then (BeginString, st) else if c = CHR 0x22 then (InString [], st) else (JErr, []))"

fun jstep :: "jconf \<Rightarrow> char \<Rightarrow> jconf" where
  "jstep (BeginValue, st) c = begin_value c st"
| "jstep (BeginValueOrEmpty, st) c =
     (if is_ws c then (BeginValueOrEmpty, st)
      else if c = CHR '']'' then (EndValue (JArr []), tl st) else begin_value c st)"
| "jstep (BeginStringOrEmpty, st) c =
     (if is_ws c then (BeginStringOrEmpty, st)
      else if c = CHR ''}'' then (EndValue (JObj []), tl st) else begin_string c st)"
| "jstep (BeginString, st) c = begin_string c st"
| "jstep (InString raw, st) c =
     (if c = CHR 0x22 then (EndValue (JStr (unquote (rev raw))), st)
      else if c = CHR 0x5C then (InStringEsc (c # raw), st)
      else if c < CHR 0x20 then (JErr, []) else (InString (c # raw), st))"
| "jstep (InStringEsc raw, st) c =
     (if c = CHR ''u'' then (InStringEscU 4 (c # raw), st)
      else if List.member [CHR ''b'', CHR ''f'', CHR ''n'', CHR ''r'', CHR ''t'', CHR 0x5C, CHR ''/'', CHR 0x22] c
      then (InString (c # raw), st) else (JErr, []))"
| "jstep (InStringEscU n raw, st) c =
     (if is_hex c then (if n \<le> 1 then (InString (c # raw), st) else (InStringEscU (n - 1) (c # raw), st))
      else (JErr, []))"
| "jstep (Num q raw, st) c =
     (case num_step q c of Some q' \<Rightarrow> (Num q' (c # raw), st)
      | None \<Rightarrow> if num_final q then end_value (JNum (rev raw)) c st else (JErr, []))"
| "jstep (Lit [] v, st) c = end_value v c st"
| "jstep (Lit (x # xs) v, st) c =
     (if c = x then (if xs = [] then (EndValue v, st) else (Lit xs v, st)) else (JErr, []))"
| "jstep (EndValue v, st) c = end_value v c st"
| "jstep (JErr, st) c = (JErr, [])"

definition jrun :: "jconf \<Rightarrow> string \<Rightarrow> jconf" where
  "jrun cf s = foldl jstep cf s"

text \<open>At the end of the input the scanner is stepped with a blank, as Go's \<open>eof\<close> does.\<close>

definition parse :: "string \<Rightarrow> json option" where
  "parse s = (case jstep (jrun (BeginValue, []) s) (CHR '' '') of
     (EndValue v, []) \<Rightarrow> Some v | _ \<Rightarrow> None)"

definition json_Valid :: "string \<Rightarrow> bool" where
  "json_Valid s \<longleftrightarrow> parse s \<noteq> None"

subsection \<open>Printing\<close>

definition quote :: "string \<Rightarrow> string" where
  "quote s = CHR 0x22 # escape s @ [CHR 0x22]"

fun join :: "string list \<Rightarrow> string" where
  "join [] = []"
| "join [x] = x"
| "join (x # y # zs) = x @ CHR '','' # join (y # zs)"

fun print :: "json \<Rightarrow> string" where
  "print JNull = ''null''"
| "print (JBool b) = (if b then ''true'' else ''false'')"
| "print (JNum l) = l"
| "print (JStr s) = quote s"
| "print (JArr vs) = CHR ''['' # join (map print vs) @ '']''"
| "print (JObj ms) = CHR ''{'' # join (map (\<lambda>(k, v). quote k @ CHR '':'' # print v) ms) @ ''}''"

subsection \<open>Unmarshal into []json.RawMessage\<close>

text \<open>
  The elements of a top-level array as they stand in the text, white space around them
  dropped: one pass over the (already checked) text with the nesting depth and the string
  state. \<open>null\<close> leaves the slice nil without an error, any other value is an error.
\<close>

datatype strst = Outside | Inside | Escaped

type_synonym split_conf = "nat \<times> strst \<times> string \<times> string list"

fun split_step :: "split_conf \<Rightarrow> char \<Rightarrow> split_conf" where
  "split_step (d, Inside, cur, out) c =
     (d, if c = CHR 0x22 then Outside else if c = CHR 0x5C then Escaped else Inside, c # cur, out)"
| "split_step (d, Escaped, cur, out) c = (d, Inside, c # cur, out)"
| "split_step (d, Outside, cur, out) c =
     (if c = CHR 0x22 then (d, Inside, c # cur, out)
      else if c = CHR ''['' \<or> c = CHR ''{'' then (Suc d, Outside, if d = 0 then cur else c # cur, out)
      else if c = CHR '']'' \<or> c = CHR ''}'' then
        (if d \<le> 1 then (0, Outside, [], if cur = [] then out else rev cur # out)
         else (d - 1, Outside, c # cur, out))
      else if d \<le> 1 \<and> c = CHR '','' then (d, Outside, [], rev cur # out)
      else if d \<le> 1 \<and> is_ws c then (d, Outside, cur, out)
      else (d, Outside, c # cur, out))"

definition raw_elems :: "string \<Rightarrow> string list" where
  "raw_elems s = (case foldl split_step (0, Outside, [], []) s of (_, _, _, out) \<Rightarrow> rev out)"

definition unmarshal_raws :: "string \<Rightarrow> string list option" where
  "unmarshal_raws s = (case parse s of
     Some (JArr _) \<Rightarrow> Some (raw_elems s) | Some JNull \<Rightarrow> Some [] | _ \<Rightarrow> None)"

text \<open>Unmarshal into a string: \<open>null\<close> leaves the empty string, other values are errors.\<close>

definition unmarshal_string :: "string \<Rightarrow> string option" where
  "unmarshal_string s = (case parse s of
     Some (JStr t) \<Rightarrow> Some t | Some JNull \<Rightarrow> Some [] | _ \<Rightarrow> None)"

end
