(* ===== verification/Go_Json_Print.thy ===== *)
theory Go_Json_Print
  imports Go_Json
begin

section \<open>Printing and parsing JSON are inverse\<close>

text \<open>
  The laws of the JSON model that the packet layer uses: a printed value is read back
  (\<open>parse_print\<close>), the elements of a printed array are the printed elements
  (\<open>raw_elems_print\<close>), a quoted string is unquoted to itself (up to the replacement of bytes
  that are not UTF-8). Each is an induction over the value for the automaton started in the
  middle of a document, so the stack and the accumulators are general.
\<close>

subsection \<open>Runs\<close>

lemma jrun_Nil [simp]: "jrun cf [] = cf"
  by (simp add: jrun_def)

lemma jrun_Cons [simp]: "jrun cf (c # s) = jrun (jstep cf c) s"
  by (simp add: jrun_def)

lemma jrun_append [simp]: "jrun cf (s @ t) = jrun (jrun cf s) t"
  by (simp add: jrun_def)

lemma jrun_JErr: "fst cf = JErr \<Longrightarrow> fst (jrun cf s) = JErr"
proof (induction s arbitrary: cf)
  case (Cons c s)
  obtain st where "cf = (JErr, st)" using Cons.prems by (cases cf) auto
  then show ?case using Cons.IH [of "(JErr, [])"] by simp
qed simp

subsection \<open>String literals\<close>

text \<open>
  \<open>str_text t\<close>: inside a string literal both automata copy \<open>t\<close> and stay inside.
\<close>

definition str_text :: "string \<Rightarrow> bool" where
  "str_text t \<longleftrightarrow>
     (\<forall>raw st. jrun (InString raw, st) t = (InString (rev t @ raw), st)) \<and>
     (\<forall>d cur out. foldl split_step (d, Inside, cur, out) t = (d, Inside, rev t @ cur, out))"

lemma str_text_Nil: "str_text []"
  by (simp add: str_text_def)

lemma str_text_append: "str_text s \<Longrightarrow> str_text t \<Longrightarrow> str_text (s @ t)"
  by (simp add: str_text_def)

lemma str_text_concat: "\<forall>s\<in>set ss. str_text s \<Longrightarrow> str_text (concat ss)"
  by (induction ss) (simp_all add: str_text_Nil str_text_append)

lemma str_text_plain:
  "\<forall>c\<in>set t. c \<noteq> CHR 0x22 \<and> c \<noteq> CHR 0x5C \<and> \<not> c < CHR 0x20 \<Longrightarrow> str_text t"
proof (induction t)
  case (Cons c t)
  then have "str_text t" by simp
  with Cons.prems show ?case by (simp add: str_text_def)
qed (simp add: str_text_Nil)

lemma str_text_esc2:
  "e \<in> {CHR ''b'', CHR ''f'', CHR ''n'', CHR ''r'', CHR ''t'', CHR 0x5C, CHR 0x22} \<Longrightarrow> str_text [CHR 0x5C, e]"
  by (auto simp: str_text_def)

lemma str_text_escu:
  "is_hex a \<Longrightarrow> is_hex b \<Longrightarrow> is_hex c \<Longrightarrow> is_hex d \<Longrightarrow> str_text [CHR 0x5C, CHR ''u'', a, b, c, d]"
proof -
  assume h: "is_hex a" "is_hex b" "is_hex c" "is_hex d"
  have "x \<noteq> CHR 0x22 \<and> x \<noteq> CHR 0x5C" if "is_hex x" for x
    using that by (auto simp: is_hex_def is_digit_def less_eq_char_def)
  with h show ?thesis by (simp add: str_text_def)
qed

lemma of_char_hex_digit: "n < 16 \<Longrightarrow> (of_char (hex_digit n) :: nat) = (if n < 10 then 48 + n else 87 + n)"
  by (simp add: hex_digit_def)

lemma is_hex_hex_digit: "n < 16 \<Longrightarrow> is_hex (hex_digit n)"
  using of_char_hex_digit [of n] by (auto simp: is_hex_def is_digit_of_char less_eq_char_def split: if_splits)

lemma hex_val_hex_digit: "n < 16 \<Longrightarrow> hex_val (hex_digit n) = n"
  using of_char_hex_digit [of n] by (auto simp: hex_val_def is_digit_of_char less_eq_char_def split: if_splits)

lemma ascii_of_char: "c < CHR 0x80 \<longleftrightarrow> (of_char c :: nat) < 128"
  by (simp add: less_char_def)

lemma hex_parts: "c < CHR 0x80 \<Longrightarrow> (of_char c :: nat) div 16 < 16 \<and> (of_char c :: nat) mod 16 < 16"
  by (auto simp: ascii_of_char)

lemma is_hex_0: "is_hex CHR ''0''"
  by (simp add: is_hex_def is_digit_def less_eq_char_def)

lemma str_text_esc_ascii: "c < CHR 0x80 \<Longrightarrow> str_text (esc_ascii c)"
proof (cases "html_safe c")
  case True
  then show ?thesis by (auto simp: esc_ascii_def html_safe_def not_less intro: str_text_plain)
next
  case False
  assume c: "c < CHR 0x80"
  have "str_text [CHR 0x5C, CHR ''u'', CHR ''0'', CHR ''0'', hex_digit (of_char c div 16), hex_digit (of_char c mod 16)]"
    using hex_parts [OF c] by (intro str_text_escu is_hex_0 is_hex_hex_digit) simp_all
  then show ?thesis
    using False by (simp add: esc_ascii_def str_text_esc2)
qed

text \<open>The pieces a string is cut into: one byte that starts no sequence, or one sequence.\<close>

lemma runes_piece:
  "p \<in> set (runes s) \<Longrightarrow> (\<exists>c. p = [c] \<and> utf8_len p = 0) \<or> (0 < utf8_len p \<and> length p = utf8_len p)"
proof (induction s rule: runes.induct)
  case (2 c s)
  let ?n = "utf8_len (c # s)"
  show ?case
  proof (cases "p = c # take (?n - 1) s")
    case True
    show ?thesis
    proof (cases "?n = 0")
      case True
      with \<open>p = _\<close> utf8_len_single [OF True] show ?thesis by simp
    next
      case False
      then have "p = take ?n (c # s)" using \<open>p = _\<close> by (cases ?n) simp_all
      with False utf8_len_take [of "c # s"] utf8_len_le [of "c # s"] show ?thesis by simp
    qed
  next
    case False
    with 2 show ?thesis by (simp add: Let_def)
  qed
qed simp

lemma high_not_special: "\<not> c < CHR 0x80 \<Longrightarrow> c \<noteq> CHR 0x22 \<and> c \<noteq> CHR 0x5C \<and> \<not> c < CHR 0x20"
  by (auto simp: less_char_def)

lemma str_text_esc_rune:
  assumes "p \<in> set (runes s)" shows "str_text (esc_rune p)"
proof (cases "utf8_len p \<le> 1")
  case True
  consider "utf8_len p = 0" | c where "p = [c]" "utf8_len p = 1"
    using runes_piece [OF assms] True by (cases p) (auto simp: le_Suc_eq)
  then show ?thesis
  proof cases
    case 1
    then show ?thesis
      using str_text_escu [of "CHR ''f''" "CHR ''f''" "CHR ''f''" "CHR ''d''"]
      by (simp add: esc_rune_def is_hex_def less_eq_char_def)
  next
    case 2
    then have "c < CHR 0x80"
      by (cases rule: utf8_len_cases [of c "[]"]) (auto dest: utf8_head_SomeD)
    with 2 str_text_esc_ascii show ?thesis by (simp add: esc_rune_def)
  qed
next
  case False
  then have len: "length p = utf8_len p" using runes_piece [OF assms] by auto
  then have "\<not> c < CHR 0x80" if "c \<in> set p" for c
    using utf8_bytes_high [of p c] False that by simp
  then have "str_text p" by (intro str_text_plain) (auto dest: high_not_special)
  moreover have "str_text (CHR 0x5C # ''u2028'')" "str_text (CHR 0x5C # ''u2029'')"
    using str_text_escu [of "CHR ''2''" "CHR ''0''" "CHR ''2''" "CHR ''8''"]
      str_text_escu [of "CHR ''2''" "CHR ''0''" "CHR ''2''" "CHR ''9''"]
    by (simp_all add: is_hex_def is_digit_def less_eq_char_def)
  ultimately show ?thesis using False by (simp add: esc_rune_def)
qed

lemma str_text_escape: "str_text (escape s)"
  by (simp add: escape_def str_text_concat str_text_esc_rune)

subsection \<open>Unquoting what was quoted\<close>

lemma getu4_4: "getu4 (a # b # c # d # r) = ((hex_val a * 16 + hex_val b) * 16 + hex_val c) * 16 + hex_val d"
  by (simp add: getu4_def algebra_simps)

lemma unquote_plain: "c \<noteq> CHR 0x5C \<Longrightarrow> c < CHR 0x80 \<Longrightarrow> unquote (c # r) = c # unquote r"
  by simp

lemma unquote_esc2: "e \<noteq> CHR ''u'' \<Longrightarrow> unquote (CHR 0x5C # e # r) = unesc e # unquote r"
  by simp

lemma unquote_escu:
  "\<not> is_surrogate (getu4 [a, b, c, d]) \<Longrightarrow>
   unquote (CHR 0x5C # CHR ''u'' # a # b # c # d # r) = encode_rune (getu4 [a, b, c, d]) @ unquote r"
  by (simp add: getu4_4)

declare unquote.simps(2) [simp del]

lemma hex_val_0: "hex_val CHR ''0'' = 0"
  by (simp add: hex_val_def is_digit_def less_eq_char_def)

lemma encode_rune_ascii: "c < CHR 0x80 \<Longrightarrow> encode_rune (of_char c) = [c]"
  by (simp add: encode_rune_def ascii_of_char)

lemma getu4_hex2:
  "c < CHR 0x80 \<Longrightarrow>
   getu4 [CHR ''0'', CHR ''0'', hex_digit (of_char c div 16), hex_digit (of_char c mod 16)] = of_char c"
  using hex_parts [of c] by (simp add: getu4_4 hex_val_hex_digit hex_val_0)

lemma unquote_hex2:
  assumes "c < CHR 0x80"
  shows "unquote (CHR 0x5C # CHR ''u'' # CHR ''0'' # CHR ''0'' #
     hex_digit (of_char c div 16) # hex_digit (of_char c mod 16) # t) = c # unquote t"
proof -
  have "\<not> is_surrogate (of_char c)" using assms by (simp add: is_surrogate_def ascii_of_char)
  then show ?thesis using unquote_escu getu4_hex2 [OF assms] encode_rune_ascii [OF assms] by simp
qed

lemma unquote_esc_ascii:
  assumes "c < CHR 0x80" shows "unquote (esc_ascii c @ t) = c # unquote t"
proof (cases "html_safe c")
  case True
  then show ?thesis using assms by (simp add: esc_ascii_def unquote_plain html_safe_def)
next
  case False
  then show ?thesis using unquote_hex2 [OF assms, of t]
    by (simp add: esc_ascii_def unquote_esc2 unesc_def)
qed

lemma unquote_high:
  "\<not> c < CHR 0x80 \<Longrightarrow> utf8_len (c # q @ t) = Suc (length q) \<Longrightarrow>
   unquote (c # q @ t) = (c # q) @ unquote t"
  using high_not_special [of c] by (simp add: unquote.simps(2) [of c "q @ t"])

lemma unquote_seq:
  assumes "1 < utf8_len p" "length p = utf8_len p" shows "unquote (p @ t) = p @ unquote t"
proof -
  obtain c q where p: "p = c # q" using assms by (cases p) auto
  have "c \<in> set (take (utf8_len p) p)" unfolding assms(2) [symmetric] by (simp add: p)
  then have "\<not> c < CHR 0x80" by (rule utf8_bytes_high [OF assms(1)])
  moreover have "utf8_len (p @ t) = length p"
    unfolding assms(2) by (rule utf8_len_append) (use assms(1) in linarith)
  ultimately show ?thesis using unquote_high [of c q t] by (simp add: p)
qed

lemma unquote_esc_rune:
  assumes "p \<in> set (runes s)"
  shows "unquote (esc_rune p @ t) = (if utf8_len p = 0 then RuneError else p) @ unquote t"
proof -
  have fffd: "unquote (CHR 0x5C # ''ufffd'' @ t) = RuneError @ unquote t"
    and l28: "unquote (CHR 0x5C # ''u2028'' @ t) = [CHR 0xE2, CHR 0x80, CHR 0xA8] @ unquote t"
    and l29: "unquote (CHR 0x5C # ''u2029'' @ t) = [CHR 0xE2, CHR 0x80, CHR 0xA9] @ unquote t"
    by (simp_all add: unquote_escu getu4_4 hex_val_def is_digit_def less_eq_char_def is_surrogate_def
        encode_rune_def RuneError_def char_of_eq_iff)
  consider "utf8_len p = 0" | c where "p = [c]" "c < CHR 0x80" | "1 < utf8_len p" "length p = utf8_len p"
  proof -
    assume a: "utf8_len p = 0 \<Longrightarrow> thesis" "\<And>c. p = [c] \<Longrightarrow> c < CHR 0x80 \<Longrightarrow> thesis"
      "1 < utf8_len p \<Longrightarrow> length p = utf8_len p \<Longrightarrow> thesis"
    show thesis
    proof (cases "utf8_len p = 1")
      case True
      then obtain c where c: "p = [c]" using runes_piece [OF assms] by (cases p) auto
      with True have "c < CHR 0x80"
        by (cases rule: utf8_len_cases [of c "[]"]) (auto dest: utf8_head_SomeD)
      with c a show thesis by simp
    next
      case False
      with runes_piece [OF assms] a show thesis by (cases "utf8_len p = 0") auto
    qed
  qed
  then show ?thesis
  proof cases
    case 1
    then show ?thesis using fffd by (simp add: esc_rune_def)
  next
    case 2
    then show ?thesis using unquote_esc_ascii [of c t] by (simp add: esc_rune_def)
  next
    case 3
    then show ?thesis using unquote_seq [OF 3, of t] l28 l29
      by (auto simp: esc_rune_def)
  qed
qed

lemma unquote_escape_pieces:
  "\<forall>p\<in>set ps. \<exists>s. p \<in> set (runes s) \<Longrightarrow>
   unquote (concat (map esc_rune ps)) = concat (map (\<lambda>p. if utf8_len p = 0 then RuneError else p) ps)"
proof (induction ps)
  case (Cons p ps)
  then obtain s where "p \<in> set (runes s)" by auto
  with Cons show ?case by (simp add: unquote_esc_rune)
qed simp

lemma unquote_escape: "unquote (escape s) = sanitize s"
  unfolding escape_def sanitize_def by (rule unquote_escape_pieces) blast

lemma unquote_escape_Valid: "Valid s \<Longrightarrow> unquote (escape s) = s"
  by (simp add: unquote_escape sanitize_Valid)

interpretation quoting: codec escape "\<lambda>t. Some (unquote t)" Valid
  by unfold_locales (simp add: unquote_escape_Valid)

lemma jrun_quote: "jrun (InString [], st) (escape s @ [CHR 0x22]) = (EndValue (JStr (sanitize s)), st)"
  using str_text_escape [of s] by (simp add: str_text_def unquote_escape)

lemma split_quote:
  "foldl split_step (d, Outside, cur, out) (quote s) = (d, Outside, rev (quote s) @ cur, out)"
  using str_text_escape [of s] by (simp add: str_text_def quote_def)

subsection \<open>Well-formed values and their nesting depth\<close>

definition num_start :: "char \<Rightarrow> numst option" where
  "num_start c = (if c = CHR ''-'' then Some NNeg else if c = CHR ''0'' then Some N0
     else if is_digit c then Some N1 else None)"

fun num_run :: "numst \<Rightarrow> string \<Rightarrow> numst option" where
  "num_run q [] = Some q"
| "num_run q (c # s) = (case num_step q c of None \<Rightarrow> None | Some q' \<Rightarrow> num_run q' s)"

definition wf_num :: "string \<Rightarrow> bool" where
  "wf_num l = (case l of [] \<Rightarrow> False | c # r \<Rightarrow>
     (case num_start c of None \<Rightarrow> False | Some q \<Rightarrow>
       (case num_run q r of None \<Rightarrow> False | Some q' \<Rightarrow> num_final q')))"

fun wf_json :: "json \<Rightarrow> bool" where
  "wf_json JNull = True"
| "wf_json (JBool b) = True"
| "wf_json (JNum l) = wf_num l"
| "wf_json (JStr s) = Valid s"
| "wf_json (JArr vs) = list_all wf_json vs"
| "wf_json (JObj ms) = list_all (\<lambda>(k, v). Valid k \<and> wf_json v) ms"

fun depth :: "json \<Rightarrow> nat" where
  "depth (JArr vs) = Suc (foldr max (map depth vs) 0)"
| "depth (JObj ms) = Suc (foldr max (map (\<lambda>(k, v). depth v) ms) 0)"
| "depth _ = 0"

lemma foldr_max_ge: "x \<in> set xs \<Longrightarrow> x \<le> foldr max xs (0::nat)"
  by (induction xs) auto

lemma wf_num_cases:
  assumes "wf_num l"
  obtains c r q q' where "l = c # r" "num_start c = Some q" "num_run q r = Some q'" "num_final q'"
  using assms by (auto simp: wf_num_def split: list.splits option.splits)

definition num_chars :: "char \<Rightarrow> bool" where
  "num_chars c \<longleftrightarrow> is_digit c \<or> c \<in> {CHR ''-'', CHR ''+'', CHR ''.'', CHR ''e'', CHR ''E''}"

lemma num_step_chars: "num_step q c = Some q' \<Longrightarrow> num_chars c"
  by (cases q) (auto simp: num_chars_def split: if_splits)

lemma num_run_chars: "num_run q s = Some q' \<Longrightarrow> c \<in> set s \<Longrightarrow> num_chars c"
  by (induction q s rule: num_run.induct) (auto split: option.splits dest: num_step_chars)

lemma num_start_cases:
  assumes "num_start c = Some q"
  obtains "c = CHR ''-''" "q = NNeg" | "c = CHR ''0''" "q = N0" | "is_digit c" "c \<noteq> CHR ''0''" "q = N1"
  using assms that by (simp add: num_start_def split: if_splits)

lemma num_start_chars: "num_start c = Some q \<Longrightarrow> num_chars c"
  by (elim num_start_cases) (simp_all add: num_chars_def)

lemma wf_num_chars:
  assumes "wf_num l" "x \<in> set l" shows "num_chars x"
proof -
  obtain c r q q' where "l = c # r" "num_start c = Some q" "num_run q r = Some q'"
    using assms(1) by (rule wf_num_cases)
  then show ?thesis using assms(2) by (auto dest: num_start_chars num_run_chars)
qed

lemma is_digit_no_ws: "is_digit c \<Longrightarrow> \<not> is_ws c"
  by (auto simp: is_ws_def)

lemma begin_value_digit: "is_digit c \<Longrightarrow> c \<noteq> CHR ''0'' \<Longrightarrow> begin_value c st = (Num N1 [c], st)"
proof -
  assume d: "is_digit c" "c \<noteq> CHR ''0''"
  then have "c \<noteq> CHR ''{''" "c \<noteq> CHR ''[''" "c \<noteq> CHR 0x22" "c \<noteq> CHR ''-''"
    "c \<noteq> CHR ''t''" "c \<noteq> CHR ''f''" "c \<noteq> CHR ''n''" by auto
  with d is_digit_no_ws [OF d(1)] show ?thesis by (simp add: begin_value_def)
qed

lemma begin_value_num: "num_start c = Some q \<Longrightarrow> begin_value c st = (Num q [c], st)"
  by (elim num_start_cases) (simp_all add: begin_value_digit, simp_all add: begin_value_def is_ws_def)

text \<open>The characters that end a value in a printed document.\<close>

definition delim :: "char \<Rightarrow> bool" where
  "delim c \<longleftrightarrow> is_ws c \<or> c = CHR '','' \<or> c = CHR '']'' \<or> c = CHR ''}''"

lemma delim_not_num: "delim c \<Longrightarrow> \<not> num_chars c"
  by (auto simp: delim_def num_chars_def is_ws_def)

lemma num_step_delim: "delim c \<Longrightarrow> num_step q c = None"
  using num_step_chars delim_not_num by (cases "num_step q c") auto

subsection \<open>Reading back a printed value\<close>

text \<open>
  \<open>completed cf v st\<close>: after \<open>cf\<close>, any delimiter is treated as it is right after the value
  \<open>v\<close>. (A number is only known to be complete when the next character comes.)
\<close>

definition completed :: "jconf \<Rightarrow> json \<Rightarrow> jframe list \<Rightarrow> bool" where
  "completed cf v st \<longleftrightarrow> (\<forall>c. delim c \<longrightarrow> jstep cf c = end_value v c st)"

lemma completed_EndValue [simp]: "completed (EndValue v, st) v st"
  by (simp add: completed_def)

lemma jrun_num:
  "num_run q s = Some q' \<Longrightarrow> jrun (Num q raw, st) s = (Num q' (rev s @ raw), st)"
  by (induction q s arbitrary: raw rule: num_run.induct) (auto split: option.splits)

lemma completed_num:
  assumes "wf_num l" shows "completed (jrun (BeginValue, st) l) (JNum l) st"
proof -
  obtain c r q q' where l: "l = c # r" "num_start c = Some q" "num_run q r = Some q'" "num_final q'"
    using assms by (rule wf_num_cases)
  have "jrun (BeginValue, st) l = (Num q' (rev l), st)"
    using jrun_num [OF l(3), of "[c]" st] begin_value_num [OF l(2), of st] by (simp add: l(1))
  then show ?thesis by (simp add: completed_def num_step_delim l(4))
qed

lemma completedD: "completed cf v st \<Longrightarrow> delim c \<Longrightarrow> jstep cf c = end_value v c st"
  by (simp add: completed_def)

lemma delims [simp]: "delim CHR '',''" "delim CHR '']''" "delim CHR ''}''" "delim CHR '' ''"
  by (simp_all add: delim_def is_ws_def)

lemma not_ws [simp]: "\<not> is_ws CHR '',''" "\<not> is_ws CHR '']''" "\<not> is_ws CHR ''}''" "\<not> is_ws CHR '':''"
  "\<not> is_ws CHR ''[''" "\<not> is_ws CHR ''{''" "\<not> is_ws CHR 0x22"
  by (simp_all add: is_ws_def)

text \<open>The first character of a printed value opens the value; it is no blank and no bracket that closes.\<close>

lemma print_first:
  assumes "wf_json v" shows "\<exists>c r. print v = c # r \<and> \<not> is_ws c \<and> c \<noteq> CHR '']'' \<and> c \<noteq> CHR ''}''"
proof (cases v)
  case (JNum l)
  with assms have "wf_num l" by simp
  then obtain c r q where "l = c # r" "num_start c = Some q" by (rule wf_num_cases)
  with JNum show ?thesis by (auto elim!: num_start_cases dest: is_digit_no_ws simp: is_ws_def)
qed (auto simp: quote_def is_ws_def)

lemma BeginValueOrEmpty_eq:
  "\<not> is_ws c \<Longrightarrow> c \<noteq> CHR '']'' \<Longrightarrow> jrun (BeginValueOrEmpty, st) (c # s) = jrun (BeginValue, st) (c # s)"
  by simp

lemma jrun_elems:
  assumes "\<And>v st. v \<in> set vs \<Longrightarrow> length st \<le> n \<Longrightarrow> completed (jrun (BeginValue, st) (print v)) v st"
    and "vs \<noteq> []" and "Suc (length st) \<le> n"
  shows "jrun (BeginValue, ArrayValue acc # st) (join (map print vs) @ '']'')
       = (EndValue (JArr (rev acc @ vs)), st)"
  using assms
proof (induction vs arbitrary: acc)
  case (Cons v vs)
  have v: "completed (jrun (BeginValue, ArrayValue acc # st) (print v)) v (ArrayValue acc # st)"
    using Cons.prems(1) [of v] Cons.prems(3) by simp
  show ?case
  proof (cases vs)
    case Nil
    with completedD [OF v delims(2)] show ?thesis by simp
  next
    case (Cons w ws)
    with completedD [OF v delims(1)] Cons.IH [of "v # acc"] Cons.prems(1,3) show ?thesis by simp
  qed
qed simp

lemma jrun_members:
  assumes "\<And>k v st. (k, v) \<in> set ms \<Longrightarrow> length st \<le> n \<Longrightarrow> completed (jrun (BeginValue, st) (print v)) v st"
    and "list_all (\<lambda>m. Valid (fst m)) ms"
    and "ms \<noteq> []" and "Suc (length st) \<le> n"
  shows "jrun (BeginString, ObjectKey acc # st)
           (join (map (\<lambda>(k, v). quote k @ CHR '':'' # print v) ms) @ ''}'')
       = (EndValue (JObj (rev acc @ ms)), st)"
  using assms
proof (induction ms arbitrary: acc)
  case (Cons m ms)
  obtain k v where m: "m = (k, v)" by (cases m)
  have v: "completed (jrun (BeginValue, ObjectValue acc k # st) (print v)) v (ObjectValue acc k # st)"
    using Cons.prems(1) [of k v] Cons.prems(4) m by simp
  have "Valid k" using Cons.prems(2) m by simp
  then have "sanitize k = k" by (rule sanitize_Valid)
  then have q: "jrun (BeginString, ObjectKey acc # st) (quote k @ CHR '':'' # s)
      = jrun (BeginValue, ObjectValue acc k # st) s" for s
    using jrun_quote [of "ObjectKey acc # st" k]
    by (simp add: quote_def begin_string_def key_of_def)
  show ?case
  proof (cases ms)
    case Nil
    with completedD [OF v delims(3)] q m show ?thesis by simp
  next
    case (Cons w ws)
    have IH: "jrun (BeginString, ObjectKey ((k, v) # acc) # st)
        (join (map (\<lambda>(k, v). quote k @ CHR '':'' # print v) ms) @ ''}'')
      = (EndValue (JObj (rev ((k, v) # acc) @ ms)), st)"
      by (rule Cons.IH) (use Cons.prems Cons in auto)
    have "jstep (jrun (BeginValue, ObjectValue acc k # st) (print v)) (CHR '','')
      = (BeginString, ObjectKey ((k, v) # acc) # st)"
      using completedD [OF v delims(1)] by simp
    with IH Cons m show ?thesis using q [of "print v @ CHR '','' # s" for s] by simp
  qed
qed simp

lemma completed_print:
  "wf_json v \<Longrightarrow> length st + depth v \<le> maxNestingDepth \<Longrightarrow> completed (jrun (BeginValue, st) (print v)) v st"
proof (induction v arbitrary: st rule: print.induct)
  case 1
  then show ?case by (simp add: begin_value_def is_ws_def)
next
  case (2 b)
  then show ?case by (simp add: begin_value_def is_ws_def)
next
  case (3 l)
  then show ?case by (simp add: completed_num)
next
  case (4 s)
  then show ?case
    using jrun_quote [of st s] by (simp add: quote_def begin_value_def sanitize_Valid)
next
  case (5 vs)
  have el: "completed (jrun (BeginValue, st') (print v)) v st'"
    if "v \<in> set vs" "length st' \<le> Suc (length st)" for v st'
    using that "5.IH" [of v st'] "5.prems" foldr_max_ge [of "depth v" "map depth vs"]
    by (auto simp: list_all_iff)
  have p: "jstep (BeginValue, st) (CHR ''['') = (BeginValueOrEmpty, ArrayValue [] # st)"
    using "5.prems"(2) by (simp add: begin_value_def push_def)
  show ?case
  proof (cases vs)
    case Nil
    with p show ?thesis by simp
  next
    case (Cons w ws)
    obtain c r where c: "print w = c # r" "\<not> is_ws c" "c \<noteq> CHR '']''"
      using print_first [of w] "5.prems"(1) Cons by auto
    then obtain r' where "join (map print vs) @ '']'' = c # r'" using Cons by (cases ws) auto
    with c BeginValueOrEmpty_eq [OF c(2,3)]
    have "jrun (BeginValueOrEmpty, ArrayValue [] # st) (join (map print vs) @ '']'')
        = jrun (BeginValue, ArrayValue [] # st) (join (map print vs) @ '']'')" by metis
    also have "\<dots> = (EndValue (JArr vs), st)"
      using jrun_elems [of vs "Suc (length st)" st "[]"] el Cons by simp
    finally show ?thesis using p by simp
  qed
next
  case (6 ms)
  have el: "completed (jrun (BeginValue, st') (print v)) v st'"
    if "(k, v) \<in> set ms" "length st' \<le> Suc (length st)" for k v st'
    using that "6.IH" [of "(k, v)" k v st'] "6.prems" foldr_max_ge [of "depth v" "map (\<lambda>(k, v). depth v) ms"]
    by (force simp: list_all_iff)
  have k: "list_all (\<lambda>m. Valid (fst m)) ms"
    using "6.prems"(1) by (auto simp: list_all_iff)
  have p: "jstep (BeginValue, st) (CHR ''{'') = (BeginStringOrEmpty, ObjectKey [] # st)"
    using "6.prems"(2) by (simp add: begin_value_def push_def is_digit_def)
  show ?case
  proof (cases ms)
    case Nil
    with p show ?thesis by simp
  next
    case (Cons w ws)
    obtain r' where r: "join (map (\<lambda>(k, v). quote k @ CHR '':'' # print v) ms) @ ''}'' = CHR 0x22 # r'"
      using Cons by (cases w; cases ws) (auto simp: quote_def)
    have "jrun (BeginStringOrEmpty, ObjectKey [] # st) (join (map (\<lambda>(k, v). quote k @ CHR '':'' # print v) ms) @ ''}'')
        = jrun (BeginString, ObjectKey [] # st) (join (map (\<lambda>(k, v). quote k @ CHR '':'' # print v) ms) @ ''}'')"
      unfolding r by simp
    also have "\<dots> = (EndValue (JObj ms), st)"
      using jrun_members [of ms "Suc (length st)" st "[]"] el k Cons by simp
    finally show ?thesis using p by simp
  qed
qed

lemma parse_print: "wf_json v \<Longrightarrow> depth v \<le> maxNestingDepth \<Longrightarrow> parse (print v) = Some v"
  using completed_print [of v "[]"] by (simp add: parse_def completed_def is_ws_def)

interpretation json_text: codec print parse "\<lambda>v. wf_json v \<and> depth v \<le> maxNestingDepth"
  by unfold_locales (simp add: parse_print)


subsection \<open>The elements of a printed array\<close>

text \<open>
  Inside an array (depth at least one) the splitter copies a printed value as it stands.
\<close>

definition plain_char :: "char \<Rightarrow> bool" where
  "plain_char c \<longleftrightarrow> \<not> is_ws c \<and>
     c \<notin> {CHR 0x22, CHR ''['', CHR ''{'', CHR '']'', CHR ''}'', CHR '',''}"

lemma split_plain:
  "\<forall>c\<in>set t. plain_char c \<Longrightarrow> foldl split_step (d, Outside, cur, out) t = (d, Outside, rev t @ cur, out)"
  by (induction t arbitrary: cur) (auto simp: plain_char_def)

lemma num_chars_plain: "num_chars c \<Longrightarrow> plain_char c"
  by (auto simp: num_chars_def plain_char_def is_ws_def)

lemma split_join:
  assumes "\<And>t cur. t \<in> set ts \<Longrightarrow>
      foldl split_step (Suc d, Outside, cur, out) t = (Suc d, Outside, rev t @ cur, out)"
    and "0 < d"
  shows "foldl split_step (Suc d, Outside, cur, out) (join ts) = (Suc d, Outside, rev (join ts) @ cur, out)"
  using assms by (induction ts arbitrary: cur rule: join.induct) auto

lemma split_print:
  "wf_json v \<Longrightarrow> 0 < d \<Longrightarrow>
   foldl split_step (d, Outside, cur, out) (print v) = (d, Outside, rev (print v) @ cur, out)"
proof (induction v arbitrary: d cur rule: print.induct)
  case 1
  then show ?case by (simp add: is_ws_def)
next
  case (2 b)
  then show ?case by (simp add: is_ws_def)
next
  case (3 l)
  then show ?case by (simp add: split_plain num_chars_plain wf_num_chars)
next
  case (4 s)
  then show ?case by (simp add: split_quote)
next
  case (5 vs)
  have "foldl split_step (Suc d, Outside, CHR ''['' # cur, out) (join (map print vs))
      = (Suc d, Outside, rev (join (map print vs)) @ CHR ''['' # cur, out)"
    by (rule split_join) (use 5 in \<open>auto simp: list_all_iff\<close>)
  with "5.prems"(2) show ?case by simp
next
  case (6 ms)
  let ?f = "\<lambda>(k, v). quote k @ CHR '':'' # print v"
  have el: "foldl split_step (Suc d, Outside, cur', out) t = (Suc d, Outside, rev t @ cur', out)"
    if "t \<in> set (map ?f ms)" for t cur'
  proof -
    from that obtain k v where t: "(k, v) \<in> set ms" "t = quote k @ CHR '':'' # print v" by auto
    have v: "wf_json v" using "6.prems"(1) t(1) by (auto simp: list_all_iff)
    have "foldl split_step (Suc d, Outside, cur'', out) (print v) = (Suc d, Outside, rev (print v) @ cur'', out)"
      for cur'' by (rule "6.IH" [OF t(1) refl v]) simp
    with t(2) split_quote show ?thesis by (simp add: is_ws_def)
  qed
  have "foldl split_step (Suc d, Outside, CHR ''{'' # cur, out) (join (map ?f ms))
      = (Suc d, Outside, rev (join (map ?f ms)) @ CHR ''{'' # cur, out)"
    using split_join [OF el "6.prems"(2)] .
  with "6.prems"(2) show ?case by simp
qed

lemma split_top:
  "list_all wf_json vs \<Longrightarrow> vs \<noteq> [] \<Longrightarrow>
   foldl split_step (1, Outside, [], out) (join (map print vs) @ '']'')
   = (0, Outside, [], rev (map print vs) @ out)"
proof (induction vs arbitrary: out)
  case (Cons v vs)
  have v: "foldl split_step (1, Outside, [], out) (print v) = (1, Outside, rev (print v), out)"
    using Cons.prems split_print [of v 1 "[]" out] by simp
  have "print v \<noteq> []" using print_first [of v] Cons.prems(1) by auto
  then show ?case
    using v Cons.IH [of "print v # out"] Cons.prems(1) by (cases vs) simp_all
qed simp

lemma raw_elems_print: "list_all wf_json vs \<Longrightarrow> raw_elems (print (JArr vs)) = map print vs"
proof (cases vs)
  case Nil
  then show ?thesis by (simp add: raw_elems_def)
next
  case (Cons w ws)
  assume "list_all wf_json vs"
  then have "foldl split_step (1, Outside, [], []) (join (map print vs) @ '']'')
      = (0, Outside, [], rev (map print vs))"
    using split_top [of vs "[]"] Cons by simp
  then show ?thesis by (simp add: raw_elems_def)
qed

lemma unmarshal_raws_print:
  "list_all wf_json vs \<Longrightarrow> depth (JArr vs) \<le> maxNestingDepth \<Longrightarrow>
   unmarshal_raws (print (JArr vs)) = Some (map print vs)"
  using parse_print [of "JArr vs"] raw_elems_print [of vs] by (simp add: unmarshal_raws_def)

lemma unmarshal_string_print: "Valid s \<Longrightarrow> unmarshal_string (print (JStr s)) = Some s"
  using parse_print [of "JStr s"] by (simp add: unmarshal_string_def)

end
