(* ===== verification/Packet_Codec.thy ===== *)
theory Packet_Codec
  imports Go_Json_Print
begin

section \<open>packet: Socket.IO packets, Encode, Decode, Validate\<close>

text \<open>
  The model of \<open>packet/packet.go\<close>, first part: the packet type, its encoder, its decoder (one
  definition per stage of the Go function, composed by \<open>Decode\<close>) and its validator. Strings
  are byte strings, an \<open>int\<close> of Go is an \<open>int\<close> within the 64-bit range where the code reads one,
  a pointer that may be nil is an option. \<open>encodable\<close> is the domain on which decoding inverts
  encoding.
\<close>

subsection \<open>Packet types\<close>

abbreviation TypeConnect :: char where "TypeConnect \<equiv> CHR ''0''"
abbreviation TypeDisconnect :: char where "TypeDisconnect \<equiv> CHR ''1''"
abbreviation TypeEvent :: char where "TypeEvent \<equiv> CHR ''2''"
abbreviation TypeAck :: char where "TypeAck \<equiv> CHR ''3''"
abbreviation TypeConnectError :: char where "TypeConnectError \<equiv> CHR ''4''"
abbreviation TypeBinaryEvent :: char where "TypeBinaryEvent \<equiv> CHR ''5''"
abbreviation TypeBinaryAck :: char where "TypeBinaryAck \<equiv> CHR ''6''"

definition Type_String :: "char \<Rightarrow> string" where
  "Type_String t =
     (if t = TypeConnect then ''CONNECT''
      else if t = TypeDisconnect then ''DISCONNECT''
      else if t = TypeEvent then ''EVENT''
      else if t = TypeAck then ''ACK''
      else if t = TypeConnectError then ''CONNECT_ERROR''
      else if t = TypeBinaryEvent then ''BINARY_EVENT''
      else if t = TypeBinaryAck then ''BINARY_ACK''
      else ''UNKNOWN('' @ encode_rune (of_char t) @ '')'')"

definition Type_Valid :: "char \<Rightarrow> bool" where
  "Type_Valid t \<longleftrightarrow> TypeConnect \<le> t \<and> t \<le> TypeBinaryAck"

definition IsBinary :: "char \<Rightarrow> bool" where
  "IsBinary t \<longleftrightarrow> t = TypeBinaryEvent \<or> t = TypeBinaryAck"

record packet =
  Type :: char
  Namespace :: string
  ID :: "int option"
  Data :: string
  Attachments :: int

definition invalid :: "string \<Rightarrow> string \<Rightarrow> error" where
  "invalid raw reason = ErrInvalidPacket reason raw"

subsection \<open>NormalizeNS\<close>

definition NormalizeNS :: "string \<Rightarrow> string" where
  "NormalizeNS ns =
     (let ns = TrimSpace ns in
      if ns = [] then ''/'' else if \<not> HasPrefix ns ''/'' then CHR ''/'' # ns else ns)"

definition bad_ns_chars :: string where
  "bad_ns_chars = [CHR 0x00, CHR 0x0D, CHR 0x0A]"

subsection \<open>Encode\<close>

definition encode_body :: "packet \<Rightarrow> error + string" where
  "encode_body p =
     (let ns = NormalizeNS (Namespace p);
          att = (if IsBinary (Type p) then Itoa (Attachments p) @ ''-'' else []);
          ident = (case ID p of None \<Rightarrow> [] | Some i \<Rightarrow> Itoa i)
      in if ns \<noteq> ''/'' then
           (if \<not> HasPrefix ns ''/'' \<or> ContainsAny ns bad_ns_chars
            then Inl (ErrorString ''packet: invalid namespace'')
            else Inr (Type p # att @ ns @ '','' @ ident @ Data p))
         else Inr (Type p # att @ ident @ Data p))"

definition Encode :: "packet option \<Rightarrow> error + string" where
  "Encode po =
     (case po of None \<Rightarrow> Inl (ErrorString ''packet: unknown type'')
      | Some p \<Rightarrow>
        if \<not> Type_Valid (Type p) then Inl (ErrorString ''packet: unknown type'')
        else if Attachments p < 0 \<or> Attachments p > 1024
          then Inl (ErrorString ''packet: invalid attachment count'')
        else if IsBinary (Type p) \<and> Attachments p = 0
          then Inl (ErrorString ''packet: binary packet requires attachments'')
        else if \<not> IsBinary (Type p) \<and> Attachments p \<noteq> 0
          then Inl (ErrorString ''packet: non-binary packet cannot have attachments'')
        else if (case ID p of None \<Rightarrow> False | Some i \<Rightarrow> i < 0)
          then Inl (ErrorString ''packet: negative ack id'')
        else if (Type p = TypeConnect \<or> Type p = TypeDisconnect \<or> Type p = TypeConnectError) \<and> ID p \<noteq> None
          then Inl (ErrorString ''packet: ack id not allowed for this packet type'')
        else encode_body p)"

subsection \<open>Validate\<close>

text \<open>The message of the error, or \<open>None\<close> for a nil error.\<close>

definition Validate :: "packet option \<Rightarrow> string option" where
  "Validate po =
     (case po of None \<Rightarrow> Some ''invalid packet type''
      | Some p \<Rightarrow>
        if \<not> Type_Valid (Type p) then Some ''invalid packet type''
        else
          (let t = Type p; d = Data p;
               verdict =
                 (if t = TypeConnect then
                    (if ID p \<noteq> None then Some ''CONNECT cannot have an id''
                     else if d \<noteq> [] \<and> (hd d \<noteq> CHR ''{'' \<or> \<not> json_Valid d)
                       then Some ''CONNECT payload must be an object'' else None)
                  else if t = TypeDisconnect then
                    (if ID p \<noteq> None \<or> d \<noteq> [] then Some ''DISCONNECT cannot have id or payload'' else None)
                  else if t = TypeEvent \<or> t = TypeBinaryEvent then
                    (if d = [] then Some ''EVENT payload is required''
                     else (case unmarshal_raws d of
                         None \<Rightarrow> Some ''EVENT payload must be a non-empty array''
                       | Some a \<Rightarrow> if a = [] then Some ''EVENT payload must be a non-empty array'' else None))
                  else if t = TypeAck \<or> t = TypeBinaryAck then
                    (if ID p = None then Some ''ACK requires an id''
                     else if d = [] then Some ''ACK payload is required''
                     else if unmarshal_raws d = None then Some ''ACK payload must be an array'' else None)
                  else
                    (if ID p \<noteq> None \<or> d = [] \<or> hd d \<noteq> CHR ''{''
                     then Some ''CONNECT_ERROR payload must be an object'' else None))
           in case verdict of Some e \<Rightarrow> Some e
              | None \<Rightarrow> if \<not> IsBinary t \<and> Attachments p \<noteq> 0 then Some ''unexpected attachments'' else None))"

subsection \<open>Decode\<close>

text \<open>The attachment count of a binary packet, up to the first dash.\<close>

definition decode_attachments :: "string \<Rightarrow> packet \<Rightarrow> string \<Rightarrow> error + packet \<times> string" where
  "decode_attachments raw p rest =
     (if IsBinary (Type p) then
        (case IndexByte rest (CHR ''-'') of
           None \<Rightarrow> Inl (invalid raw ''missing attachment count'')
         | Some dash \<Rightarrow>
             if dash = 0 then Inl (invalid raw ''missing attachment count'')
             else (case Atoi (take dash rest) of
                 None \<Rightarrow> Inl (invalid raw ''invalid attachment count'')
               | Some n \<Rightarrow>
                   if n \<le> 0 \<or> n > 1024 then Inl (invalid raw ''invalid attachment count'')
                   else Inr (p\<lparr>Attachments := n\<rparr>, drop (dash + 1) rest)))
      else Inr (p, rest))"

text \<open>A namespace, if the rest starts with a slash, up to the first comma or the end.\<close>

definition decode_namespace :: "string \<Rightarrow> packet \<Rightarrow> string \<Rightarrow> error + packet \<times> string" where
  "decode_namespace raw p rest =
     (if HasPrefix rest ''/'' then
        (let (ns, rest') = (case IndexByte rest (CHR '','') of
                 Some idx \<Rightarrow> (take idx rest, drop (idx + 1) rest)
               | None \<Rightarrow> (rest, []))
         in if ns = [] \<or> ContainsAny ns bad_ns_chars then Inl (invalid raw ''invalid namespace'')
            else Inr (p\<lparr>Namespace := ns\<rparr>, rest'))
      else Inr (p, rest))"

text \<open>The acknowledgement id of an event or an ack: the longest run of digits.\<close>

definition decode_id :: "string \<Rightarrow> packet \<Rightarrow> string \<Rightarrow> error + packet \<times> string" where
  "decode_id raw p rest =
     (if IsBinary (Type p) \<or> Type p = TypeEvent \<or> Type p = TypeAck then
        (let ds = takeWhile is_digit rest in
         if ds \<noteq> [] then
           (case Atoi ds of
              None \<Rightarrow> Inl (invalid raw ''ack id out of range'')
            | Some n \<Rightarrow> if n < 0 \<or> n > max_int64 then Inl (invalid raw ''ack id out of range'')
                        else Inr (p\<lparr>ID := Some n\<rparr>, dropWhile is_digit rest))
         else Inr (p, rest))
      else Inr (p, rest))"

text \<open>What is left is the payload, and the packet as a whole must be valid.\<close>

definition decode_data :: "string \<Rightarrow> packet \<Rightarrow> string \<Rightarrow> error + packet" where
  "decode_data raw p rest =
     (if rest \<noteq> [] \<and> \<not> json_Valid rest then Inl (invalid raw ''invalid JSON data'')
      else (let p' = (if rest \<noteq> [] then p\<lparr>Data := rest\<rparr> else p) in
            case Validate (Some p') of Some e \<Rightarrow> Inl (invalid raw e) | None \<Rightarrow> Inr p'))"

definition maxPacket :: nat where "maxPacket = 2 ^ 20"

definition Decode :: "string \<Rightarrow> error + packet" where
  "Decode raw =
     (case raw of
        [] \<Rightarrow> Inl (invalid [] ''empty message'')
      | t # rest \<Rightarrow>
          if length raw > maxPacket then Inl (invalid (take 64 raw) ''packet too large'')
          else if \<not> Type_Valid t then Inl (invalid raw ''unknown type'')
          else
            (case decode_attachments raw
                    \<lparr>Type = t, Namespace = ''/'', ID = None, Data = [], Attachments = 0\<rparr> rest of
               Inl e \<Rightarrow> Inl e
             | Inr (p1, r1) \<Rightarrow>
                 (case decode_namespace raw p1 r1 of
                    Inl e \<Rightarrow> Inl e
                  | Inr (p2, r2) \<Rightarrow>
                      (case decode_id raw p2 r2 of
                         Inl e \<Rightarrow> Inl e
                       | Inr (p3, r3) \<Rightarrow> decode_data raw p3 r3))))"

subsection \<open>Namespaces\<close>

lemma NormalizeNS_slash: "prefix ''/'' (NormalizeNS ns)"
  by (simp add: NormalizeNS_def Let_def)

lemma NormalizeNS_trimmed: "trimmed (NormalizeNS ns)"
  using TrimSpace_trimmed [of ns] trimmed_slash [of "TrimSpace ns"] trimmed_slash [of "[]"]
  by (simp add: NormalizeNS_def Let_def)

lemma NormalizeNS_id: "prefix ''/'' ns \<Longrightarrow> trimmed ns \<Longrightarrow> NormalizeNS ns = ns"
  by (auto simp: NormalizeNS_def TrimSpace_id)

lemma NormalizeNS_fixpoint: "NormalizeNS (NormalizeNS ns) = NormalizeNS ns"
  by (rule NormalizeNS_id [OF NormalizeNS_slash NormalizeNS_trimmed])

subsection \<open>The domain of the round trip\<close>

definition ns_ok :: "string \<Rightarrow> bool" where
  "ns_ok ns \<longleftrightarrow> prefix ''/'' ns \<and> \<not> ContainsAny ns bad_ns_chars \<and> CHR '','' \<notin> set ns"

definition decodable :: "packet \<Rightarrow> bool" where
  "decodable p \<longleftrightarrow>
     Validate (Some p) = None \<and>
     (IsBinary (Type p) \<longrightarrow> 1 \<le> Attachments p \<and> Attachments p \<le> 1024) \<and>
     (case ID p of None \<Rightarrow> True | Some i \<Rightarrow> 0 \<le> i \<and> i \<le> max_int64) \<and>
     ns_ok (Namespace p) \<and> (Data p = [] \<or> json_Valid (Data p))"

definition encodable :: "packet \<Rightarrow> bool" where
  "encodable p \<longleftrightarrow> decodable p \<and> trimmed (Namespace p)"

text \<open>A document that is not a number does not start with a digit, and none starts with a slash.\<close>

lemma jrun_num_top:
  "fst cf = JErr \<or> (\<exists>q raw. cf = (Num q raw, [])) \<or> (\<exists>l. cf = (EndValue (JNum l), [])) \<Longrightarrow>
   fst (jrun cf s) = JErr \<or> (\<exists>q raw. jrun cf s = (Num q raw, [])) \<or> (\<exists>l. jrun cf s = (EndValue (JNum l), []))"
proof (induction s arbitrary: cf)
  case (Cons c s)
  from Cons.prems have "fst (jstep cf c) = JErr \<or> (\<exists>q raw. jstep cf c = (Num q raw, [])) \<or>
      (\<exists>l. jstep cf c = (EndValue (JNum l), []))"
    by (cases cf) (auto split: option.splits if_splits)
  then show ?case using Cons.IH by simp
qed simp

lemma parse_digit:
  assumes "is_digit c" "parse (c # s) = Some v" shows "\<exists>l. v = JNum l"
proof -
  have "num_start c \<noteq> None" using assms(1) by (auto simp: num_start_def)
  then obtain q where "begin_value c [] = (Num q [c], [])" using begin_value_num by auto
  then have "fst (jrun (BeginValue, []) (c # s)) = JErr \<or>
      (\<exists>q raw. jrun (BeginValue, []) (c # s) = (Num q raw, [])) \<or>
      (\<exists>l. jrun (BeginValue, []) (c # s) = (EndValue (JNum l), []))"
    using jrun_num_top [of "(Num q [c], [])" s] by simp
  then show ?thesis using assms(2)
    by (cases "jrun (BeginValue, []) (c # s)")
      (auto simp: parse_def split: option.splits jmode.splits list.splits if_splits)
qed

lemma parse_slash: "parse (CHR ''/'' # s) = None"
proof -
  have "begin_value (CHR ''/'') [] = (JErr, [])" by (simp add: begin_value_def is_ws_def)
  then have "fst (jrun (BeginValue, []) (CHR ''/'' # s)) = JErr" by (simp add: jrun_JErr)
  then show ?thesis by (cases "jrun (BeginValue, []) (CHR ''/'' # s)") (simp add: parse_def)
qed

lemma unmarshal_raws_no_digit: "unmarshal_raws (c # s) = Some a \<Longrightarrow> \<not> is_digit c"
  using parse_digit [of c s] by (auto simp: unmarshal_raws_def split: option.splits)

lemma json_Valid_no_slash: "json_Valid s \<Longrightarrow> \<not> prefix ''/'' s"
  by (cases s) (auto simp: json_Valid_def parse_slash)

text \<open>A packet that carries an id, or may carry one, has a payload that starts with no digit.\<close>

lemma Validate_types:
  "Validate (Some p) = None \<Longrightarrow> Type_Valid (Type p) \<and> (\<not> IsBinary (Type p) \<longrightarrow> Attachments p = 0)"
  by (auto simp: Validate_def Let_def split: if_splits option.splits)

lemma Validate_no_id:
  "Validate (Some p) = None \<Longrightarrow> ID p = None \<or> IsBinary (Type p) \<or> Type p = TypeEvent \<or> Type p = TypeAck"
  by (auto simp: Validate_def Let_def IsBinary_def split: if_splits option.splits)

lemma Validate_payload:
  "Validate (Some p) = None \<Longrightarrow> IsBinary (Type p) \<or> Type p = TypeEvent \<or> Type p = TypeAck \<Longrightarrow>
   Data p \<noteq> [] \<and> \<not> is_digit (hd (Data p))"
  by (cases "Data p")
    (auto simp: Validate_def Let_def IsBinary_def dest: unmarshal_raws_no_digit split: if_splits option.splits)

end
