(* ===== verification/Packet_Roundtrip.thy ===== *)
theory Packet_Roundtrip
  imports Packet_Codec
begin

section \<open>packet: what Encode writes, Decode reads\<close>

text \<open>
  Each stage of the decoder undoes its part of the encoding; together they give the round
  trip, the soundness of the decoder (every packet it returns is valid and within bounds),
  the exact conditions under which the encoder succeeds, and re-encoding of received packets.
\<close>

subsection \<open>The stages\<close>

lemma digits_no_dash: "list_all is_digit ds \<Longrightarrow> CHR ''-'' \<notin> set ds"
  by (auto simp: list_all_iff)

lemma decode_attachments_Itoa [wire_simps]:
  assumes "IsBinary (Type p)" "1 \<le> n" "n \<le> 1024"
  shows "decode_attachments raw p (Itoa n @ CHR ''-'' # r) = Inr (p\<lparr>Attachments := n\<rparr>, r)"
proof -
  have d: "Itoa n \<noteq> []" "list_all is_digit (Itoa n)" using Itoa_nonneg [of n] assms(2) by auto
  have "Atoi (Itoa n) = Some n"
    using assms by (intro Atoi_Itoa) (simp_all add: min_int64_def max_int64_def)
  then show ?thesis
    using d assms IndexByte_append [OF digits_no_dash [OF d(2)], of r]
    by (simp add: decode_attachments_def)
qed

lemma decode_attachments_none [wire_simps]:
  "\<not> IsBinary (Type p) \<Longrightarrow> decode_attachments raw p r = Inr (p, r)"
  by (simp add: decode_attachments_def)

lemma decode_namespace_comma [wire_simps]:
  "ns_ok ns \<Longrightarrow> decode_namespace raw p (ns @ CHR '','' # r) = Inr (p\<lparr>Namespace := ns\<rparr>, r)"
  using IndexByte_append [of "CHR '',''" ns r]
  by (auto simp: decode_namespace_def ns_ok_def prefix_def)

lemma decode_namespace_root [wire_simps]:
  "\<not> prefix ''/'' r \<Longrightarrow> decode_namespace raw p r = Inr (p, r)"
  by (simp add: decode_namespace_def)

lemma decode_id_Itoa [wire_simps]:
  assumes "IsBinary (Type p) \<or> Type p = TypeEvent \<or> Type p = TypeAck"
    and "0 \<le> i" "i \<le> max_int64" and "r = [] \<or> \<not> is_digit (hd r)"
  shows "decode_id raw p (Itoa i @ r) = Inr (p\<lparr>ID := Some i\<rparr>, r)"
proof -
  have d: "Itoa i \<noteq> []" "list_all is_digit (Itoa i)" using Itoa_nonneg [of i] assms(2) by auto
  then have "takeWhile is_digit (Itoa i @ r) = Itoa i" "dropWhile is_digit (Itoa i @ r) = r"
    using assms(4) takeWhile_append_stop [of "Itoa i" is_digit r] dropWhile_append_stop [of "Itoa i" is_digit r]
    by (simp_all add: list_all_iff)
  moreover have "Atoi (Itoa i) = Some i"
    using assms(2,3) by (intro Atoi_Itoa) (simp_all add: min_int64_def)
  ultimately show ?thesis using assms d by (simp add: decode_id_def)
qed

lemma decode_id_none [wire_simps]:
  "r = [] \<or> \<not> is_digit (hd r) \<Longrightarrow> decode_id raw p r = Inr (p, r)"
  by (cases r) (simp_all add: decode_id_def)

lemma decode_id_other [wire_simps]:
  "\<not> (IsBinary (Type p) \<or> Type p = TypeEvent \<or> Type p = TypeAck) \<Longrightarrow> decode_id raw p r = Inr (p, r)"
  by (simp add: decode_id_def)

lemma decode_data_payload [wire_simps]:
  "Validate (Some (p\<lparr>Data := r\<rparr>)) = None \<Longrightarrow> Data p = [] \<Longrightarrow> r = [] \<or> json_Valid r \<Longrightarrow>
   decode_data raw p r = Inr (p\<lparr>Data := r\<rparr>)"
  by (cases p) (auto simp: decode_data_def)

subsection \<open>The encoded text of an encodable packet\<close>

definition att_text :: "packet \<Rightarrow> string" where
  "att_text p = (if IsBinary (Type p) then Itoa (Attachments p) @ ''-'' else [])"

definition ns_text :: "packet \<Rightarrow> string" where
  "ns_text p = (if Namespace p = ''/'' then [] else Namespace p @ '','')"

definition id_text :: "packet \<Rightarrow> string" where
  "id_text p = (case ID p of None \<Rightarrow> [] | Some i \<Rightarrow> Itoa i)"

definition wire :: "packet \<Rightarrow> string" where
  "wire p = Type p # att_text p @ ns_text p @ id_text p @ Data p"

lemma encodableD:
  assumes "encodable p"
  shows "Validate (Some p) = None" "ns_ok (Namespace p)" "trimmed (Namespace p)"
    "NormalizeNS (Namespace p) = Namespace p" "Type_Valid (Type p)"
    "IsBinary (Type p) \<Longrightarrow> 1 \<le> Attachments p \<and> Attachments p \<le> 1024"
    "\<not> IsBinary (Type p) \<Longrightarrow> Attachments p = 0"
    "ID p = Some i \<Longrightarrow> 0 \<le> i \<and> i \<le> max_int64"
    "Data p = [] \<or> json_Valid (Data p)"
  using assms Validate_types [of p]
  by (auto simp: encodable_def decodable_def ns_ok_def intro: NormalizeNS_id)

lemma Encode_encodable:
  assumes "encodable p" shows "Encode (Some p) = Inr (wire p)"
proof -
  note e = encodableD [OF assms]
  have "encode_body p = Inr (wire p)"
    using e(2,4) by (auto simp: encode_body_def wire_def att_text_def ns_text_def id_text_def ns_ok_def Let_def)
  moreover have "(Type p = TypeConnect \<or> Type p = TypeDisconnect \<or> Type p = TypeConnectError) \<Longrightarrow> ID p = None"
    using Validate_no_id [OF e(1)] by (auto simp: IsBinary_def)
  ultimately show ?thesis
    using e(5-8) by (auto simp: Encode_def split: option.splits)
qed

lemma data_no_slash: "encodable p \<Longrightarrow> \<not> prefix ''/'' (id_text p @ Data p)"
proof -
  assume e: "encodable p"
  show ?thesis
  proof (cases "ID p")
    case None
    then show ?thesis using encodableD(9) [OF e] json_Valid_no_slash by (auto simp: id_text_def)
  next
    case (Some i)
    then have "Itoa i \<noteq> []" "list_all is_digit (Itoa i)"
      using Itoa_nonneg [of i] encodableD(8) [OF e Some] by auto
    then obtain c s where "Itoa i = c # s" "is_digit c" by (cases "Itoa i") auto
    with Some show ?thesis by (auto simp: id_text_def)
  qed
qed

lemma packet_eqI:
  "Type p = Type q \<Longrightarrow> Namespace p = Namespace q \<Longrightarrow> ID p = ID q \<Longrightarrow> Data p = Data q \<Longrightarrow>
   Attachments p = Attachments q \<Longrightarrow> p = (q :: packet)"
  by simp

lemma Decode_wire:
  assumes e: "encodable p" and len: "length (wire p) \<le> maxPacket"
  shows "Decode (wire p) = Inr p"
proof -
  note d = encodableD [OF e]
  let ?raw = "wire p"
  let ?p0 = "\<lparr>Type = Type p, Namespace = ''/'', ID = None, Data = [], Attachments = 0\<rparr>"
  let ?p1 = "?p0\<lparr>Attachments := Attachments p\<rparr>"
  let ?p2 = "?p1\<lparr>Namespace := Namespace p\<rparr>"
  let ?p3 = "?p2\<lparr>ID := ID p\<rparr>"
  have 1: "decode_attachments ?raw ?p0 (att_text p @ ns_text p @ id_text p @ Data p)
      = Inr (?p1, ns_text p @ id_text p @ Data p)"
    using d(6,7) by (simp add: att_text_def wire_simps)
  have 2: "decode_namespace ?raw ?p1 (ns_text p @ id_text p @ Data p) = Inr (?p2, id_text p @ Data p)"
    using d(2) data_no_slash [OF e] by (simp add: ns_text_def wire_simps)
  have 3: "decode_id ?raw ?p2 (id_text p @ Data p) = Inr (?p3, Data p)"
  proof (cases "ID p")
    case None
    then show ?thesis
      using Validate_payload [OF d(1)]
      by (cases "IsBinary (Type p) \<or> Type p = TypeEvent \<or> Type p = TypeAck")
        (simp_all add: id_text_def wire_simps)
  next
    case (Some i)
    then have "IsBinary (Type p) \<or> Type p = TypeEvent \<or> Type p = TypeAck"
      using Validate_no_id [OF d(1)] by simp
    then show ?thesis
      using Validate_payload [OF d(1)] d(8) [OF Some] Some by (simp add: id_text_def decode_id_Itoa)
  qed
  have p: "?p3\<lparr>Data := Data p\<rparr> = p" by (rule packet_eqI) simp_all
  have 4: "decode_data ?raw ?p3 (Data p) = Inr p"
    using decode_data_payload [where p = ?p3 and r = "Data p" and raw = ?raw, unfolded p] d(1,9)
    by simp
  show ?thesis
    using len d(5) 1 2 3 4 by (simp add: Decode_def wire_def)
qed

interpretation packet_codec:
  codec wire "\<lambda>raw. case Decode raw of Inl _ \<Rightarrow> None | Inr p \<Rightarrow> Some p"
    "\<lambda>p. encodable p \<and> length (wire p) \<le> maxPacket"
  by unfold_locales (simp add: Decode_wire)

subsection \<open>Soundness of the decoder\<close>

lemma decode_attachments_sound:
  "decode_attachments raw p r = Inr (p', r') \<Longrightarrow>
   \<exists>n. p' = p\<lparr>Attachments := n\<rparr> \<and>
     (if IsBinary (Type p) then 1 \<le> n \<and> n \<le> 1024 else n = Attachments p \<and> r' = r)"
  by (cases p) (auto simp: decode_attachments_def split: if_splits option.splits)

lemma take_IndexByte: "IndexByte s c = Some n \<Longrightarrow> c \<notin> set (take n s)"
  by (drule IndexByte_SomeD) simp

lemma decode_namespace_sound:
  assumes "decode_namespace raw p r = Inr (p', r')" "ns_ok (Namespace p)"
  shows "\<exists>ns. p' = p\<lparr>Namespace := ns\<rparr> \<and> ns_ok ns"
proof (cases "prefix ''/'' r")
  case False
  with assms show ?thesis by (intro exI [of _ "Namespace p"]) (simp add: decode_namespace_def)
next
  case True
  then obtain s where s: "r = CHR ''/'' # s" by (auto simp: prefix_def)
  show ?thesis
  proof (cases "IndexByte r (CHR '','')")
    case None
    then have "CHR '','' \<notin> set r" by (simp add: IndexByte_None_iff)
    then show ?thesis using assms True None
      by (auto simp: decode_namespace_def ns_ok_def split: if_splits)
  next
    case (Some n)
    moreover have "n \<noteq> 0" using Some s by (auto split: if_splits)
    ultimately show ?thesis using assms True s take_IndexByte [OF Some]
      by (auto simp: decode_namespace_def ns_ok_def take_Cons' split: if_splits)
  qed
qed

lemma decode_id_sound:
  assumes "decode_id raw p r = Inr (p', r')" "ID p = None"
  shows "\<exists>i. p' = p\<lparr>ID := i\<rparr> \<and> (case i of None \<Rightarrow> True | Some i \<Rightarrow> 0 \<le> i \<and> i \<le> max_int64)"
proof (cases "p' = p")
  case True
  moreover have "p\<lparr>ID := None\<rparr> = p" using assms(2) by (cases p) simp
  ultimately show ?thesis by (intro exI [of _ None]) simp
next
  case False
  then obtain n where "p' = p\<lparr>ID := Some n\<rparr>" "0 \<le> n" "n \<le> max_int64"
    using assms(1) unfolding decode_id_def Let_def
    by (auto split: if_splits option.splits simp del: takeWhile_eq_Nil_iff)
  then show ?thesis by (intro exI [of _ "Some n"]) simp
qed

lemma decode_data_sound:
  assumes "decode_data raw p r = Inr p'" "Data p = []"
  shows "p' = p\<lparr>Data := r\<rparr> \<and> (r = [] \<or> json_Valid r) \<and> Validate (Some p') = None"
proof (cases "r = []")
  case True
  moreover have "p\<lparr>Data := []\<rparr> = p" using assms(2) by (cases p) simp
  ultimately show ?thesis using assms(1)
    by (simp add: decode_data_def split: option.splits)
next
  case False
  with assms(1) show ?thesis
    by (auto simp: decode_data_def Let_def split: option.splits if_splits)
qed

lemma Decode_sound:
  assumes "Decode raw = Inr p" shows "decodable p" and "raw \<noteq> []" and "hd raw = Type p"
proof -
  obtain t rest where raw: "raw = t # rest" using assms by (auto simp: Decode_def split: list.splits)
  let ?p0 = "\<lparr>Type = t, Namespace = ''/'', ID = None, Data = [], Attachments = 0\<rparr>"
  obtain p1 r1 p2 r2 p3 r3 where st:
      "decode_attachments raw ?p0 rest = Inr (p1, r1)" "decode_namespace raw p1 r1 = Inr (p2, r2)"
      "decode_id raw p2 r2 = Inr (p3, r3)" "decode_data raw p3 r3 = Inr p"
    using assms unfolding raw by (auto simp: Decode_def split: sum.splits if_splits)
  obtain n where p1: "p1 = ?p0\<lparr>Attachments := n\<rparr>" and n: "if IsBinary t then 1 \<le> n \<and> n \<le> 1024 else n = 0"
    using decode_attachments_sound [OF st(1)] by (auto split: if_splits)
  have "ns_ok (Namespace p1)" by (simp add: p1 ns_ok_def ContainsAny_iff bad_ns_chars_def)
  then obtain ns where p2: "p2 = p1\<lparr>Namespace := ns\<rparr>" "ns_ok ns"
    using decode_namespace_sound [OF st(2)] by auto
  obtain i where p3: "p3 = p2\<lparr>ID := i\<rparr>" "case i of None \<Rightarrow> True | Some i \<Rightarrow> 0 \<le> i \<and> i \<le> max_int64"
    using decode_id_sound [OF st(3)] p1 p2 by auto
  have p: "p = p3\<lparr>Data := r3\<rparr>" "r3 = [] \<or> json_Valid r3" "Validate (Some p) = None"
    using decode_data_sound [OF st(4)] p1 p2 p3 by auto
  show "decodable p" using n p p1 p2 p3 by (simp add: decodable_def split: if_splits)
  show "raw \<noteq> []" "hd raw = Type p" using raw p p1 p2 p3 by simp_all
qed


lemma stage_errors:
  "decode_attachments raw p r = Inl e \<Longrightarrow> \<exists>reason. e = ErrInvalidPacket reason raw"
  "decode_namespace raw p r = Inl e \<Longrightarrow> \<exists>reason. e = ErrInvalidPacket reason raw"
  "decode_id raw p r = Inl e \<Longrightarrow> \<exists>reason. e = ErrInvalidPacket reason raw"
  "decode_data raw p r = Inl e \<Longrightarrow> \<exists>reason. e = ErrInvalidPacket reason raw"
  unfolding decode_attachments_def decode_namespace_def decode_id_def decode_data_def invalid_def Let_def
  by (force split: option.splits if_splits prod.splits)+

lemma Encode_ok_iff:
  "is_ok (Encode (Some p)) \<longleftrightarrow>
   Type_Valid (Type p) \<and>
   (if IsBinary (Type p) then 1 \<le> Attachments p \<and> Attachments p \<le> 1024 else Attachments p = 0) \<and>
   (case ID p of None \<Rightarrow> True
    | Some i \<Rightarrow> 0 \<le> i \<and> Type p \<notin> {TypeConnect, TypeDisconnect, TypeConnectError}) \<and>
   \<not> ContainsAny (NormalizeNS (Namespace p)) bad_ns_chars"
proof -
  have "\<not> ContainsAny ''/'' bad_ns_chars" by (simp add: ContainsAny_iff bad_ns_chars_def)
  then have "is_ok (encode_body p) \<longleftrightarrow> \<not> ContainsAny (NormalizeNS (Namespace p)) bad_ns_chars"
    using NormalizeNS_slash [of "Namespace p"] by (auto simp: encode_body_def Let_def)
  then show ?thesis
    by (cases "ID p") (auto simp: Encode_def simp del: is_ok_iff)
qed

subsection \<open>Properties\<close>

text \<open>C1. Round trip: a valid packet (its payload checked by \<open>Validate\<close>, its namespace normal and
  free of commas) is encoded, and what \<open>Encode\<close> writes, \<open>Decode\<close> reads back as the same packet,
  as long as the text stays within the size the decoder accepts.\<close>

theorem decode_encode:
  assumes "encodable p"
  shows "\<exists>raw. Encode (Some p) = Inr raw \<and> (length raw \<le> maxPacket \<longrightarrow> Decode raw = Inr p)"
  using Encode_encodable [OF assms] Decode_wire [OF assms] by auto

text \<open>C6. Soundness of the decoder: every packet \<open>Decode\<close> accepts passes \<open>Validate\<close>, has between 1 and
  1024 attachments exactly when it is binary, a namespace that starts with a slash and holds no
  comma, NUL or line break, an id within the int range, and a payload that is empty or valid JSON.\<close>

theorem decode_sound:
  assumes "Decode raw = Inr p"
  shows "Validate (Some p) = None \<and> Type_Valid (Type p) \<and>
    (if IsBinary (Type p) then 1 \<le> Attachments p \<and> Attachments p \<le> 1024 else Attachments p = 0) \<and>
    prefix ''/'' (Namespace p) \<and> \<not> ContainsAny (Namespace p) bad_ns_chars \<and> CHR '','' \<notin> set (Namespace p) \<and>
    (\<forall>i. ID p = Some i \<longrightarrow> 0 \<le> i \<and> i \<le> max_int64) \<and> (Data p = [] \<or> json_Valid (Data p))"
  using Decode_sound(1) [OF assms] Validate_types [of p]
  by (auto simp: decodable_def ns_ok_def)

text \<open>A received packet can be forwarded: re-encoding it succeeds and decodes to the same packet,
  provided its namespace carries no surrounding white space.\<close>

theorem reencode:
  assumes "Decode raw = Inr p" "trimmed (Namespace p)"
  shows "\<exists>raw'. Encode (Some p) = Inr raw' \<and> (length raw' \<le> maxPacket \<longrightarrow> Decode raw' = Inr p)"
proof -
  have "encodable p" using Decode_sound(1) [OF assms(1)] assms(2) by (simp add: encodable_def)
  then show ?thesis using Encode_encodable Decode_wire by auto
qed

text \<open>The exact domain of \<open>Encode\<close>: it fails on nil, on an unknown type, on an attachment count that
  does not fit the type or exceeds 1024, on a negative id or an id on a type that has none, and on
  a namespace with a NUL or a line break; in every other case it succeeds.\<close>

theorem encode_succeeds_iff:
  "is_ok (Encode po) \<longleftrightarrow>
   (\<exists>p. po = Some p \<and> Type_Valid (Type p) \<and>
     (if IsBinary (Type p) then 1 \<le> Attachments p \<and> Attachments p \<le> 1024 else Attachments p = 0) \<and>
     (case ID p of None \<Rightarrow> True
      | Some i \<Rightarrow> 0 \<le> i \<and> Type p \<notin> {TypeConnect, TypeDisconnect, TypeConnectError}) \<and>
     \<not> ContainsAny (NormalizeNS (Namespace p)) bad_ns_chars)"
  using Encode_ok_iff by (cases po) (auto simp: Encode_def simp del: is_ok_iff)

text \<open>Every decoding failure is an \<open>ErrInvalidPacket\<close> that carries the offending input, cut to its
  first 64 bytes when it exceeds the size limit.\<close>

theorem decode_error_shape:
  "case Decode raw of Inr _ \<Rightarrow> True
   | Inl e \<Rightarrow> \<exists>reason. e = ErrInvalidPacket reason (if length raw > maxPacket then take 64 raw else raw)"
proof (cases raw)
  case Nil
  then show ?thesis by (simp add: Decode_def invalid_def)
next
  case (Cons t rest)
  show ?thesis
  proof (cases "Decode raw")
    case (Inl e)
    then show ?thesis
      using Cons by (auto simp: Decode_def invalid_def split: sum.splits if_splits) (blast dest: stage_errors)+
  qed simp
qed

text \<open>A namespace with a comma is not rejected by \<open>Encode\<close>, yet no text it could be sent as decodes
  back to the packet: the decoder ends a namespace at the first comma.\<close>

theorem comma_namespace_lost:
  assumes "CHR '','' \<in> set (Namespace p)" shows "Decode raw \<noteq> Inr p"
  using Decode_sound(1) [of raw p] assms by (auto simp: decodable_def ns_ok_def)

text \<open>\<open>NormalizeNS\<close> always yields a namespace that starts with a slash and carries no surrounding
  white space, and a second application changes nothing.\<close>

theorem normalize_ns_normal:
  "prefix ''/'' (NormalizeNS ns) \<and> trimmed (NormalizeNS ns) \<and> NormalizeNS (NormalizeNS ns) = NormalizeNS ns"
  by (simp add: NormalizeNS_slash NormalizeNS_trimmed NormalizeNS_fixpoint)

text \<open>The wire format is unambiguous: two valid packets within the size limit have the same encoding
  only if they are the same packet.\<close>

theorem encode_injective:
  assumes "encodable p" "encodable q" "Encode (Some p) = Encode (Some q)"
    and "\<exists>raw. Encode (Some p) = Inr raw \<and> length raw \<le> maxPacket"
  shows "p = q"
  using assms packet_codec.enc_inject [of p q] by (simp add: Encode_encodable)

subsection \<open>Witnesses\<close>

definition sample_event :: packet where
  "sample_event = \<lparr>Type = TypeEvent, Namespace = ''/chat'', ID = Some 7,
     Data = ''['' @ quote ''hi'' @ '',1]'', Attachments = 0\<rparr>"

lemma sample_event_encodable: "encodable sample_event"
  by code_simp

text \<open>The packet \<open>2/chat,7["hi",1]\<close> satisfies the hypotheses of the theorems above.\<close>

lemma sample_event_wire: "wire sample_event = ''2/chat,7'' @ ''['' @ quote ''hi'' @ '',1]''"
  by code_simp

lemma sample_event_Encode: "Encode (Some sample_event) = Inr (wire sample_event)"
  by (rule Encode_encodable [OF sample_event_encodable])

lemma sample_event_length: "length (wire sample_event) = 16"
  by code_simp

lemma sample_event_short: "length (wire sample_event) \<le> maxPacket"
  by (simp add: sample_event_length maxPacket_def)

lemma sample_event_Decode: "Decode (wire sample_event) = Inr sample_event"
  by (rule Decode_wire [OF sample_event_encodable sample_event_short])

theorem decode_encode_witness:
  "\<exists>raw. Encode (Some sample_event) = Inr raw \<and> (length raw \<le> maxPacket \<longrightarrow> Decode raw = Inr sample_event)"
  by (rule decode_encode [OF sample_event_encodable])

theorem decode_sound_witness:
  "\<exists>p. Decode (wire sample_event) = Inr p \<and> Validate (Some p) = None"
  using decode_sound [OF sample_event_Decode] sample_event_Decode by blast

theorem reencode_witness:
  "\<exists>raw'. Encode (Some sample_event) = Inr raw' \<and> (length raw' \<le> maxPacket \<longrightarrow> Decode raw' = Inr sample_event)"
proof (rule reencode [OF sample_event_Decode])
  show "trimmed (Namespace sample_event)" using sample_event_encodable by (simp add: encodable_def)
qed

definition comma_event :: packet where
  "comma_event = sample_event\<lparr>Namespace := ''/a,b''\<rparr>"

theorem comma_namespace_lost_witness:
  "is_ok (Encode (Some comma_event)) \<and> Decode (''2/a,b,7[]'') \<noteq> Inr comma_event"
proof
  show "is_ok (Encode (Some comma_event))" by code_simp
  have "CHR '','' \<in> set (Namespace comma_event)" by (simp add: comma_event_def)
  then show "Decode (''2/a,b,7[]'') \<noteq> Inr comma_event" by (rule comma_namespace_lost)
qed

theorem encode_injective_witness: "projr (Decode (wire sample_event)) = sample_event"
proof -
  have eq: "projr (Decode (wire sample_event)) = sample_event" by (simp add: sample_event_Decode)
  show ?thesis
    by (rule encode_injective [of "projr (Decode (wire sample_event))" sample_event])
      (simp_all add: eq sample_event_encodable sample_event_Encode sample_event_short)
qed

end
