(* ===== verification/Go_Float.thy ===== *)
theory Go_Float
  imports Go_Json_Print
begin

section \<open>JSON numbers as float64\<close>

text \<open>
  \<open>json.Unmarshal\<close> into \<open>interface{}\<close> turns a number literal into a \<open>float64\<close>: the nearest
  binary floating-point number (ties to even), an error where that exceeds the range. The value
  is kept as a sign, a mantissa and a binary exponent. \<open>float_to_int\<close> is the conversion \<open>int(f)\<close>
  of Go on amd64: truncation towards zero, and the smallest 64-bit integer for every value out of
  range (the language leaves that case to the implementation). The law needed by the packet layer
  is that an integer below \<open>2^53\<close> survives the way from its literal to a float and back.
\<close>

datatype float64 = Float64 (f_neg: bool) (f_mant: nat) (f_exp: int)

fun nbits :: "nat \<Rightarrow> nat" where
  "nbits n = (if n = 0 then 0 else Suc (nbits (n div 2)))"

declare nbits.simps [simp del]

definition round_div :: "nat \<Rightarrow> nat \<Rightarrow> nat" where
  "round_div n d = (let q = n div d; r = n mod d in
     if 2 * r < d then q else if 2 * r > d then q + 1 else if even q then q else q + 1)"

definition pow2 :: "int \<Rightarrow> nat" where
  "pow2 e = 2 ^ nat e"

text \<open>The float nearest to \<open>num / den\<close>, or \<open>None\<close> above the range.\<close>

definition nearest :: "bool \<Rightarrow> nat \<Rightarrow> nat \<Rightarrow> float64 option" where
  "nearest neg num den =
     (if num = 0 then Some (Float64 neg 0 0)
      else
        (let e0 = int (nbits num) - int (nbits den) - 53;
             e1 = (if num * pow2 (- (e0 + 53)) \<ge> den * pow2 (e0 + 53) then e0 + 1 else e0);
             e = max e1 (- 1074);
             m = round_div (num * pow2 (- e)) (den * pow2 e)
         in if m * pow2 e \<ge> 2 ^ 1024 * pow2 (- e) then None else Some (Float64 neg m e)))"

text \<open>Sign, digits and decimal exponent of a literal the scanner accepted.\<close>

definition exp_part :: "string \<Rightarrow> int" where
  "exp_part s =
     (case s of [] \<Rightarrow> 0
      | _ # r \<Rightarrow>
         if HasPrefix r ''-'' then - int (digits_val (tl r))
         else if HasPrefix r ''+'' then int (digits_val (tl r)) else int (digits_val r))"

definition parse_float :: "string \<Rightarrow> float64 option" where
  "parse_float l =
     (let neg = HasPrefix l ''-'';
          t = (if neg then tl l else l);
          ip = takeWhile is_digit t;
          r1 = dropWhile is_digit t;
          fp = (if HasPrefix r1 ''.'' then takeWhile is_digit (tl r1) else []);
          r2 = (if HasPrefix r1 ''.'' then dropWhile is_digit (tl r1) else r1);
          e = exp_part r2 - int (length fp);
          d = digits_val (ip @ fp)
      in nearest neg (d * 10 ^ nat e) (10 ^ nat (- e)))"

definition f_less_0 :: "float64 \<Rightarrow> bool" where
  "f_less_0 f \<longleftrightarrow> f_neg f \<and> 0 < f_mant f"

definition f_trunc :: "float64 \<Rightarrow> int" where
  "f_trunc f = (let m = int (f_mant f * pow2 (f_exp f) div pow2 (- f_exp f)) in if f_neg f then - m else m)"

definition float_to_int :: "float64 \<Rightarrow> int" where
  "float_to_int f = (let i = f_trunc f in if i < min_int64 \<or> max_int64 < i then min_int64 else i)"

subsection \<open>Small integers are exact\<close>

lemma nbits_0 [simp]: "nbits 0 = 0"
  by (subst nbits.simps) simp

lemma nbits_pos: "0 < n \<Longrightarrow> nbits n = Suc (nbits (n div 2))"
  by (subst nbits.simps) simp

lemma nbits_1 [simp]: "nbits 1 = 1" "nbits (Suc 0) = 1"
  by (simp_all add: nbits_pos)

lemma nbits_upper: "n < 2 ^ nbits n"
proof (induction n rule: nbits.induct)
  case (1 n)
  then show ?case by (cases "n = 0") (auto simp: nbits_pos)
qed

lemma nbits_lower: "0 < n \<Longrightarrow> 2 ^ (nbits n - 1) \<le> n"
proof (induction n rule: nbits.induct)
  case (1 n)
  show ?case
  proof (cases "n div 2 = 0")
    case True
    then have "n = 1" using "1.prems" by simp
    then show ?thesis by simp
  next
    case False
    with "1" have "2 ^ (nbits (n div 2) - 1) \<le> n div 2" by simp
    moreover have "nbits (n div 2) = Suc (nbits (n div 2) - 1)" using False by (simp add: nbits_pos)
    ultimately have "2 ^ nbits (n div 2) \<le> 2 * (n div 2)" by (metis mult_le_mono2 power_Suc)
    then show ?thesis using "1.prems" by (simp add: nbits_pos)
  qed
qed

lemma nbits_le: "n < 2 ^ k \<Longrightarrow> nbits n \<le> k"
proof (rule ccontr)
  assume "n < 2 ^ k" "\<not> nbits n \<le> k"
  moreover from this have "0 < n" by (cases "n = 0") auto
  moreover have "(2::nat) ^ k \<le> 2 ^ (nbits n - 1)"
    using \<open>\<not> nbits n \<le> k\<close> by (intro power_increasing) simp_all
  ultimately show False using nbits_lower [of n] by linarith
qed

lemma round_div_1 [simp]: "round_div n (Suc 0) = n"
  by (simp add: round_div_def)

lemma nearest_exact:
  assumes "0 < n" "n < 2 ^ 53"
  shows "nearest neg n 1 = Some (Float64 neg (n * 2 ^ (53 - nbits n)) (int (nbits n) - 53))"
proof -
  have b: "nbits n \<le> 53" "0 < nbits n" using nbits_le [OF assms(2)] assms(1) by (simp_all add: nbits_pos)
  let ?e0 = "int (nbits n) - 1 - 53"
  have "pow2 (?e0 + 53) = 2 ^ (nbits n - 1)" "pow2 (- (?e0 + 53)) = 1"
    using b by (simp_all add: pow2_def nat_diff_distrib)
  then have e1: "n * pow2 (- (?e0 + 53)) \<ge> 1 * pow2 (?e0 + 53)"
    using nbits_lower [OF assms(1)] by simp
  have e: "max (?e0 + 1) (- 1074) = int (nbits n) - 53" using b by simp
  have p: "pow2 (- (int (nbits n) - 53)) = 2 ^ (53 - nbits n)" "pow2 (int (nbits n) - 53) = 1"
    using b by (simp_all add: pow2_def nat_diff_distrib)
  have "n < (2::nat) ^ 1024" using assms(2) less_le_trans [OF assms(2), of "2 ^ 1024"] by simp
  then have "\<not> n * 2 ^ (53 - nbits n) \<ge> 2 ^ 1024 * 2 ^ (53 - nbits n)" by simp
  with e1 e p assms(1) show ?thesis by (simp add: nearest_def Let_def)
qed

lemma float_small_nat:
  assumes "n < 2 ^ 53"
  shows "\<exists>f. parse_float (Itoa (int n)) = Some f \<and> \<not> f_less_0 f \<and> float_to_int f = int n"
proof -
  have d: "takeWhile is_digit (digits_of n) = digits_of n" "dropWhile is_digit (digits_of n) = []"
    by (auto simp: takeWhile_eq_all_conv)
  have pf: "parse_float (Itoa (int n)) = nearest False n 1"
    using digits_no_sign [of "digits_of n"] d
    by (simp add: parse_float_def Itoa_def exp_part_def Let_def d
        del: dropWhile_eq_Nil_conv takeWhile_eq_all_conv)
  show ?thesis
  proof (cases "n = 0")
    case True
    then show ?thesis
      using pf by (simp add: nearest_def f_less_0_def float_to_int_def f_trunc_def min_int64_def max_int64_def)
  next
    case False
    let ?f = "Float64 False (n * 2 ^ (53 - nbits n)) (int (nbits n) - 53)"
    have b: "nbits n \<le> 53" by (rule nbits_le [OF assms])
    have "pow2 (- (int (nbits n) - 53)) = 2 ^ (53 - nbits n)" "pow2 (int (nbits n) - 53) = 1"
      using b by (simp_all add: pow2_def nat_diff_distrib)
    then have "f_trunc ?f = int n" by (simp add: f_trunc_def Let_def)
    moreover have "int n \<le> max_int64"
      using assms less_le_trans [of "int n" "2 ^ 53" "2 ^ 63 - 1"] by (simp add: max_int64_def)
    ultimately have "float_to_int ?f = int n"
      by (simp add: float_to_int_def min_int64_def)
    then show ?thesis using pf nearest_exact [of n False] False assms by (simp add: f_less_0_def)
  qed
qed

end
