(* ===== verification/Go_Base64.thy ===== *)
theory Go_Base64
  imports Go_Strings
begin

section \<open>encoding/base64, standard alphabet with padding\<close>

text \<open>
  \<open>StdEncoding.EncodeToString\<close> and \<open>StdEncoding.DecodeString\<close>: three bytes become four letters;
  the decoder ignores line breaks, checks the padding and accepts nothing after it. The law is
  that decoding inverts encoding on every byte string. \<open>RawURLEncoding\<close> is the same without the
  padding and with two other letters.
\<close>

definition b64_char :: "nat \<Rightarrow> char" where
  "b64_char n = (if n < 26 then char_of (65 + n) else if n < 52 then char_of (71 + n)
     else if n < 62 then char_of (n - 4) else if n = 62 then CHR ''+'' else CHR ''/'')"

definition b64_val :: "char \<Rightarrow> nat option" where
  "b64_val c = (let n = of_char c in
     if 65 \<le> n \<and> n \<le> 90 then Some (n - 65) else if 97 \<le> n \<and> n \<le> 122 then Some (n - 71)
     else if 48 \<le> n \<and> n \<le> 57 then Some (n + 4) else if n = 43 then Some 62
     else if n = 47 then Some 63 else None)"

definition b64_quad :: "nat \<Rightarrow> string" where
  "b64_quad n = [b64_char (n div 262144), b64_char (n div 4096 mod 64), b64_char (n div 64 mod 64), b64_char (n mod 64)]"

fun b64_encode :: "string \<Rightarrow> string" where
  "b64_encode [] = []"
| "b64_encode [a] = take 2 (b64_quad (of_char a * 65536)) @ ''==''"
| "b64_encode [a, b] = take 3 (b64_quad (of_char a * 65536 + of_char b * 256)) @ ''=''"
| "b64_encode (a # b # c # s) = b64_quad (of_char a * 65536 + of_char b * 256 + of_char c) @ b64_encode s"

definition is_newline :: "char \<Rightarrow> bool" where
  "is_newline c \<longleftrightarrow> c = CHR 0x0A \<or> c = CHR 0x0D"

definition b64_bytes :: "nat \<Rightarrow> string" where
  "b64_bytes n = [char_of (n div 65536), char_of (n div 256 mod 256), char_of (n mod 256)]"

fun b64_quads :: "string \<Rightarrow> string option" where
  "b64_quads [] = Some []"
| "b64_quads (a # b # c # d # s) =
     (case (b64_val a, b64_val b) of
        (Some x, Some y) \<Rightarrow>
          if c = CHR ''='' then
            (if d = CHR ''='' \<and> s = [] then Some (take 1 (b64_bytes (x * 262144 + y * 4096))) else None)
          else (case b64_val c of None \<Rightarrow> None
            | Some z \<Rightarrow>
                if d = CHR ''='' then
                  (if s = [] then Some (take 2 (b64_bytes (x * 262144 + y * 4096 + z * 64))) else None)
                else (case b64_val d of None \<Rightarrow> None
                  | Some w \<Rightarrow> map_option (\<lambda>t. b64_bytes (x * 262144 + y * 4096 + z * 64 + w) @ t) (b64_quads s)))
      | _ \<Rightarrow> None)"
| "b64_quads _ = None"

definition b64_decode :: "string \<Rightarrow> string option" where
  "b64_decode s = b64_quads (filter (\<lambda>c. \<not> is_newline c) s)"

lemma of_char_b64_char:
  "n < 64 \<Longrightarrow> (of_char (b64_char n) :: nat) =
    (if n < 26 then 65 + n else if n < 52 then 71 + n else if n < 62 then n - 4 else if n = 62 then 43 else 47)"
  by (simp add: b64_char_def)

lemma b64_val_char [simp]: "n < 64 \<Longrightarrow> b64_val (b64_char n) = Some n"
  by (auto simp: b64_val_def of_char_b64_char Let_def)

lemma b64_char_not_pad [simp]: "n < 64 \<Longrightarrow> b64_char n \<noteq> CHR ''=''"
  using b64_val_char [of n] by (auto simp: b64_val_def)

lemma b64_char_not_newline [simp]: "n < 64 \<Longrightarrow> \<not> is_newline (b64_char n)"
  using b64_val_char [of n] by (auto simp: b64_val_def is_newline_def)

lemma of_char_less [simp]: "(of_char c :: nat) < 256"
  by (metis mod_less_divisor of_char_mod_256 zero_less_numeral)

text \<open>The four letters hold the 24 bits, and the 24 bits hold the three bytes.\<close>

lemma quad_sum_gen:
  "n = a * 64 + p \<Longrightarrow> a = b * 64 + q \<Longrightarrow> b = c * 64 + r \<Longrightarrow> c * 262144 + r * 4096 + q * 64 + p = (n::nat)"
  by simp

lemma quad_sum: "(n::nat) div 262144 * 262144 + n div 4096 mod 64 * 4096 + n div 64 mod 64 * 64 + n mod 64 = n"
proof -
  have d: "n div 4096 = n div 64 div 64" "n div 262144 = n div 64 div 64 div 64"
    by (simp_all flip: div_mult2_eq)
  show ?thesis unfolding d by (rule quad_sum_gen) (rule div_mult_mod_eq [symmetric])+
qed

lemma quad_head: "n < 16777216 \<Longrightarrow> n div 262144 < (64::nat)"
  by (simp add: div_less_iff_less_mult)

lemma bytes_head: "a < 256 \<Longrightarrow> b < 256 \<Longrightarrow> c < 256 \<Longrightarrow> a * 65536 + b * 256 + c < (16777216::nat)"
  by simp

lemma bytes_sum:
  assumes "b < 256" "c < (256::nat)"
  shows "b64_bytes (a * 65536 + b * 256 + c) = [char_of a, char_of b, char_of c]"
proof -
  have "a * 65536 + b * 256 + c = (a * 256 + b) * 256 + c" by simp
  then have "(a * 65536 + b * 256 + c) div 256 = a * 256 + b" "(a * 65536 + b * 256 + c) mod 256 = c"
    using assms(2) by (simp, metis mod_less mod_mult_self3)
  moreover from this(1) have "(a * 65536 + b * 256 + c) div 65536 = (a * 256 + b) div 256"
    using div_mult2_eq [of "a * 65536 + b * 256 + c" 256 256] by simp
  ultimately show ?thesis using assms by (simp add: b64_bytes_def)
qed

lemma quad_clean: "n < 16777216 \<Longrightarrow> \<forall>c\<in>set (b64_quad n). \<not> is_newline c"
  using quad_head [of n] by (simp add: b64_quad_def)

lemma newline_free: "filter (\<lambda>c. \<not> is_newline c) (b64_encode s) = b64_encode s"
proof (induction s rule: b64_encode.induct)
  case (2 a)
  then show ?case
    using quad_clean [of "of_char a * 65536"] bytes_head [of "of_char a" 0 0]
    by (auto simp: filter_id_conv is_newline_def dest: in_set_takeD)
next
  case (3 a b)
  then show ?case
    using quad_clean [of "of_char a * 65536 + of_char b * 256"] bytes_head [of "of_char a" "of_char b" 0]
    by (auto simp: filter_id_conv is_newline_def dest: in_set_takeD)
next
  case (4 a b c s)
  then show ?case
    using quad_clean [of "of_char a * 65536 + of_char b * 256 + of_char c"]
      bytes_head [of "of_char a" "of_char b" "of_char c"]
    by (simp add: filter_id_conv)
qed simp

lemma b64_decode_encode: "b64_decode (b64_encode s) = Some s"
proof -
  have "b64_quads (b64_encode s) = Some s"
  proof (induction s rule: b64_encode.induct)
    case (2 a)
    let ?n = "of_char a * 65536 :: nat"
    have "?n div 64 mod 64 = 0" "?n mod 64 = 0" by simp_all
    then have "?n div 262144 * 262144 + ?n div 4096 mod 64 * 4096 = ?n" using quad_sum [of ?n] by simp
    moreover have "?n div 262144 < 64" using bytes_head [of "of_char a" 0 0] by (intro quad_head) simp
    ultimately show ?case using bytes_sum [of 0 0 "of_char a"] by (simp add: b64_quad_def)
  next
    case (3 a b)
    let ?n = "of_char a * 65536 + of_char b * 256 :: nat"
    have "?n mod 64 = 0" by simp
    then have "?n div 262144 * 262144 + ?n div 4096 mod 64 * 4096 + ?n div 64 mod 64 * 64 = ?n"
      using quad_sum [of ?n] by simp
    moreover have "?n div 262144 < 64"
      using bytes_head [of "of_char a" "of_char b" 0] by (intro quad_head) simp
    ultimately show ?case using bytes_sum [of "of_char b" 0 "of_char a"] by (simp add: b64_quad_def)
  next
    case (4 a b c s)
    let ?n = "of_char a * 65536 + of_char b * 256 + of_char c :: nat"
    have "?n div 262144 < 64" by (intro quad_head bytes_head) simp_all
    then show ?case using 4 quad_sum [of ?n] bytes_sum [of "of_char b" "of_char c" "of_char a"]
      by (simp add: b64_quad_def)
  qed simp
  then show ?thesis by (simp add: b64_decode_def newline_free)
qed

subsection \<open>The URL alphabet, without padding\<close>

definition url_char :: "char \<Rightarrow> char" where
  "url_char c = (if c = CHR ''+'' then CHR ''-'' else if c = CHR ''/'' then CHR ''_'' else c)"

definition raw_url_encode :: "string \<Rightarrow> string" where
  "raw_url_encode s = map url_char (takeWhile (\<lambda>c. c \<noteq> CHR ''='') (b64_encode s))"

definition b64_letters :: "char set" where
  "b64_letters = b64_char ` {..<64}"

definition url_letters :: "char set" where
  "url_letters = url_char ` b64_letters"

lemma b64_letters_no: "CHR ''='' \<notin> b64_letters" "CHR ''-'' \<notin> b64_letters" "CHR ''_'' \<notin> b64_letters"
proof -
  have "b64_val c \<noteq> None" if "c \<in> b64_letters" for c using that by (auto simp: b64_letters_def)
  then show "CHR ''='' \<notin> b64_letters" "CHR ''-'' \<notin> b64_letters" "CHR ''_'' \<notin> b64_letters"
    by (force simp: b64_val_def Let_def)+
qed

lemma inj_url_char: "inj_on url_char b64_letters"
  using b64_letters_no by (auto simp: inj_on_def url_char_def split: if_splits)

lemma quad_letters: "n < 16777216 \<Longrightarrow> set (b64_quad n) \<subseteq> b64_letters \<and> length (b64_quad n) = 4"
  using quad_head [of n] by (auto simp: b64_quad_def b64_letters_def)

text \<open>What is left of an encoding without its padding.\<close>

lemma b64_encode_body:
  "\<exists>body. b64_encode s = body @ replicate ((3 - length s mod 3) mod 3) CHR ''='' \<and> set body \<subseteq> b64_letters \<and>
     length body = (length s * 4 + 2) div 3"
proof (induction s rule: b64_encode.induct)
  case (2 a)
  have "of_char a * 65536 < (16777216::nat)" using bytes_head [of "of_char a" 0 0] by simp
  from quad_letters [OF this] show ?case
    by (intro exI [of _ "take 2 (b64_quad (of_char a * 65536))"]) (auto simp: numeral_2_eq_2 dest: in_set_takeD)
next
  case (3 a b)
  have "of_char a * 65536 + of_char b * 256 < (16777216::nat)" using bytes_head [of "of_char a" "of_char b" 0] by simp
  from quad_letters [OF this] show ?case
    by (intro exI [of _ "take 3 (b64_quad (of_char a * 65536 + of_char b * 256))"]) (auto dest: in_set_takeD)
next
  case (4 a b c s)
  then obtain body where body: "b64_encode s = body @ replicate ((3 - length s mod 3) mod 3) CHR ''=''"
    "set body \<subseteq> b64_letters" "length body = (length s * 4 + 2) div 3" by blast
  let ?q = "b64_quad (of_char a * 65536 + of_char b * 256 + of_char c)"
  have "set ?q \<subseteq> b64_letters" "length ?q = 4"
    using quad_letters [OF bytes_head [of "of_char a" "of_char b" "of_char c"]] by simp_all
  then show ?case using body by (intro exI [of _ "?q @ body"]) auto
qed simp

lemma raw_url_letters: "set (raw_url_encode s) \<subseteq> url_letters \<and> length (raw_url_encode s) = (length s * 4 + 2) div 3"
proof -
  obtain body where b: "b64_encode s = body @ replicate ((3 - length s mod 3) mod 3) CHR ''=''" "set body \<subseteq> b64_letters"
    "length body = (length s * 4 + 2) div 3" using b64_encode_body by blast
  have "takeWhile (\<lambda>c. c \<noteq> CHR ''='') (b64_encode s) = body"
    unfolding b(1) using b(2) b64_letters_no(1) by (subst takeWhile_append2) auto
  then show ?thesis using b(2,3) by (auto simp: raw_url_encode_def url_letters_def)
qed

lemma raw_url_inj:
  assumes "raw_url_encode s = raw_url_encode t" "length s = length t" shows "s = t"
proof -
  obtain bs where s: "b64_encode s = bs @ replicate ((3 - length s mod 3) mod 3) CHR ''=''" "set bs \<subseteq> b64_letters"
    using b64_encode_body by blast
  obtain bt where t: "b64_encode t = bt @ replicate ((3 - length t mod 3) mod 3) CHR ''=''" "set bt \<subseteq> b64_letters"
    using b64_encode_body by blast
  have clean: "takeWhile (\<lambda>c. c \<noteq> CHR ''='') (b @ replicate n CHR ''='') = b" if "set b \<subseteq> b64_letters" for b n
    using that b64_letters_no(1) by (subst takeWhile_append2) auto
  have "map url_char bs = map url_char bt"
    using assms(1) by (simp add: raw_url_encode_def s(1) t(1) clean [OF s(2)] clean [OF t(2)])
  moreover have "inj_on url_char (set bs \<union> set bt)" using s(2) t(2) by (intro inj_on_subset [OF inj_url_char]) simp
  ultimately have "bs = bt" by (rule map_inj_on)
  then have "b64_encode s = b64_encode t" by (simp add: s(1) t(1) assms(2))
  then show ?thesis using b64_decode_encode by (metis option.inject)
qed

interpretation base64: codec b64_encode b64_decode "\<lambda>_. True"
  by unfold_locales (simp add: b64_decode_encode)

end
