(* ===== verification/Packet_Data.thy ===== *)
theory Packet_Data
  imports Packet_Roundtrip Go_Float Go_Base64 "HOL-Library.List_Lexorder"
begin

section \<open>packet: event payloads and binary attachments\<close>

text \<open>
  The model of \<open>packet/packet.go\<close>, second part: reading event names and arguments, building
  payloads from Go values, taking byte slices out of them (\<open>containsBinary\<close>, \<open>deconstruct\<close>) and
  putting them back (\<open>Reconstruct\<close>). A Go value handed to the library is a \<open>gval\<close>: what the
  reflection of the source distinguishes. Struct fields are plain named fields whose tag is a
  name and possibly \<open>omitempty\<close>; a float is kept as the literal \<open>json.Marshal\<close> prints for it.
  A list of map entries stands for the order in which Go happens to iterate over the map.
\<close>

subsection \<open>EventName and EventArgs\<close>

definition EventName :: "string \<Rightarrow> error + string" where
  "EventName d =
     (case unmarshal_raws d of
        None \<Rightarrow> Inl (ErrorString ''packet: event data must be a non-empty JSON array'')
      | Some [] \<Rightarrow> Inl (ErrorString ''packet: event data must be a non-empty JSON array'')
      | Some (a # _) \<Rightarrow>
          (case unmarshal_string a of
             None \<Rightarrow> Inl (ErrorString ''packet: event name must be a non-empty string'')
           | Some name \<Rightarrow>
               if name = [] then Inl (ErrorString ''packet: event name must be a non-empty string'')
               else Inr name))"

definition EventArgs :: "string \<Rightarrow> error + string list" where
  "EventArgs d =
     (case unmarshal_raws d of
        None \<Rightarrow> Inl (ErrorString ''packet: event data must be a non-empty JSON array'')
      | Some [] \<Rightarrow> Inl (ErrorString ''packet: event data must be a non-empty JSON array'')
      | Some (_ # args) \<Rightarrow> Inr args)"

subsection \<open>Go values\<close>

datatype gkey = KString string | KInt int

datatype sfield = SField (sf_exported: bool) (sf_name: string) (sf_tag: string)

datatype gval =
    GNil
  | GBool bool
  | GInt int
  | GFloat string
  | GString string
  | GBytes string
  | GSlice "gval list option"
  | GMap "(gkey \<times> gval) list option"
  | GStruct "(sfield \<times> gval) list"
  | GPtr "gval option"
  | GChan

text \<open>\<open>strings.Split(tag, ",")[0]\<close>, and whether \<open>omitempty\<close> is among the options.\<close>

definition tag_name :: "string \<Rightarrow> string" where
  "tag_name tag = takeWhile (\<lambda>c. c \<noteq> CHR '','') tag"

definition tag_omitempty :: "string \<Rightarrow> bool" where
  "tag_omitempty tag = Contains (tag @ '','') '',omitempty,''"

definition field_name :: "sfield \<Rightarrow> string" where
  "field_name f = (if tag_name (sf_tag f) = [] then sf_name f else tag_name (sf_tag f))"

definition key_string :: "gkey \<Rightarrow> string" where
  "key_string k = (case k of KString s \<Rightarrow> s | KInt i \<Rightarrow> Itoa i)"

subsection \<open>json.Marshal\<close>

definition is_empty_value :: "gval \<Rightarrow> bool" where
  "is_empty_value v = (case v of
     GNil \<Rightarrow> True | GBool b \<Rightarrow> \<not> b | GInt i \<Rightarrow> i = 0 | GFloat l \<Rightarrow> l = ''0'' \<or> l = ''-0''
   | GString s \<Rightarrow> s = [] | GBytes b \<Rightarrow> b = []
   | GSlice vs \<Rightarrow> vs = None \<or> vs = Some [] | GMap m \<Rightarrow> m = None \<or> m = Some []
   | GPtr p \<Rightarrow> p = None | _ \<Rightarrow> False)"

text \<open>The options of a list, all of them or none: an error in one part is an error of the whole.\<close>

fun sequence :: "'a option list \<Rightarrow> 'a list option" where
  "sequence [] = Some []"
| "sequence (x # xs) = (case x of None \<Rightarrow> None | Some y \<Rightarrow> map_option (\<lambda>ys. y # ys) (sequence xs))"

fun to_json :: "gval \<Rightarrow> json option" where
  "to_json GNil = Some JNull"
| "to_json (GBool b) = Some (JBool b)"
| "to_json (GInt i) = Some (JNum (Itoa i))"
| "to_json (GFloat l) = Some (JNum l)"
| "to_json (GString s) = Some (JStr s)"
| "to_json (GBytes b) = Some (JStr (b64_encode b))"
| "to_json (GSlice None) = Some JNull"
| "to_json (GSlice (Some vs)) = map_option JArr (sequence (map to_json vs))"
| "to_json (GMap None) = Some JNull"
| "to_json (GMap (Some ms)) =
     map_option (\<lambda>js. JObj (sort_key fst js))
       (sequence (map (\<lambda>(k, v). map_option (\<lambda>j. (key_string k, j)) (to_json v)) ms))"
| "to_json (GStruct fs) =
     map_option (\<lambda>js. JObj (concat js))
       (sequence (map (\<lambda>(f, v).
          if \<not> sf_exported f \<or> sf_tag f = ''-'' \<or> (tag_omitempty (sf_tag f) \<and> is_empty_value v) then Some []
          else map_option (\<lambda>j. [(field_name f, j)]) (to_json v)) fs))"
| "to_json (GPtr None) = Some JNull"
| "to_json (GPtr (Some v)) = to_json v"
| "to_json GChan = None"

definition Marshal :: "gval \<Rightarrow> error + string" where
  "Marshal v = (case to_json v of
     None \<Rightarrow> Inl (ErrorString ''json: unsupported type'') | Some j \<Rightarrow> Inr (print j))"

text \<open>\<open>fmt.Errorf("context: %w", err)\<close>: the context in front of the message.\<close>

definition wrap_error :: "string \<Rightarrow> error \<Rightarrow> error" where
  "wrap_error ctx e = (case e of ErrorString s \<Rightarrow> ErrorString (ctx @ s) | _ \<Rightarrow> e)"

definition BuildEventData :: "string \<Rightarrow> gval list \<Rightarrow> error + string" where
  "BuildEventData event args =
     (case Marshal (GSlice (Some (GString event # args))) of
        Inl e \<Rightarrow> Inl (wrap_error ''packet: marshal event data: '' e) | Inr b \<Rightarrow> Inr b)"

definition BuildAckData :: "gval list \<Rightarrow> error + string" where
  "BuildAckData values =
     (if values = [] then Inr ''[]''
      else (case Marshal (GSlice (Some values)) of
        Inl e \<Rightarrow> Inl (wrap_error ''packet: marshal ack data: '' e) | Inr b \<Rightarrow> Inr b))"

subsection \<open>Byte slices in a value\<close>

fun containsBinary :: "gval \<Rightarrow> bool" where
  "containsBinary (GPtr p) = (case p of None \<Rightarrow> False | Some v \<Rightarrow> containsBinary v)"
| "containsBinary (GBytes _) = True"
| "containsBinary (GSlice vs) = (case vs of None \<Rightarrow> False | Some vs \<Rightarrow> list_ex containsBinary vs)"
| "containsBinary (GMap m) = (case m of None \<Rightarrow> False | Some ms \<Rightarrow> list_ex (\<lambda>(k, v). containsBinary v) ms)"
| "containsBinary (GStruct fs) = list_ex (\<lambda>(f, v). sf_exported f \<and> containsBinary v) fs"
| "containsBinary _ = False"

definition placeholder :: "nat \<Rightarrow> gval" where
  "placeholder n = GMap (Some [(KString ''_placeholder'', GBool True), (KString ''num'', GInt (int n))])"

text \<open>
  The value with every byte slice replaced by a placeholder, and the buffers so far with the new
  ones appended. \<open>m[name] = v\<close> on the fresh Go map is \<open>AList.update\<close>.
\<close>

function (sequential) deconstruct :: "gval \<Rightarrow> string list \<Rightarrow> gval \<times> string list"
  and deconstruct_elems :: "gval list \<Rightarrow> string list \<Rightarrow> gval list \<times> string list"
  and deconstruct_entries ::
    "(gkey \<times> gval) list \<Rightarrow> (gkey \<times> gval) list \<Rightarrow> string list \<Rightarrow> (gkey \<times> gval) list \<times> string list"
  and deconstruct_fields ::
    "(sfield \<times> gval) list \<Rightarrow> (gkey \<times> gval) list \<Rightarrow> string list \<Rightarrow> (gkey \<times> gval) list \<times> string list"
where
  "deconstruct v bufs =
     (case v of
        GPtr p \<Rightarrow> (case p of None \<Rightarrow> (GNil, bufs) | Some w \<Rightarrow> deconstruct w bufs)
      | GBytes b \<Rightarrow> (placeholder (length bufs), bufs @ [b])
      | GSlice vs \<Rightarrow>
          (case vs of None \<Rightarrow> (GSlice (Some []), bufs)
           | Some vs \<Rightarrow> let (a, bufs') = deconstruct_elems vs bufs in (GSlice (Some a), bufs'))
      | GMap ms \<Rightarrow>
          (case ms of None \<Rightarrow> (GMap (Some []), bufs)
           | Some ms \<Rightarrow> let (m, bufs') = deconstruct_entries ms [] bufs in (GMap (Some m), bufs'))
      | GStruct fs \<Rightarrow> let (m, bufs') = deconstruct_fields fs [] bufs in (GMap (Some m), bufs')
      | _ \<Rightarrow> (v, bufs))"
| "deconstruct_elems [] bufs = ([], bufs)"
| "deconstruct_elems (v # vs) bufs =
     (let (w, bufs1) = deconstruct v bufs; (ws, bufs2) = deconstruct_elems vs bufs1 in (w # ws, bufs2))"
| "deconstruct_entries [] m bufs = (m, bufs)"
| "deconstruct_entries ((k, v) # ms) m bufs =
     (case k of
        KInt _ \<Rightarrow> deconstruct_entries ms m bufs
      | KString _ \<Rightarrow>
          let (w, bufs1) = deconstruct v bufs in deconstruct_entries ms (AList.update k w m) bufs1)"
| "deconstruct_fields [] m bufs = (m, bufs)"
| "deconstruct_fields ((f, v) # fs) m bufs =
     (if \<not> sf_exported f \<or> tag_name (sf_tag f) = ''-'' then deconstruct_fields fs m bufs
      else let (w, bufs1) = deconstruct v bufs
           in deconstruct_fields fs (AList.update (KString (field_name f)) w m) bufs1)"
  by pat_completeness auto
termination
  by (relation "measure (case_sum
        (case_sum (\<lambda>(v, _). size v) (\<lambda>(vs, _). size_list size vs))
        (case_sum (\<lambda>(ms, _, _). size_list (size_prod (\<lambda>_. 0) size) ms)
                  (\<lambda>(fs, _, _). size_list (size_prod (\<lambda>_. 0) size) fs)))") auto

declare deconstruct.simps [simp del]

definition marshalWithBinary :: "gval \<Rightarrow> error + string \<times> string list" where
  "marshalWithBinary v =
     (if \<not> containsBinary v then
        (case Marshal v of Inl e \<Rightarrow> Inl e | Inr b \<Rightarrow> Inr (b, []))
      else
        (let (clean, buffers) = deconstruct v [] in
         case Marshal clean of Inl e \<Rightarrow> Inl e | Inr b \<Rightarrow> Inr (b, buffers)))"

definition buildData :: "string \<Rightarrow> gval list \<Rightarrow> error + string \<times> string list" where
  "buildData event args = marshalWithBinary (GSlice (Some (GString event # args)))"

text \<open>A variadic call without arguments passes the nil slice.\<close>

definition buildArray :: "gval list \<Rightarrow> error + string \<times> string list" where
  "buildArray args = marshalWithBinary (GSlice (if args = [] then None else Some args))"

definition BuildEventPacket ::
    "string \<Rightarrow> string \<Rightarrow> int option \<Rightarrow> gval list \<Rightarrow> error + packet \<times> string list" where
  "BuildEventPacket namespace event ident args =
     (case buildData event args of
        Inl e \<Rightarrow> Inl e
      | Inr (data, buffers) \<Rightarrow>
          (let t = (if buffers \<noteq> [] then TypeBinaryEvent else TypeEvent);
               p = \<lparr>Type = t, Namespace = namespace, ID = ident, Data = data, Attachments = int (length buffers)\<rparr>
           in case Encode (Some p) of Inl e \<Rightarrow> Inl e | Inr _ \<Rightarrow> Inr (p, buffers)))"

definition BuildAckPacket ::
    "string \<Rightarrow> int option \<Rightarrow> gval list \<Rightarrow> error + packet \<times> string list" where
  "BuildAckPacket namespace ident args =
     (case buildArray args of
        Inl e \<Rightarrow> Inl e
      | Inr (data, buffers) \<Rightarrow>
          (let t = (if buffers \<noteq> [] then TypeBinaryAck else TypeAck);
               p = \<lparr>Type = t, Namespace = namespace, ID = ident, Data = data, Attachments = int (length buffers)\<rparr>
           in case Encode (Some p) of Inl e \<Rightarrow> Inl e | Inr _ \<Rightarrow> Inr (p, buffers)))"

subsection \<open>Reconstruct\<close>

text \<open>What \<open>json.Unmarshal\<close> stores in an \<open>interface{}\<close>, and byte slices put back into it.\<close>

datatype rval =
    RNull
  | RBool bool
  | RNum float64
  | RStr string
  | RArr "rval list"
  | RMap "(string \<times> rval) list"
  | RBytes string

text \<open>Repeated keys of an object: the last one wins. \<open>None\<close> is a number out of range.\<close>

fun to_any :: "json \<Rightarrow> rval option" where
  "to_any JNull = Some RNull"
| "to_any (JBool b) = Some (RBool b)"
| "to_any (JNum l) = map_option RNum (parse_float l)"
| "to_any (JStr s) = Some (RStr s)"
| "to_any (JArr vs) = map_option RArr (sequence (map to_any vs))"
| "to_any (JObj ms) =
     map_option (\<lambda>rs. RMap (foldl (\<lambda>m (k, r). AList.update k r m) [] rs))
       (sequence (map (\<lambda>(k, v). map_option (\<lambda>r. (k, r)) (to_any v)) ms))"

definition unmarshal_any :: "string \<Rightarrow> rval option" where
  "unmarshal_any s = Option.bind (parse s) to_any"

text \<open>
  Running the elements in order; the first failure or panic ends it.
\<close>

fun run_all :: "'a outcome list \<Rightarrow> 'a list outcome" where
  "run_all [] = Return []"
| "run_all (Return x # os) =
     (case run_all os of Return xs \<Rightarrow> Return (x # xs) | Fail e \<Rightarrow> Fail e | GoPanic s \<Rightarrow> GoPanic s)"
| "run_all (Fail e # os) = Fail e"
| "run_all (GoPanic s # os) = GoPanic s"

definition out_map :: "('a \<Rightarrow> 'b) \<Rightarrow> 'a outcome \<Rightarrow> 'b outcome" where
  "out_map f r = (case r of Return x \<Rightarrow> Return (f x) | Fail e \<Rightarrow> Fail e | GoPanic s \<Rightarrow> GoPanic s)"

text \<open>A placeholder: its number must be a float that is not negative and, as an int, below the number of
  buffers. The index expression panics on a negative int, which the conversion can produce.\<close>

definition fill_placeholder :: "rval option \<Rightarrow> string list \<Rightarrow> rval outcome" where
  "fill_placeholder num buffers =
     (case num of
        Some (RNum f) \<Rightarrow>
          if f_less_0 f \<or> float_to_int f \<ge> int (length buffers)
          then Fail (ErrorString ''packet: invalid binary placeholder'')
          else if float_to_int f < 0 then GoPanic ''index out of range''
          else Return (RBytes (buffers ! nat (float_to_int f)))
      | _ \<Rightarrow> Fail (ErrorString ''packet: invalid binary placeholder''))"

fun reconstructValue :: "rval \<Rightarrow> string list \<Rightarrow> rval outcome" where
  "reconstructValue (RArr xs) buffers =
     out_map RArr (run_all (map (\<lambda>x. reconstructValue x buffers) xs))"
| "reconstructValue (RMap m) buffers =
     (if map_of m ''_placeholder'' = Some (RBool True)
      then fill_placeholder (map_of m ''num'') buffers
      else out_map RMap (run_all (map (\<lambda>(k, x). out_map (\<lambda>r. (k, r)) (reconstructValue x buffers)) m)))"
| "reconstructValue v buffers = Return v"

definition Reconstruct :: "string \<Rightarrow> string list \<Rightarrow> rval outcome" where
  "Reconstruct data buffers =
     (case unmarshal_any data of
        None \<Rightarrow> Fail (ErrorString ''json: cannot unmarshal'')
      | Some v \<Rightarrow> reconstructValue v buffers)"

end
