(* ===== verification/Packet_Events.thy ===== *)
theory Packet_Events
  imports Packet_Data
begin

section \<open>packet: what arrives is what was sent\<close>

text \<open>
  Theorems on event payloads and binary attachments. \<open>sendable\<close> describes the Go values that
  survive the trip, \<open>leaves\<close> their byte slices in traversal order and \<open>view\<close> what the receiver
  gets back; the main lemma, \<open>deconstruct_carries\<close>, follows one value through
  \<open>deconstruct\<close>, \<open>json.Marshal\<close>, \<open>json.Unmarshal\<close> and \<open>reconstructValue\<close>.
\<close>

subsection \<open>The receiver's view of a value\<close>

definition visible :: "sfield \<Rightarrow> bool" where
  "visible f \<longleftrightarrow> sf_exported f \<and> tag_name (sf_tag f) \<noteq> ''-''"

definition good_key :: "string \<Rightarrow> bool" where
  "good_key k \<longleftrightarrow> Valid k \<and> k \<noteq> ''_placeholder''"

definition num_ok :: "string \<Rightarrow> bool" where
  "num_ok l \<longleftrightarrow> wf_num l \<and> parse_float l \<noteq> None"

fun sendable :: "gval \<Rightarrow> bool" where
  "sendable (GInt i) = num_ok (Itoa i)"
| "sendable (GFloat l) = num_ok l"
| "sendable (GString s) = Valid s"
| "sendable (GSlice vs) = (case vs of None \<Rightarrow> True | Some vs \<Rightarrow> list_all sendable vs)"
| "sendable (GMap m) = (case m of None \<Rightarrow> True | Some ms \<Rightarrow>
     wf_map ms \<and> list_all (\<lambda>(k, v). (case k of KString s \<Rightarrow> good_key s | KInt _ \<Rightarrow> False) \<and> sendable v) ms)"
| "sendable (GStruct fs) =
     (distinct (map (\<lambda>(f, _). field_name f) (filter (\<lambda>(f, _). visible f) fs)) \<and>
      list_all (\<lambda>(f, v). visible f \<longrightarrow> good_key (field_name f) \<and> sendable v) fs)"
| "sendable (GPtr p) = (case p of None \<Rightarrow> True | Some v \<Rightarrow> sendable v)"
| "sendable GChan = False"
| "sendable _ = True"

fun leaves :: "gval \<Rightarrow> string list" where
  "leaves (GBytes b) = [b]"
| "leaves (GSlice vs) = (case vs of None \<Rightarrow> [] | Some vs \<Rightarrow> concat (map leaves vs))"
| "leaves (GMap m) = (case m of None \<Rightarrow> [] | Some ms \<Rightarrow> concat (map (\<lambda>(k, v). leaves v) ms))"
| "leaves (GStruct fs) = concat (map (\<lambda>(f, v). if visible f then leaves v else []) fs)"
| "leaves (GPtr p) = (case p of None \<Rightarrow> [] | Some v \<Rightarrow> leaves v)"
| "leaves _ = []"

fun view :: "gval \<Rightarrow> rval" where
  "view (GBool b) = RBool b"
| "view (GInt i) = RNum (the (parse_float (Itoa i)))"
| "view (GFloat l) = RNum (the (parse_float l))"
| "view (GString s) = RStr s"
| "view (GBytes b) = RBytes b"
| "view (GSlice vs) = (case vs of None \<Rightarrow> RArr [] | Some vs \<Rightarrow> RArr (map view vs))"
| "view (GMap m) = (case m of None \<Rightarrow> RMap []
     | Some ms \<Rightarrow> RMap (sort_key fst (map (\<lambda>(k, v). (key_string k, view v)) ms)))"
| "view (GStruct fs) =
     RMap (sort_key fst (concat (map (\<lambda>(f, v). if visible f then [(field_name f, view v)] else []) fs)))"
| "view (GPtr p) = (case p of None \<Rightarrow> RNull | Some v \<Rightarrow> view v)"
| "view _ = RNull"

fun gdepth :: "gval \<Rightarrow> nat" where
  "gdepth (GBytes b) = 1"
| "gdepth (GSlice vs) = (case vs of None \<Rightarrow> 1 | Some vs \<Rightarrow> Suc (foldr max (map gdepth vs) 0))"
| "gdepth (GMap m) = (case m of None \<Rightarrow> 1 | Some ms \<Rightarrow> Suc (foldr max (map (\<lambda>(k, v). gdepth v) ms) 0))"
| "gdepth (GStruct fs) = Suc (foldr max (map (\<lambda>(f, v). gdepth v) fs) 0)"
| "gdepth (GPtr p) = (case p of None \<Rightarrow> 0 | Some v \<Rightarrow> gdepth v)"
| "gdepth _ = 0"

subsection \<open>Numbers print as JSON numbers\<close>

lemma num_run_digits: "\<forall>c\<in>set s. is_digit c \<Longrightarrow> num_run N1 s = Some N1"
  by (induction s) auto

lemma digit_char_0: "n < 10 \<Longrightarrow> digit_char n = CHR ''0'' \<Longrightarrow> n = 0"
  by (drule arg_cong [where f = "of_char :: char \<Rightarrow> nat"]) (simp add: digit_char_def)

lemma digits_of_hd: "0 < n \<Longrightarrow> hd (digits_of n) \<noteq> CHR ''0''"
proof (induction n rule: digits_of.induct)
  case (1 n)
  then show ?case by (auto simp: digits_of.simps [of n] dest: digit_char_0)
qed

lemma wf_num_digits: "wf_num (digits_of n)"
proof (cases "n = 0")
  case True
  have "wf_num (digits_of 0)" by code_simp
  then show ?thesis using True by simp
next
  case False
  obtain c r where cr: "digits_of n = c # r" by (cases "digits_of n") auto
  then have "\<forall>x\<in>set (c # r). is_digit x" by (metis digits_of_digits)
  moreover have "c \<noteq> CHR ''0''" using False cr digits_of_hd [of n] by simp
  ultimately show ?thesis by (auto simp: cr wf_num_def num_start_def num_run_digits)
qed

subsection \<open>JSON that carries a value\<close>

text \<open>
  \<open>carries j bufs x\<close>: the document \<open>j\<close>, parsed and reconstructed with the buffers \<open>bufs\<close> (and any
  that follow them), is the value \<open>x\<close>.
\<close>

definition carries :: "json \<Rightarrow> string list \<Rightarrow> rval \<Rightarrow> bool" where
  "carries j bufs x \<longleftrightarrow>
     wf_json j \<and> (\<exists>r. to_any j = Some r \<and> (\<forall>ext. reconstructValue r (bufs @ ext) = Return x))"

lemma carries_append: "carries j bufs x \<Longrightarrow> carries j (bufs @ ext) x"
  by (auto simp: carries_def)

lemma carriesD: "carries j bufs x \<Longrightarrow> \<exists>r. to_any j = Some r \<and> reconstructValue r bufs = Return x"
  unfolding carries_def by (metis append_Nil2)

lemma carries_list:
  "list_all2 (\<lambda>j x. carries j bufs x) js xs \<Longrightarrow>
   list_all wf_json js \<and> (\<exists>rs. sequence (map to_any js) = Some rs \<and>
     (\<forall>ext. run_all (map (\<lambda>r. reconstructValue r (bufs @ ext)) rs) = Return xs))"
proof (induction rule: list_all2_induct)
  case (Cons j js x xs)
  then obtain r rs where "to_any j = Some r" "\<forall>ext. reconstructValue r (bufs @ ext) = Return x"
    "sequence (map to_any js) = Some rs" "\<forall>ext. run_all (map (\<lambda>r. reconstructValue r (bufs @ ext)) rs) = Return xs"
    by (auto simp: carries_def)
  then show ?case using Cons by (auto simp: carries_def intro!: exI [of _ "r # rs"])
qed auto

lemma carries_arr:
  assumes "list_all2 (\<lambda>j x. carries j bufs x) js xs" shows "carries (JArr js) bufs (RArr xs)"
  using carries_list [OF assms] by (auto simp: carries_def out_map_def)

lemma foldl_update_fresh:
  "distinct (keys m @ keys rs) \<Longrightarrow> foldl (\<lambda>m (k, r). AList.update k r m) m rs = m @ rs"
proof (induction rs arbitrary: m)
  case (Cons kr rs)
  obtain k r where kr: "kr = (k, r)" by (cases kr)
  have "AList.update k r m = m @ [(k, r)]"
    using Cons.prems by (intro update_new) (auto simp: kr map_of_eq_None_iff)
  then show ?case using Cons.IH [of "m @ [(k, r)]"] Cons.prems by (simp add: kr)
qed simp

text \<open>The members of an object: the same keys in the same order, and each value carried.\<close>

abbreviation same_members ::
    "('a \<Rightarrow> 'b \<Rightarrow> bool) \<Rightarrow> (string \<times> 'a) list \<Rightarrow> (string \<times> 'b) list \<Rightarrow> bool" where
  "same_members R \<equiv> list_all2 (\<lambda>(k, a) (k', b). k' = k \<and> R a b)"

lemma same_members_keys: "same_members R xs ys \<Longrightarrow> keys ys = keys xs"
  by (induction rule: list_all2_induct) auto

lemma carries_members:
  "same_members (\<lambda>j x. carries j bufs x) js xs \<Longrightarrow>
   list_all (\<lambda>(k, j). wf_json j) js \<and>
   (\<exists>rs. sequence (map (\<lambda>(k, v). map_option (\<lambda>r. (k, r)) (to_any v)) js) = Some rs \<and> keys rs = keys js \<and>
     (\<forall>ext. run_all (map (\<lambda>(k, x). out_map (\<lambda>r. (k, r)) (reconstructValue x (bufs @ ext))) rs) = Return xs))"
proof (induction rule: list_all2_induct)
  case (Cons kj js kx xs)
  obtain k j x where [simp]: "kj = (k, j)" "kx = (k, x)" "carries j bufs x"
    using Cons(1) by (cases kj; cases kx) auto
  then obtain r where r: "to_any j = Some r" "\<forall>ext. reconstructValue r (bufs @ ext) = Return x" "wf_json j"
    by (auto simp: carries_def)
  obtain rs where "sequence (map (\<lambda>(k, v). map_option (\<lambda>r. (k, r)) (to_any v)) js) = Some rs" "keys rs = keys js"
    "\<forall>ext. run_all (map (\<lambda>(k, x). out_map (\<lambda>r. (k, r)) (reconstructValue x (bufs @ ext))) rs) = Return xs"
    using Cons(3) by blast
  with r Cons(3) show ?case by (auto simp: out_map_def intro!: exI [of _ "(k, r) # rs"])
qed auto

lemma carries_obj:
  assumes "same_members (\<lambda>j x. carries j bufs x) js xs" "wf_map js" "list_all (\<lambda>(k, j). good_key k) js"
  shows "carries (JObj js) bufs (RMap xs)"
proof -
  from carries_members [OF assms(1)] obtain rs where
    rs: "sequence (map (\<lambda>(k, v). map_option (\<lambda>r. (k, r)) (to_any v)) js) = Some rs" "keys rs = keys js"
    "\<forall>ext. run_all (map (\<lambda>(k, x). out_map (\<lambda>r. (k, r)) (reconstructValue x (bufs @ ext))) rs) = Return xs"
    and wf: "list_all (\<lambda>(k, j). wf_json j) js" by blast
  have "to_any (JObj js) = Some (RMap rs)"
    using rs(1,2) assms(2) foldl_update_fresh [of "[]" rs] by simp
  moreover have "''_placeholder'' \<notin> set (keys rs)"
    using assms(3) by (auto simp: rs(2) list_all_iff good_key_def)
  then have "map_of rs ''_placeholder'' = None" by (simp add: map_of_eq_None_iff)
  moreover have "wf_json (JObj js)" using wf assms(3) by (auto simp: list_all_iff good_key_def)
  ultimately show ?thesis using rs(3) by (auto simp: carries_def out_map_def)
qed

lemma same_members_insort:
  "same_members R xs ys \<Longrightarrow> R a b \<Longrightarrow> same_members R (insort_key fst (k, a) xs) (insort_key fst (k, b) ys)"
  by (induction rule: list_all2_induct) auto

lemma same_members_sort: "same_members R xs ys \<Longrightarrow> same_members R (sort_key fst xs) (sort_key fst ys)"
  by (induction rule: list_all2_induct) (auto simp: same_members_insort)

text \<open>A placeholder carries the buffer it points to.\<close>

lemma carries_placeholder:
  assumes "length bufs < 2 ^ 53"
  shows "\<exists>j. to_json (placeholder (length bufs)) = Some j \<and> depth j = 1 \<and> carries j (bufs @ [b]) (RBytes b)"
proof -
  let ?j = "JObj [(''_placeholder'', JBool True), (''num'', JNum (Itoa (int (length bufs))))]"
  have s: "''_placeholder'' \<le> ''num''" by code_simp
  then have j: "to_json (placeholder (length bufs)) = Some ?j" by (simp add: placeholder_def key_string_def)
  obtain f where f: "parse_float (Itoa (int (length bufs))) = Some f" "\<not> f_less_0 f" "float_to_int f = int (length bufs)"
    using float_small_nat [OF assms] by blast
  have "wf_json ?j" using wf_num_digits [of "length bufs"] by (simp add: Itoa_def Valid_ascii)
  moreover have "reconstructValue (RMap [(''_placeholder'', RBool True), (''num'', RNum f)]) ((bufs @ [b]) @ ext)
      = Return (RBytes b)" for ext
    using f by (simp add: fill_placeholder_def nth_append)
  ultimately have "carries ?j (bufs @ [b]) (RBytes b)" using f by (auto simp: carries_def)
  with j show ?thesis by auto
qed

subsection \<open>Following a value through deconstruct\<close>

definition ships :: "gval \<Rightarrow> string list \<Rightarrow> bool" where
  "ships v bufs \<longleftrightarrow>
     (\<exists>w j. deconstruct v bufs = (w, bufs @ leaves v) \<and> to_json w = Some j \<and> depth j \<le> gdepth v \<and>
       carries j (bufs @ leaves v) (view v))"

abbreviation fits :: "string list \<Rightarrow> string list \<Rightarrow> bool" where
  "fits bufs new \<equiv> length bufs + length new < 2 ^ 53"

lemma ships_elems:
  assumes "\<forall>v\<in>set vs. \<forall>b. fits b (leaves v) \<longrightarrow> ships v b" "fits bufs (concat (map leaves vs))"
  shows "\<exists>ws js. deconstruct_elems vs bufs = (ws, bufs @ concat (map leaves vs)) \<and>
     sequence (map to_json ws) = Some js \<and> list_all2 (\<lambda>j v. depth j \<le> gdepth v) js vs \<and>
     list_all2 (\<lambda>j x. carries j (bufs @ concat (map leaves vs)) x) js (map view vs)"
  using assms
proof (induction vs arbitrary: bufs)
  case Nil
  then show ?case by (simp add: deconstruct.simps)
next
  case (Cons v vs)
  let ?b = "bufs @ leaves v"
  obtain w j where w: "deconstruct v bufs = (w, ?b)" "to_json w = Some j" "depth j \<le> gdepth v"
    "carries j ?b (view v)"
  proof -
    have "ships v bufs" using Cons.prems by simp
    then show thesis using that by (auto simp: ships_def)
  qed
  obtain ws js where ws: "deconstruct_elems vs ?b = (ws, ?b @ concat (map leaves vs))"
    "sequence (map to_json ws) = Some js" "list_all2 (\<lambda>j v. depth j \<le> gdepth v) js vs"
    "list_all2 (\<lambda>j x. carries j (?b @ concat (map leaves vs)) x) js (map view vs)"
    using Cons.IH [of ?b] Cons.prems by auto
  then show ?case
    using w carries_append [OF w(4), of "concat (map leaves vs)"]
    by (auto simp: deconstruct.simps intro!: exI [of _ "w # ws"] exI [of _ "j # js"])
qed

abbreviation json_entry :: "gkey \<times> gval \<Rightarrow> (string \<times> json) option" where
  "json_entry \<equiv> \<lambda>(k, v). map_option (\<lambda>j. (key_string k, j)) (to_json v)"

abbreviation entry_leaves :: "(gkey \<times> gval) list \<Rightarrow> string list" where
  "entry_leaves ms \<equiv> concat (map (\<lambda>(k, v). leaves v) ms)"

abbreviation view_entry :: "gkey \<times> gval \<Rightarrow> string \<times> rval" where
  "view_entry \<equiv> \<lambda>(k, v). (key_string k, view v)"

definition good_entries :: "(gkey \<times> gval) list \<Rightarrow> bool" where
  "good_entries ms \<longleftrightarrow> list_all (\<lambda>k. case k of KString s \<Rightarrow> good_key s | KInt _ \<Rightarrow> False) (keys ms)"

lemma ships_entries:
  assumes "\<forall>v\<in>snd ` set ms. \<forall>b. fits b (leaves v) \<longrightarrow> ships v b" "fits bufs (entry_leaves ms)"
    and "distinct (keys m @ keys ms)" "good_entries ms"
  shows "\<exists>ws js. deconstruct_entries ms m bufs = (m @ ws, bufs @ entry_leaves ms) \<and>
     sequence (map json_entry ws) = Some js \<and> list_all2 (\<lambda>(_, j) (_, v). depth j \<le> gdepth v) js ms \<and>
     same_members (\<lambda>j x. carries j (bufs @ entry_leaves ms) x) js (map view_entry ms)"
  using assms
proof (induction ms arbitrary: m bufs)
  case Nil
  then show ?case by (simp add: deconstruct.simps)
next
  case (Cons kv ms)
  obtain k v where [simp]: "kv = (KString k, v)"
    using Cons.prems(4) by (cases kv) (auto simp: good_entries_def split: gkey.splits)
  let ?b = "bufs @ leaves v"
  obtain w j where w: "deconstruct v bufs = (w, ?b)" "to_json w = Some j" "depth j \<le> gdepth v"
    "carries j ?b (view v)"
  proof -
    have "ships v bufs" using Cons.prems(1,2) by simp
    then show thesis using that by (auto simp: ships_def)
  qed
  have up: "AList.update (KString k) w m = m @ [(KString k, w)]"
    using Cons.prems(3) by (intro update_new) (auto simp: map_of_eq_None_iff)
  obtain ws js where ws:
    "deconstruct_entries ms (m @ [(KString k, w)]) ?b = ((m @ [(KString k, w)]) @ ws, ?b @ entry_leaves ms)"
    "sequence (map json_entry ws) = Some js" "list_all2 (\<lambda>(_, j) (_, v). depth j \<le> gdepth v) js ms"
    "same_members (\<lambda>j x. carries j (?b @ entry_leaves ms) x) js (map view_entry ms)"
  proof -
    have "fits ?b (entry_leaves ms)" "distinct (keys (m @ [(KString k, w)]) @ keys ms)" "good_entries ms"
      using Cons.prems(2-4) by (auto simp: good_entries_def)
    moreover have "\<forall>v\<in>snd ` set ms. \<forall>b. fits b (leaves v) \<longrightarrow> ships v b" using Cons.prems(1) by simp
    ultimately show thesis using Cons.IH [of ?b "m @ [(KString k, w)]"] that by blast
  qed
  then show ?case
    using w up carries_append [OF w(4), of "entry_leaves ms"]
    by (auto simp: deconstruct.simps key_string_def
        intro!: exI [of _ "(KString k, w) # ws"] exI [of _ "(k, j) # js"])
qed

lemma foldr_max_le: "\<forall>x\<in>set xs. x \<le> n \<Longrightarrow> foldr max xs (0::nat) \<le> n"
  by (induction xs) auto

lemma foldr_max_less: "\<forall>x\<in>set xs. x < n \<Longrightarrow> 0 < n \<Longrightarrow> foldr max xs (0::nat) < n"
  by (induction xs) auto

lemma depth_members:
  assumes "list_all2 (\<lambda>(_, j) (_, v). depth j \<le> gdepth v) js ms" "set js' = set js"
  shows "depth (JObj js') \<le> gdepth (GMap (Some ms))"
proof -
  have "depth j \<le> foldr max (map (\<lambda>(k, v). gdepth v) ms) 0" if kj: "(k, j) \<in> set js" for k j
  proof -
    obtain i where "i < length js" "js ! i = (k, j)" using kj by (auto simp: in_set_conv_nth)
    with assms(1) have "depth j \<le> gdepth (snd (ms ! i))" "ms ! i \<in> set ms"
      by (auto simp: list_all2_conv_all_nth split: prod.splits) (metis snd_conv surj_pair)
    moreover have "gdepth (snd (ms ! i)) \<le> foldr max (map (\<lambda>(k, v). gdepth v) ms) 0"
      using \<open>ms ! i \<in> set ms\<close> by (intro foldr_max_ge) (force simp: case_prod_beta)
    ultimately show ?thesis by simp
  qed
  then show ?thesis using assms(2) by (auto intro!: foldr_max_le)
qed

lemma keys_view_eq: "keys (map view_entry ms) = map key_string (keys ms)"
  by (induction ms) auto

lemma distinct_KString [simp]: "distinct (map KString ks) \<longleftrightarrow> distinct ks"
  by (simp add: distinct_map inj_on_def)

lemma good_entries_keys: "good_entries ms \<Longrightarrow> map KString (map key_string (keys ms)) = keys ms"
  by (induction ms) (auto simp: good_entries_def key_string_def split: gkey.splits)

lemma keys_view: "good_entries ms \<Longrightarrow> wf_map ms \<Longrightarrow> wf_map (map view_entry ms)"
  by (metis distinct_KString good_entries_keys keys_view_eq)

lemma good_entries_good: "good_entries ms \<Longrightarrow> k \<in> set (keys (map view_entry ms)) \<Longrightarrow> good_key k"
  unfolding keys_view_eq good_entries_def list_all_iff key_string_def by (fastforce split: gkey.splits)

lemma ships_map:
  assumes "\<forall>v\<in>snd ` set ms. \<forall>b. fits b (leaves v) \<longrightarrow> ships v b" "fits bufs (entry_leaves ms)"
    and "wf_map ms" "good_entries ms"
  shows "\<exists>w j. deconstruct_entries ms [] bufs = (w, bufs @ entry_leaves ms) \<and> to_json (GMap (Some w)) = Some j \<and>
     depth j \<le> gdepth (GMap (Some ms)) \<and> carries j (bufs @ entry_leaves ms) (view (GMap (Some ms)))"
proof -
  let ?b = "bufs @ entry_leaves ms"
  obtain ws js where ws: "deconstruct_entries ms [] bufs = (ws, ?b)"
     "sequence (map json_entry ws) = Some js" "list_all2 (\<lambda>(_, j) (_, v). depth j \<le> gdepth v) js ms"
     "same_members (\<lambda>j x. carries j ?b x) js (map view_entry ms)"
    using ships_entries [where m = "[]", OF assms(1,2) _ assms(4)] assms(3) by auto
  let ?j = "JObj (sort_key fst js)"
  have kj: "keys js = keys (map view_entry ms)" by (rule same_members_keys [OF ws(4), symmetric])
  then have "\<forall>k\<in>set (keys js). good_key k" using good_entries_good [OF assms(4)] by metis
  then have good: "list_all (\<lambda>(k, j). good_key k) (sort_key fst js)" by (auto simp: list_all_iff)
  have "wf_map js" using keys_view [OF assms(4,3)] unfolding kj .
  then have "wf_map (sort_key fst js)" by (simp add: distinct_map)
  then have "carries ?j ?b (view (GMap (Some ms)))"
    using carries_obj [OF same_members_sort [OF ws(4)]] good by simp
  moreover have "depth ?j \<le> gdepth (GMap (Some ms))" by (rule depth_members [OF ws(3)]) simp
  ultimately show ?thesis using ws(1,2) by auto
qed

text \<open>A struct is sent as the map of its visible fields.\<close>

definition entries_of :: "(sfield \<times> gval) list \<Rightarrow> (gkey \<times> gval) list" where
  "entries_of fs = concat (map (\<lambda>(f, v). if visible f then [(KString (field_name f), v)] else []) fs)"

lemma deconstruct_fields_entries: "deconstruct_fields fs m bufs = deconstruct_entries (entries_of fs) m bufs"
  by (induction fs arbitrary: m bufs) (auto simp: deconstruct.simps entries_of_def visible_def split: prod.splits)

lemma entries_of_keys:
  "keys (entries_of fs) = map KString (map (\<lambda>(f, _). field_name f) (filter (\<lambda>(f, _). visible f) fs))"
  by (induction fs) (auto simp: entries_of_def)

lemma leaves_struct: "leaves (GStruct fs) = entry_leaves (entries_of fs)"
  by (induction fs) (auto simp: entries_of_def)

lemma view_struct: "view (GStruct fs) = view (GMap (Some (entries_of fs)))"
proof -
  have "concat (map (\<lambda>(f, v). if visible f then [(field_name f, view v)] else []) fs) = map view_entry (entries_of fs)"
    by (induction fs) (auto simp: entries_of_def key_string_def)
  then show ?thesis by simp
qed

lemma gdepth_struct: "gdepth (GMap (Some (entries_of fs))) \<le> gdepth (GStruct fs)"
  by (induction fs) (auto simp: entries_of_def)

lemma sendable_struct:
  "sendable (GStruct fs) \<Longrightarrow> wf_map (entries_of fs) \<and> good_entries (entries_of fs)"
proof -
  assume s: "sendable (GStruct fs)"
  then have "good_entries (entries_of fs)"
    by (auto simp: good_entries_def entries_of_def list_all_iff split: if_splits)
  moreover have "wf_map (entries_of fs)" using s unfolding entries_of_keys distinct_KString by simp
  ultimately show ?thesis by simp
qed

lemma deconstruct_ships: "sendable v \<Longrightarrow> fits bufs (leaves v) \<Longrightarrow> ships v bufs"
proof (induction v arbitrary: bufs)
  case (GBytes b)
  then show ?case using carries_placeholder [of bufs b] by (auto simp: ships_def deconstruct.simps)
next
  case (GSlice vs)
  show ?case
  proof (cases vs)
    case None
    then show ?thesis by (auto simp: ships_def deconstruct.simps carries_def out_map_def)
  next
    case (Some us)
    have "\<forall>v\<in>set us. \<forall>b. fits b (leaves v) \<longrightarrow> ships v b"
      using GSlice.IH [of us] GSlice.prems(1) Some by (auto simp: list_all_iff)
    from ships_elems [OF this, of bufs] GSlice.prems(2) Some obtain ws js where
      ws: "deconstruct_elems us bufs = (ws, bufs @ concat (map leaves us))"
      "sequence (map to_json ws) = Some js" "list_all2 (\<lambda>j v. depth j \<le> gdepth v) js us"
      "list_all2 (\<lambda>j x. carries j (bufs @ concat (map leaves us)) x) js (map view us)" by auto
    have "foldr max (map depth js) 0 \<le> foldr max (map gdepth us) 0"
      using ws(3) by (induction rule: list_all2_induct) auto
    then show ?thesis using ws carries_arr [OF ws(4)] Some by (auto simp: ships_def deconstruct.simps)
  qed
next
  case (GMap m)
  show ?case
  proof (cases m)
    case None
    then show ?thesis by (auto simp: ships_def deconstruct.simps carries_def out_map_def)
  next
    case (Some ms)
    have "\<forall>v\<in>snd ` set ms. \<forall>b. fits b (leaves v) \<longrightarrow> ships v b"
      using GMap.IH [of ms] GMap.prems(1) Some by (fastforce simp: list_all_iff)
    moreover have "wf_map ms" "good_entries ms" "fits bufs (entry_leaves ms)"
      using GMap.prems Some by (auto simp: good_entries_def list_all_iff)
    ultimately obtain w j where "deconstruct_entries ms [] bufs = (w, bufs @ entry_leaves ms)"
      "to_json (GMap (Some w)) = Some j" "depth j \<le> gdepth (GMap (Some ms))"
      "carries j (bufs @ entry_leaves ms) (view (GMap (Some ms)))"
      using ships_map [of ms bufs] by blast
    then show ?thesis using Some by (auto simp: ships_def deconstruct.simps simp del: to_json.simps)
  qed
next
  case (GStruct fs)
  let ?ms = "entries_of fs"
  have "\<forall>v\<in>snd ` set ?ms. \<forall>b. fits b (leaves v) \<longrightarrow> ships v b"
    using GStruct by (fastforce simp: entries_of_def list_all_iff split: if_splits)
  moreover have "wf_map ?ms" "good_entries ?ms" using sendable_struct [OF GStruct.prems(1)] by auto
  moreover have "fits bufs (entry_leaves ?ms)" using GStruct.prems(2) unfolding leaves_struct .
  ultimately obtain w j where
    "deconstruct_fields fs [] bufs = (w, bufs @ leaves (GStruct fs))" "to_json (GMap (Some w)) = Some j"
    "depth j \<le> gdepth (GMap (Some ?ms))" "carries j (bufs @ leaves (GStruct fs)) (view (GStruct fs))"
    using ships_map [of ?ms bufs] unfolding deconstruct_fields_entries leaves_struct view_struct by blast
  with gdepth_struct [of fs] show ?case
    by (auto simp: ships_def deconstruct.simps simp del: leaves.simps view.simps gdepth.simps to_json.simps)
next
  case (GPtr p)
  then show ?case
    by (cases p) (auto simp: ships_def deconstruct.simps carries_def)
qed (auto simp: ships_def deconstruct.simps carries_def num_ok_def)

subsection \<open>Packets built from values\<close>

lemma leaves_containsBinary: "leaves v \<noteq> [] \<Longrightarrow> containsBinary v"
proof (induction v)
  case (GSlice vs)
  then show ?case by (cases vs) (auto simp: list_ex_iff)
next
  case (GMap m)
  then show ?case by (cases m) (fastforce simp: list_ex_iff)+
next
  case (GStruct fs)
  then show ?case by (fastforce simp: list_ex_iff visible_def split: if_splits)
next
  case (GPtr p)
  then show ?case by (cases p) auto
qed auto

lemma to_json_slice:
  "to_json (GSlice (Some vs)) = Some j \<longleftrightarrow> (\<exists>js. j = JArr js \<and> list_all2 (\<lambda>v j. to_json v = Some j) vs js)"
proof -
  have "sequence (map to_json vs) = Some js \<longleftrightarrow> list_all2 (\<lambda>v j. to_json v = Some j) vs js" for js
  proof (induction vs arbitrary: js)
    case (Cons v vs)
    then show ?case by (cases js) (auto split: option.splits)
  qed auto
  then show ?thesis by auto
qed

definition built :: "char \<Rightarrow> char \<Rightarrow> string \<Rightarrow> int option \<Rightarrow> string \<Rightarrow> string list \<Rightarrow> packet" where
  "built t b ns ident d bufs =
     \<lparr>Type = (if bufs \<noteq> [] then b else t), Namespace = ns, ID = ident, Data = d, Attachments = int (length bufs)\<rparr>"

lemma Encode_built:
  "(t, b) \<in> {(TypeEvent, TypeBinaryEvent), (TypeAck, TypeBinaryAck)} \<Longrightarrow>
   is_ok (Encode (Some (built t b ns ident d bufs))) \<longleftrightarrow>
   length bufs \<le> 1024 \<and> (\<forall>i. ident = Some i \<longrightarrow> 0 \<le> i) \<and> \<not> ContainsAny (NormalizeNS ns) bad_ns_chars"
  by (cases ident; cases bufs) (auto simp: Encode_ok_iff built_def IsBinary_def Type_Valid_def)

lemma Marshal_binary:
  assumes "sendable v" "leaves v \<noteq> []" "length (leaves v) \<le> 1024" "gdepth v \<le> maxNestingDepth"
  shows "\<exists>j. marshalWithBinary v = Inr (print j, leaves v) \<and> wf_json j \<and> depth j \<le> maxNestingDepth \<and>
     Reconstruct (print j) (leaves v) = Return (view v)"
proof -
  have "ships v []" using assms(3) by (intro deconstruct_ships [OF assms(1)]) simp
  then obtain w j where w: "deconstruct v [] = (w, leaves v)" "to_json w = Some j" "depth j \<le> gdepth v"
    "carries j (leaves v) (view v)" by (auto simp: ships_def)
  from carriesD [OF w(4)] obtain r where "to_any j = Some r" "reconstructValue r (leaves v) = Return (view v)"
    by auto
  moreover have "wf_json j" using w(4) by (simp add: carries_def)
  moreover have "depth j \<le> maxNestingDepth" using w(3) assms(4) by simp
  ultimately have "Reconstruct (print j) (leaves v) = Return (view v)"
    by (simp add: Reconstruct_def unmarshal_any_def parse_print)
  then show ?thesis
    using w \<open>wf_json j\<close> \<open>depth j \<le> maxNestingDepth\<close> leaves_containsBinary [OF assms(2)]
    by (intro exI [of _ j]) (simp add: marshalWithBinary_def Marshal_def)
qed

subsection \<open>Built events on the wire\<close>

lemma to_any_RArr: "to_any j = Some (RArr rs) \<Longrightarrow> \<exists>js. j = JArr js \<and> sequence (map to_any js) = Some rs"
  by (cases j) auto

lemma to_any_RStr: "to_any j = Some (RStr e) \<Longrightarrow> j = JStr e"
  by (cases j) auto

lemma reconstruct_RArr:
  "reconstructValue r bufs = Return (RArr xs) \<Longrightarrow>
   \<exists>rs. r = RArr rs \<and> run_all (map (\<lambda>x. reconstructValue x bufs) rs) = Return xs"
  by (cases r) (auto simp: out_map_def fill_placeholder_def split: outcome.splits option.splits rval.splits if_splits)

lemma reconstruct_RStr: "reconstructValue r bufs = Return (RStr e) \<Longrightarrow> r = RStr e"
  by (cases r) (auto simp: out_map_def fill_placeholder_def split: outcome.splits option.splits rval.splits if_splits)

lemma run_all_Cons: "run_all os = Return (x # xs) \<Longrightarrow> \<exists>os'. os = Return x # os'"
  by (cases os rule: run_all.cases) (auto split: outcome.splits)

lemma sequence_Cons: "sequence os = Some (x # xs) \<Longrightarrow> \<exists>os'. os = Some x # os'"
  by (cases os) (auto split: option.splits)

text \<open>The payload of a binary event: the document is an array that starts with the event name.\<close>

lemma binary_payload:
  assumes j: "wf_json j" "depth j \<le> maxNestingDepth" "Reconstruct (print j) bufs = Return (RArr (RStr event # xs))"
    and e: "Valid event" "event \<noteq> []"
  shows "EventName (print j) = Inr event \<and> (\<exists>a as. unmarshal_raws (print j) = Some (a # as)) \<and>
    json_Valid (print j) \<and> print j \<noteq> []"
proof -
  have parse: "parse (print j) = Some j" by (rule parse_print [OF j(1,2)])
  then obtain r where r: "to_any j = Some r" "reconstructValue r bufs = Return (RArr (RStr event # xs))"
    using j(3) by (auto simp: Reconstruct_def unmarshal_any_def split: option.splits)
  obtain rs where rs: "r = RArr rs" "run_all (map (\<lambda>x. reconstructValue x bufs) rs) = Return (RStr event # xs)"
    using reconstruct_RArr [OF r(2)] by blast
  obtain r1 rs1 where r1: "rs = r1 # rs1" "reconstructValue r1 bufs = Return (RStr event)"
    using run_all_Cons [OF rs(2)] by (cases rs) auto
  obtain js where js: "j = JArr js" "sequence (map to_any js) = Some (RStr event # rs1)"
    using to_any_RArr r(1) rs(1) r1 reconstruct_RStr by blast
  obtain j1 js1 where j1: "js = j1 # js1" "to_any j1 = Some (RStr event)"
    using sequence_Cons [OF js(2)] by (cases js) auto
  have "unmarshal_raws (print j) = Some (print (JStr event) # map print js1)"
    using unmarshal_raws_print [of js] j(1,2) to_any_RStr [OF j1(2)] by (simp add: js(1) j1(1) list_all_iff)
  then have "EventName (print j) = Inr event \<and> (\<exists>a as. unmarshal_raws (print j) = Some (a # as))"
    using unmarshal_string_print [OF e(1)] e(2) by (simp add: EventName_def)
  then show ?thesis using parse by (auto simp: json_Valid_def js(1))
qed

lemma binary_event_packet:
  assumes "Valid event" "event \<noteq> []" "list_all sendable args"
    and "1 \<le> length bufs" "length bufs \<le> 1024" "bufs = concat (map leaves args)"
    and "gdepth (GSlice (Some args)) \<le> maxNestingDepth"
    and "ns_ok ns" "trimmed ns" "case ident of None \<Rightarrow> True | Some i \<Rightarrow> 0 \<le> i \<and> i \<le> max_int64"
  shows "\<exists>p. BuildEventPacket ns event ident args = Inr (p, bufs) \<and> encodable p \<and> Type p = TypeBinaryEvent \<and>
    Namespace p = ns \<and> ID p = ident \<and> Attachments p = int (length bufs) \<and> EventName (Data p) = Inr event \<and>
    Reconstruct (Data p) bufs = Return (RArr (RStr event # map view args))"
proof -
  let ?v = "GSlice (Some (GString event # args))"
  have l: "leaves ?v = bufs" "sendable ?v" "view ?v = RArr (RStr event # map view args)"
    using assms(1,3,6) by simp_all
  have "gdepth ?v \<le> maxNestingDepth" using assms(7) by simp
  then obtain j where j: "marshalWithBinary ?v = Inr (print j, bufs)" "wf_json j" "depth j \<le> maxNestingDepth"
     "Reconstruct (print j) bufs = Return (RArr (RStr event # map view args))"
    using Marshal_binary [of ?v] assms(4,5) unfolding l(1,3) using l(2) by fastforce
  note pay = binary_payload [OF j(2-4) assms(1,2)]
  let ?p = "built TypeEvent TypeBinaryEvent ns ident (print j) bufs"
  have ne: "bufs \<noteq> []" using assms(4) by auto
  have "Validate (Some ?p) = None"
    using pay ne by (auto simp: Validate_def built_def IsBinary_def Type_Valid_def)
  then have enc: "encodable ?p"
    using assms(4,5,8-10) pay ne by (auto simp: encodable_def decodable_def built_def IsBinary_def split: option.splits)
  have "is_ok (Encode (Some ?p))" using Encode_encodable [OF enc] by (simp add: is_ok_iff)
  then have "BuildEventPacket ns event ident args = Inr (?p, bufs)"
    using j(1) by (auto simp: BuildEventPacket_def buildData_def built_def Let_def is_ok_iff)
  then show ?thesis using enc pay j(4) ne by (intro exI [of _ ?p]) (auto simp: built_def)
qed

subsection \<open>Properties\<close>

text \<open>C16. Binary round trip: an event whose arguments hold between 1 and 1024 byte slices (in slices,
  maps, pointers and visible struct fields) is built into a BINARY_EVENT packet with the slices as
  attachments in traversal order, and \<open>Reconstruct\<close> on its payload and these attachments gives back
  the event name and what a receiver sees of every argument, bytes included.\<close>

theorem binary_event_roundtrip:
  assumes "Valid event" "list_all sendable args"
    and "1 \<le> length bufs" "length bufs \<le> 1024" "bufs = concat (map leaves args)"
    and "gdepth (GSlice (Some args)) \<le> maxNestingDepth"
    and "\<not> ContainsAny (NormalizeNS ns) bad_ns_chars" "ident = None \<or> (\<exists>i. ident = Some i \<and> 0 \<le> i)"
  shows "\<exists>data. BuildEventPacket ns event ident args =
      Inr (\<lparr>Type = TypeBinaryEvent, Namespace = ns, ID = ident, Data = data, Attachments = int (length bufs)\<rparr>, bufs) \<and>
    Reconstruct data bufs = Return (RArr (RStr event # map view args))"
proof -
  let ?v = "GSlice (Some (GString event # args))"
  have l: "leaves ?v = bufs" "sendable ?v" "view ?v = RArr (RStr event # map view args)"
    using assms(1,2,5) by simp_all
  have "gdepth ?v \<le> maxNestingDepth" using assms(6) by simp
  then obtain j where j: "marshalWithBinary ?v = Inr (print j, bufs)"
     "Reconstruct (print j) bufs = Return (RArr (RStr event # map view args))"
    using Marshal_binary [of ?v] assms(3,4) unfolding l(1,3) using l(2) by fastforce
  have "is_ok (Encode (Some (built TypeEvent TypeBinaryEvent ns ident (print j) bufs)))"
    using assms(4,7,8) by (subst Encode_built) auto
  moreover have "bufs \<noteq> []" using assms(3) by auto
  ultimately show ?thesis using j
    by (auto simp: BuildEventPacket_def buildData_def built_def Let_def is_ok_iff)
qed

text \<open>A payload built by \<open>BuildEventData\<close> reads back: \<open>EventName\<close> returns the event name and
  \<open>EventArgs\<close> the JSON text of every argument, in order.\<close>

theorem event_data_reads_back:
  assumes "BuildEventData event args = Inr d" "Valid event" "event \<noteq> []"
    and "\<And>v j. v \<in> set args \<Longrightarrow> to_json v = Some j \<Longrightarrow> wf_json j \<and> depth j < maxNestingDepth"
  shows "EventName d = Inr event \<and> (\<exists>bs. EventArgs d = Inr bs \<and> map Inr bs = map Marshal args)"
proof -
  obtain js where js: "list_all2 (\<lambda>v j. to_json v = Some j) args js" "d = print (JArr (JStr event # js))"
    using assms(1) by (auto simp: BuildEventData_def Marshal_def to_json_slice list_all2_Cons1
        simp del: to_json.simps split: option.splits sum.splits) (auto simp: to_json_slice list_all2_Cons1)
  have wf: "wf_json j \<and> depth j < maxNestingDepth" if "j \<in> set js" for j
    using js(1) assms(4) that by (fastforce simp: list_all2_conv_all_nth in_set_conv_nth)
  have "unmarshal_raws d = Some (map print (JStr event # js))" unfolding js(2)
    using assms(2) wf by (intro unmarshal_raws_print)
      (auto simp: list_all_iff Suc_le_eq maxNestingDepth_def intro!: foldr_max_less)
  moreover have "map Inr (map print js) = map Marshal args"
    using js(1) by (induction rule: list_all2_induct) (auto simp: Marshal_def)
  ultimately show ?thesis
    using unmarshal_string_print [OF assms(2)] assms(3) by (auto simp: EventName_def EventArgs_def)
qed

text \<open>C33. What \<open>BuildEventPacket\<close> and \<open>BuildAckPacket\<close> return is consistent: the type is binary exactly
  when buffers came out of the arguments, the attachment count is their number (at most 1024),
  namespace and id are the caller's, and \<open>Encode\<close> accepts the packet.\<close>

theorem built_packet_consistent:
  assumes "BuildEventPacket ns event ident args = Inr (p, bufs) \<or> BuildAckPacket ns ident args = Inr (p, bufs)"
  shows "Attachments p = int (length bufs) \<and> length bufs \<le> 1024 \<and> (IsBinary (Type p) \<longleftrightarrow> bufs \<noteq> []) \<and>
    Namespace p = ns \<and> ID p = ident \<and> is_ok (Encode (Some p))"
proof -
  from assms obtain t b d where "(t, b) \<in> {(TypeEvent, TypeBinaryEvent), (TypeAck, TypeBinaryAck)}"
    "p = built t b ns ident d bufs" "is_ok (Encode (Some p))"
    by (elim disjE; auto simp: BuildEventPacket_def BuildAckPacket_def built_def Let_def is_ok_iff
        split: sum.splits prod.splits)
  then show ?thesis using Encode_built [of t b ns ident d bufs] by (auto simp: built_def IsBinary_def)
qed

text \<open>An acknowledgement without arguments is built with the payload \<open>null\<close> by \<open>BuildAckPacket\<close>
  (the nil variadic slice is marshalled as it is), where \<open>BuildAckData\<close> gives \<open>[]\<close>; the packet
  carries no attachment and both payloads pass \<open>Validate\<close>.\<close>

theorem ack_without_arguments:
  "BuildAckPacket ''/'' (Some 7) [] =
     Inr (\<lparr>Type = TypeAck, Namespace = ''/'', ID = Some 7, Data = ''null'', Attachments = 0\<rparr>, []) \<and>
   BuildAckData [] = Inr ''[]'' \<and>
   Validate (Some \<lparr>Type = TypeAck, Namespace = ''/'', ID = Some 7, Data = ''null'', Attachments = 0\<rparr>) = None \<and>
   Validate (Some \<lparr>Type = TypeAck, Namespace = ''/'', ID = Some 7, Data = ''[]'', Attachments = 0\<rparr>) = None"
proof (intro conjI)
  show "BuildAckPacket ''/'' (Some 7) [] =
     Inr (\<lparr>Type = TypeAck, Namespace = ''/'', ID = Some 7, Data = ''null'', Attachments = 0\<rparr>, [])"
    by code_simp
  show "BuildAckData [] = Inr ''[]''" by (simp add: BuildAckData_def)
  show "Validate (Some \<lparr>Type = TypeAck, Namespace = ''/'', ID = Some 7, Data = ''null'', Attachments = 0\<rparr>) = None"
    "Validate (Some \<lparr>Type = TypeAck, Namespace = ''/'', ID = Some 7, Data = ''[]'', Attachments = 0\<rparr>) = None"
    by code_simp+
qed

text \<open>A map entry with an integer key is sent when no byte slice is near, and silently left out as
  soon as the arguments hold one: \<open>deconstruct\<close> skips every key that is not a string.\<close>

theorem int_key_dropped:
  "marshalWithBinary (GSlice (Some [GMap (Some [(KInt i, v)])])) =
     (if containsBinary v then Inr (''[{}]'', [])
      else case Marshal (GSlice (Some [GMap (Some [(KInt i, v)])])) of Inl e \<Rightarrow> Inl e | Inr s \<Rightarrow> Inr (s, [])) \<and>
   fst (deconstruct (GSlice (Some [GMap (Some [(KInt i, v)]), GBytes b])) []) =
     GSlice (Some [GMap (Some []), placeholder 0])"
  by (simp add: marshalWithBinary_def deconstruct.simps Marshal_def)

subsection \<open>Reconstruct and the buffer index\<close>

fun floats :: "rval \<Rightarrow> float64 list" where
  "floats (RNum f) = [f]"
| "floats (RArr xs) = concat (map floats xs)"
| "floats (RMap m) = concat (map (\<lambda>(k, x). floats x) m)"
| "floats _ = []"

lemma run_all_panic: "run_all os = GoPanic s \<Longrightarrow> GoPanic s \<in> set os"
  by (induction os rule: run_all.induct) (auto split: outcome.splits)

lemma out_map_panic: "out_map f r = GoPanic s \<longleftrightarrow> r = GoPanic s"
  by (cases r) (auto simp: out_map_def)

lemma fill_placeholder_panic:
  "fill_placeholder num buffers = GoPanic s \<Longrightarrow> \<exists>f. num = Some (RNum f) \<and> \<not> f_less_0 f \<and> float_to_int f < 0"
  by (auto simp: fill_placeholder_def split: option.splits rval.splits if_splits)

lemma reconstructValue_panic:
  "reconstructValue v buffers = GoPanic s \<Longrightarrow> \<exists>f\<in>set (floats v). \<not> f_less_0 f \<and> float_to_int f < 0"
proof (induction v buffers rule: reconstructValue.induct)
  case (1 xs buffers)
  then show ?case by (fastforce simp: out_map_panic dest!: run_all_panic)
next
  case (2 m buffers)
  show ?case
  proof (cases "map_of m ''_placeholder'' = Some (RBool True)")
    case True
    then obtain f where "map_of m ''num'' = Some (RNum f)" "\<not> f_less_0 f" "float_to_int f < 0"
      using "2.prems" fill_placeholder_panic [of "map_of m ''num''" buffers s] by auto
    moreover from this have "(''num'', RNum f) \<in> set m" by (metis map_of_SomeD)
    ultimately show ?thesis by force
  next
    case False
    then have "run_all (map (\<lambda>(k, x). out_map (\<lambda>r. (k, r)) (reconstructValue x buffers)) m) = GoPanic s"
      using "2.prems" by (simp add: out_map_panic)
    then have "\<exists>(k, x)\<in>set m. out_map (\<lambda>r. (k, r)) (reconstructValue x buffers) = GoPanic s"
      by (fastforce dest!: run_all_panic)
    then obtain k x where "(k, x) \<in> set m" "reconstructValue x buffers = GoPanic s"
      by (auto simp: out_map_panic)
    then show ?thesis using "2.IH" False by fastforce
  qed
qed simp_all


text \<open>The conversion is not safe: a payload with the placeholder number 1e19 passes the range check
  (the conversion yields the smallest int) and the index expression panics, whatever buffers came.\<close>

theorem reconstruct_panics:
  "Reconstruct ([CHR ''{''] @ quote ''_placeholder'' @ '':true,'' @ quote ''num'' @ '':1e19}'') buffers =
   GoPanic ''index out of range''"
proof -
  let ?d = "[CHR ''{''] @ quote ''_placeholder'' @ '':true,'' @ quote ''num'' @ '':1e19}''"
  have "parse ?d = Some (JObj [(''_placeholder'', JBool True), (''num'', JNum ''1e19'')])" by code_simp
  moreover have "parse_float ''1e19'' = nearest False 10000000000000000000 1"
  proof -
    have "digits_val ''19'' = 19" "digits_val ''1'' = 1" "is_digit CHR ''1''" "\<not> is_digit CHR ''e''" by code_simp+
    then show ?thesis by (simp add: parse_float_def exp_part_def Let_def)
  qed
  moreover have "nearest False 10000000000000000000 1 = Some (Float64 False 4882812500000000 11)"
  proof -
    have "nbits 10000000000000000000 = 64" by (simp add: nbits_pos)
    then show ?thesis by (simp add: nearest_def Let_def pow2_def round_div_def)
  qed
  ultimately have "unmarshal_any ?d =
      Some (RMap [(''_placeholder'', RBool True), (''num'', RNum (Float64 False 4882812500000000 11))])"
    unfolding unmarshal_any_def by simp
  moreover have "float_to_int (Float64 False 4882812500000000 11) = min_int64"
    by (simp add: float_to_int_def f_trunc_def pow2_def min_int64_def max_int64_def)
  ultimately show ?thesis
    unfolding Reconstruct_def by (simp add: fill_placeholder_def f_less_0_def min_int64_def)
qed

subsection \<open>Witnesses\<close>

text \<open>An image event: a struct with a byte slice behind a pointer, and a map.\<close>

definition image_args :: "gval list" where
  "image_args =
     [GStruct [(SField True ''Name'' ''name'', GString ''a.png''), (SField False ''size'' [], GInt 3),
               (SField True ''Body'' ''body,omitempty'', GPtr (Some (GBytes [CHR 0x89, CHR 0x50, CHR 0x00])))],
      GMap (Some [(KString ''z'', GBytes ''x''), (KString ''a'', GBool True)])]"

lemma image_args_leaves: "concat (map leaves image_args) = [[CHR 0x89, CHR 0x50, CHR 0x00], ''x'']"
  by code_simp

lemma image_args_sendable: "list_all sendable image_args" "Valid ''image''"
  by code_simp+

lemma image_args_depth: "gdepth (GSlice (Some image_args)) = 3"
  by code_simp

theorem binary_event_roundtrip_witness:
  "\<exists>data. BuildEventPacket ''/'' ''image'' (Some 1) image_args =
      Inr (\<lparr>Type = TypeBinaryEvent, Namespace = ''/'', ID = Some 1, Data = data, Attachments = 2\<rparr>,
           [[CHR 0x89, CHR 0x50, CHR 0x00], ''x'']) \<and>
    Reconstruct data [[CHR 0x89, CHR 0x50, CHR 0x00], ''x''] =
      Return (RArr [RStr ''image'', RMap [(''body'', RBytes [CHR 0x89, CHR 0x50, CHR 0x00]), (''name'', RStr ''a.png'')],
        RMap [(''a'', RBool True), (''z'', RBytes ''x'')]])"
proof -
  have "map view image_args = [RMap [(''body'', RBytes [CHR 0x89, CHR 0x50, CHR 0x00]), (''name'', RStr ''a.png'')],
        RMap [(''a'', RBool True), (''z'', RBytes ''x'')]]" by code_simp
  moreover have "\<not> ContainsAny (NormalizeNS ''/'') bad_ns_chars" by code_simp
  moreover have "gdepth (GSlice (Some image_args)) \<le> maxNestingDepth"
    unfolding image_args_depth maxNestingDepth_def by simp
  ultimately show ?thesis
    using binary_event_roundtrip [OF image_args_sendable(2,1) _ _ image_args_leaves [symmetric], of "''/''" "Some 1"]
    by simp
qed

theorem event_data_reads_back_witness:
  "\<exists>d. BuildEventData ''move'' [GInt 4, GNil] = Inr d \<and> EventName d = Inr ''move'' \<and> EventArgs d = Inr [''4'', ''null'']"
proof -
  obtain d where d: "BuildEventData ''move'' [GInt 4, GNil] = Inr d"
    by (simp add: BuildEventData_def Marshal_def)
  have "wf_num (Itoa 4)" "Valid ''move''" "print (JNum (Itoa 4)) = ''4''" by code_simp+
  then have "EventName d = Inr ''move'' \<and> (\<exists>bs. EventArgs d = Inr bs \<and> map Inr bs = map Marshal [GInt 4, GNil])"
    by (intro event_data_reads_back [OF d]) (auto simp: maxNestingDepth_def)
  then show ?thesis using d \<open>print (JNum (Itoa 4)) = ''4''\<close> by (auto simp: Marshal_def)
qed

theorem built_packet_consistent_witness:
  "\<exists>p bufs. BuildAckPacket ''/x'' (Some 3) [GBytes ''b''] = Inr (p, bufs) \<and> is_ok (Encode (Some p)) \<and>
     IsBinary (Type p) \<and> Attachments p = 1"
proof -
  have "map_sum id snd (BuildAckPacket ''/x'' (Some 3) [GBytes ''b'']) = Inr [''b'']" by code_simp
  then obtain p where p: "BuildAckPacket ''/x'' (Some 3) [GBytes ''b''] = Inr (p, [''b''])"
    by (cases "BuildAckPacket ''/x'' (Some 3) [GBytes ''b'']") auto
  from built_packet_consistent [OF disjI2 [OF p]] show ?thesis using p by auto
qed


end
