(* ===== verification/Rooms.thy ===== *)
theory Rooms
  imports Prelude
begin

section \<open>rooms: named rooms and broadcast\<close>

text \<open>
  The model of \<open>rooms/rooms.go\<close>. A room is an object on a heap (the list index is its address),
  because the manager hands its pointer out of the critical section in \<open>Join\<close>, \<open>InRoom\<close>, \<open>Len\<close>
  and \<open>Members\<close>; the manager maps names to addresses. One critical section is one definition:
  \<open>Join\<close> is \<open>Join_lookup\<close> followed by \<open>room_add\<close>, and what happens when another operation runs
  between the two is a theorem below. A \<open>Member\<close> is an ID and the object behind the interface; its
  \<open>Emit\<close> is a parameter that acts on a state of the caller's. \<open>occupants\<close> is the abstraction, the
  locale \<open>membership\<close> the contract the manager's clients rely on.
\<close>

subsection \<open>Members and rooms\<close>

datatype 'c member = Member (member_ID: string) (impl: 'c)

record 'c room =
  members :: "(string \<times> 'c member) list"

definition newRoom :: "'c room" where
  "newRoom = \<lparr>members = []\<rparr>"

definition add :: "'c member \<Rightarrow> 'c room \<Rightarrow> bool \<times> 'c room" where
  "add m r =
     (case map_of (members r) (member_ID m) of
        Some _ \<Rightarrow> (False, r)
      | None \<Rightarrow> (True, r\<lparr>members := AList.update (member_ID m) m (members r)\<rparr>))"

definition remove :: "'c member \<Rightarrow> 'c room \<Rightarrow> bool \<times> 'c room" where
  "remove m r =
     (case map_of (members r) (member_ID m) of
        None \<Rightarrow> (False, r)
      | Some _ \<Rightarrow> (True, r\<lparr>members := AList.delete (member_ID m) (members r)\<rparr>))"

definition has :: "string \<Rightarrow> 'c room \<Rightarrow> bool" where
  "has i r \<longleftrightarrow> map_of (members r) i \<noteq> None"

definition room_len :: "'c room \<Rightarrow> nat" where
  "room_len r = length (members r)"

definition snapshot :: "'c room \<Rightarrow> 'c member list" where
  "snapshot r = map snd (members r)"

subsection \<open>The manager\<close>

record 'c manager =
  heap :: "'c room list"
  rooms :: "(string \<times> nat) list"

definition New :: "'c manager" where
  "New = \<lparr>heap = [], rooms = []\<rparr>"

definition Join_lookup :: "string \<Rightarrow> 'c manager \<Rightarrow> nat \<times> 'c manager" where
  "Join_lookup roomName mg =
     (case map_of (rooms mg) roomName of
        Some a \<Rightarrow> (a, mg)
      | None \<Rightarrow>
          (let a = length (heap mg)
           in (a, mg\<lparr>heap := heap mg @ [newRoom], rooms := AList.update roomName a (rooms mg)\<rparr>)))"

definition room_add :: "nat \<Rightarrow> 'c member \<Rightarrow> 'c manager \<Rightarrow> bool \<times> 'c manager" where
  "room_add a m mg =
     (let (ok, r) = add m (heap mg ! a) in (ok, mg\<lparr>heap := (heap mg)[a := r]\<rparr>))"

definition Join :: "string \<Rightarrow> 'c member \<Rightarrow> 'c manager \<Rightarrow> bool \<times> 'c manager" where
  "Join roomName m mg = (let (a, mg) = Join_lookup roomName mg in room_add a m mg)"

text \<open>The body shared by \<open>Leave\<close> and the loop of \<open>LeaveAll\<close>: remove, then drop an empty room.\<close>

definition leave_room :: "'c member \<Rightarrow> string \<times> nat \<Rightarrow> 'c manager \<Rightarrow> bool \<times> 'c manager" where
  "leave_room m na mg =
     (case na of (name, a) \<Rightarrow>
       let (removed, r) = remove m (heap mg ! a);
           mg = mg\<lparr>heap := (heap mg)[a := r]\<rparr>
       in (removed, if room_len r = 0 then mg\<lparr>rooms := AList.delete name (rooms mg)\<rparr> else mg))"

definition Leave :: "string \<Rightarrow> 'c member \<Rightarrow> 'c manager \<Rightarrow> bool \<times> 'c manager" where
  "Leave roomName m mg =
     (case map_of (rooms mg) roomName of
        None \<Rightarrow> (False, mg)
      | Some a \<Rightarrow> leave_room m (roomName, a) mg)"

definition LeaveAll :: "'c member \<Rightarrow> 'c manager \<Rightarrow> 'c manager" where
  "LeaveAll m mg = fold (\<lambda>na mg. snd (leave_room m na mg)) (rooms mg) mg"

definition InRoom :: "string \<Rightarrow> 'c member \<Rightarrow> 'c manager \<Rightarrow> bool" where
  "InRoom roomName m mg =
     (case map_of (rooms mg) roomName of None \<Rightarrow> False | Some a \<Rightarrow> has (member_ID m) (heap mg ! a))"

definition Len :: "string \<Rightarrow> 'c manager \<Rightarrow> nat" where
  "Len roomName mg =
     (case map_of (rooms mg) roomName of None \<Rightarrow> 0 | Some a \<Rightarrow> room_len (heap mg ! a))"

definition Names :: "'c manager \<Rightarrow> string list" where
  "Names mg = keys (rooms mg)"

definition Members :: "string \<Rightarrow> 'c manager \<Rightarrow> 'c member list" where
  "Members roomName mg =
     (case map_of (rooms mg) roomName of None \<Rightarrow> [] | Some a \<Rightarrow> snapshot (heap mg ! a))"

definition ForEach :: "string \<Rightarrow> ('c member \<Rightarrow> 's \<Rightarrow> 's) \<Rightarrow> 'c manager \<Rightarrow> 's \<Rightarrow> 's" where
  "ForEach roomName fn mg w = fold fn (Members roomName mg) w"

definition Clear :: "string \<Rightarrow> 'c manager \<Rightarrow> 'c manager" where
  "Clear roomName mg = mg\<lparr>rooms := AList.delete roomName (rooms mg)\<rparr>"

subsection \<open>Broadcast\<close>

text \<open>\<open>Emit\<close> of the interface: it acts on the caller's state and may fail; the error is ignored.\<close>

type_synonym ('c, 'a, 's) emitter = "'c member \<Rightarrow> string \<Rightarrow> 'a list \<Rightarrow> 's \<Rightarrow> error option \<times> 's"

definition Send ::
    "('c, 'a, 's) emitter \<Rightarrow> string \<Rightarrow> string \<Rightarrow> string set \<Rightarrow> 'a list \<Rightarrow> 'c manager \<Rightarrow> 's \<Rightarrow> 's" where
  "Send emit roomName event skipIDs args mg w =
     fold (\<lambda>m w. if member_ID m \<in> skipIDs then w else snd (emit m event args w)) (Members roomName mg) w"

definition send_unseen ::
    "('c, 'a, 's) emitter \<Rightarrow> string \<Rightarrow> 'a list \<Rightarrow> 'c member \<Rightarrow> string list \<times> 's \<Rightarrow> string list \<times> 's" where
  "send_unseen emit event args m sw =
     (case sw of (seen, w) \<Rightarrow>
        if member_ID m \<in> set seen then (seen, w)
        else (member_ID m # seen, snd (emit m event args w)))"

definition SendAll :: "('c, 'a, 's) emitter \<Rightarrow> string \<Rightarrow> 'a list \<Rightarrow> 'c manager \<Rightarrow> 's \<Rightarrow> 's" where
  "SendAll emit event args mg w =
     snd (fold (\<lambda>a. fold (send_unseen emit event args) (snapshot (heap mg ! a))) (map snd (rooms mg)) ([], w))"

subsection \<open>Abstraction and invariant\<close>

definition occupants :: "'c manager \<Rightarrow> string \<Rightarrow> string \<Rightarrow> 'c member option" where
  "occupants mg r =
     (case map_of (rooms mg) r of None \<Rightarrow> Map.empty | Some a \<Rightarrow> map_of (members (heap mg ! a)))"

text \<open>A room: one entry per ID, filed under the ID of the member it holds.\<close>

definition wf_room :: "'c room \<Rightarrow> bool" where
  "wf_room r \<longleftrightarrow> wf_map (members r) \<and> (\<forall>(i, m)\<in>set (members r). member_ID m = i)"

definition manager_ok :: "'c manager \<Rightarrow> bool" where
  "manager_ok mg \<longleftrightarrow>
     wf_map (rooms mg) \<and> distinct (map snd (rooms mg)) \<and>
     (\<forall>(n, a)\<in>set (rooms mg). a < length (heap mg) \<and> wf_room (heap mg ! a) \<and> members (heap mg ! a) \<noteq> [])"

lemma manager_ok_New: "manager_ok New"
  by (simp add: manager_ok_def New_def)

lemma wf_at:
  assumes "manager_ok mg" "map_of (rooms mg) n = Some a"
  shows "a < length (heap mg)" "wf_room (heap mg ! a)" "members (heap mg ! a) \<noteq> []" "(n, a) \<in> set (rooms mg)"
  using assms by (auto simp: manager_ok_def dest: map_of_SomeD)

text \<open>No two names share a room object.\<close>

lemma wf_inj:
  assumes "manager_ok mg" "(n, a) \<in> set (rooms mg)" "(n', a) \<in> set (rooms mg)" shows "n = n'"
  using assms by (fastforce simp: manager_ok_def distinct_map inj_on_def)

subsection \<open>Operations of one room\<close>

lemma add_room:
  "wf_room r \<Longrightarrow> wf_room (snd (add m r)) \<and> members (snd (add m r)) \<noteq> [] \<and>
   (fst (add m r) \<longleftrightarrow> map_of (members r) (member_ID m) = None) \<and>
   map_of (members (snd (add m r))) =
     (if map_of (members r) (member_ID m) = None then (map_of (members r))(member_ID m \<mapsto> m) else map_of (members r))"
proof (cases "map_of (members r) (member_ID m)")
  case None
  let ?ms = "members r @ [(member_ID m, m)]"
  have u: "AList.update (member_ID m) m (members r) = ?ms" by (rule update_new [OF None])
  have "map_of ?ms = (map_of (members r))(member_ID m \<mapsto> m)" by (simp flip: u)
  moreover assume "wf_room r"
  then have "wf_room (r\<lparr>members := ?ms\<rparr>)" using None by (auto simp: wf_room_def map_of_eq_None_iff)
  ultimately show ?thesis using None by (simp add: add_def u)
qed (auto simp: add_def)

lemma remove_room:
  "wf_room r \<Longrightarrow> wf_room (snd (remove m r)) \<and>
   (fst (remove m r) \<longleftrightarrow> map_of (members r) (member_ID m) \<noteq> None) \<and>
   map_of (members (snd (remove m r))) = (map_of (members r))(member_ID m := None)"
  by (auto simp: remove_def wf_room_def set_delete split: option.splits)

lemma remove_empty: "members r = [] \<longleftrightarrow> map_of (members r) = Map.empty"
  by simp

subsection \<open>Replacing one room of a manager\<close>

text \<open>Writing back a well-formed, non-empty room; and dropping a name.\<close>

lemma put_room:
  assumes "manager_ok mg" "map_of (rooms mg) n = Some a" "wf_room r" "members r \<noteq> []"
  shows "manager_ok (mg\<lparr>heap := (heap mg)[a := r]\<rparr>) \<and>
    occupants (mg\<lparr>heap := (heap mg)[a := r]\<rparr>) = (occupants mg)(n := map_of (members r))"
proof -
  have o: "n' = n" if "map_of (rooms mg) n' = Some a" for n'
    using wf_inj [OF assms(1)] that assms(2) by (metis map_of_SomeD)
  have "manager_ok (mg\<lparr>heap := (heap mg)[a := r]\<rparr>)"
    using assms(1,3,4) by (auto simp: manager_ok_def nth_update)
  moreover have "occupants (mg\<lparr>heap := (heap mg)[a := r]\<rparr>) = (occupants mg)(n := map_of (members r))"
  proof (rule ext)
    fix n' show "occupants (mg\<lparr>heap := (heap mg)[a := r]\<rparr>) n' = ((occupants mg)(n := map_of (members r))) n'"
    proof (cases "map_of (rooms mg) n'")
      case None
      then show ?thesis using assms(2) by (auto simp: occupants_def)
    next
      case (Some a')
      then show ?thesis using wf_at(1) [OF assms(1,2)] assms(2) o [of n']
        by (cases "a' = a") (auto simp: occupants_def nth_update)
    qed
  qed
  ultimately show ?thesis by simp
qed

lemma drop_room:
  assumes "manager_ok mg" "map_of (rooms mg) n = Some a"
  shows "manager_ok (mg\<lparr>heap := (heap mg)[a := r], rooms := AList.delete n (rooms mg)\<rparr>) \<and>
    occupants (mg\<lparr>heap := (heap mg)[a := r], rooms := AList.delete n (rooms mg)\<rparr>) = (occupants mg)(n := Map.empty)"
proof -
  have o: "a' \<noteq> a" if "(n', a') \<in> set (rooms mg)" "n' \<noteq> n" for n' a'
    using wf_inj [OF assms(1)] that wf_at(4) [OF assms] by blast
  have d: "distinct (map snd (AList.delete n (rooms mg)))"
    using assms(1) by (simp add: manager_ok_def AList.delete_eq distinct_map_filter)
  have "manager_ok (mg\<lparr>heap := (heap mg)[a := r], rooms := AList.delete n (rooms mg)\<rparr>)"
    using assms(1) d o by (auto simp: manager_ok_def set_delete nth_update)
  moreover have "occupants (mg\<lparr>heap := (heap mg)[a := r], rooms := AList.delete n (rooms mg)\<rparr>) = (occupants mg)(n := Map.empty)"
  proof (rule ext)
    fix n' show "occupants (mg\<lparr>heap := (heap mg)[a := r], rooms := AList.delete n (rooms mg)\<rparr>) n' =
        ((occupants mg)(n := Map.empty)) n'"
      using o [OF map_of_SomeD]
      by (cases "map_of (rooms mg) n'"; cases "n' = n") (auto simp: occupants_def nth_update)
  qed
  ultimately show ?thesis by simp
qed

subsection \<open>What the operations do to the occupants\<close>

lemma Join_occupants:
  assumes "manager_ok mg"
  shows "manager_ok (snd (Join r m mg)) \<and> (fst (Join r m mg) \<longleftrightarrow> occupants mg r (member_ID m) = None) \<and>
    occupants (snd (Join r m mg)) =
      (if occupants mg r (member_ID m) = None
       then (occupants mg)(r := (occupants mg r)(member_ID m \<mapsto> m)) else occupants mg)"
proof (cases "map_of (rooms mg) r")
  case (Some a)
  let ?r = "snd (add m (heap mg ! a))"
  have a: "wf_room ?r" "members ?r \<noteq> []" using add_room [OF wf_at(2) [OF assms Some], of m] by auto
  have "Join r m mg = (fst (add m (heap mg ! a)), mg\<lparr>heap := (heap mg)[a := ?r]\<rparr>)"
    using Some by (simp add: Join_def Join_lookup_def room_add_def split: prod.splits)
  moreover have "occupants mg r = map_of (members (heap mg ! a))" using Some by (simp add: occupants_def)
  ultimately show ?thesis
    using put_room [OF assms Some a] add_room [OF wf_at(2) [OF assms Some], of m] by auto
next
  case None
  let ?a = "length (heap mg)"
  let ?r = "\<lparr>members = [(member_ID m, m)]\<rparr> :: 'a room"
  have j: "Join r m mg = (True, mg\<lparr>heap := heap mg @ [?r], rooms := rooms mg @ [(r, ?a)]\<rparr>)"
    using None by (simp add: Join_def Join_lookup_def room_add_def add_def newRoom_def Let_def update_new)
  have lt: "a < ?a" if "(n, a) \<in> set (rooms mg)" for n a using assms that by (auto simp: manager_ok_def)
  have "manager_ok (snd (Join r m mg))"
    using assms None lt unfolding j
    by (auto simp: manager_ok_def wf_room_def nth_append map_of_eq_None_iff)
  moreover have "occupants (snd (Join r m mg)) = (occupants mg)(r := [member_ID m \<mapsto> m])"
  proof (rule ext)
    fix n' show "occupants (snd (Join r m mg)) n' = ((occupants mg)(r := [member_ID m \<mapsto> m])) n'"
      using None lt [OF map_of_SomeD] unfolding j
      by (cases "map_of (rooms mg) n'"; cases "n' = r") (auto simp: occupants_def nth_append map_add_def)
  qed
  moreover have "occupants mg r = Map.empty" using None by (simp add: occupants_def)
  ultimately show ?thesis using j by auto
qed

lemma leave_room_occupants:
  assumes "manager_ok mg" "map_of (rooms mg) r = Some a"
  shows "manager_ok (snd (leave_room m (r, a) mg)) \<and> (fst (leave_room m (r, a) mg) \<longleftrightarrow> occupants mg r (member_ID m) \<noteq> None) \<and>
    occupants (snd (leave_room m (r, a) mg)) = (occupants mg)(r := (occupants mg r)(member_ID m := None)) \<and>
    {e \<in> set (rooms mg). fst e \<noteq> r} \<subseteq> set (rooms (snd (leave_room m (r, a) mg)))"
proof -
  let ?r = "snd (remove m (heap mg ! a))"
  note rm = remove_room [OF wf_at(2) [OF assms], of m]
  have o: "occupants mg r = map_of (members (heap mg ! a))" using assms(2) by (simp add: occupants_def)
  have keep: "{e \<in> set (rooms mg). fst e \<noteq> r} \<subseteq> set (AList.delete r (rooms mg))"
    using assms(1) by (auto simp: manager_ok_def set_delete)
  show ?thesis
  proof (cases "members ?r = []")
    case True
    then have "leave_room m (r, a) mg = (fst (remove m (heap mg ! a)),
        mg\<lparr>heap := (heap mg)[a := ?r], rooms := AList.delete r (rooms mg)\<rparr>)"
      by (cases "remove m (heap mg ! a)") (simp add: leave_room_def room_len_def)
    then show ?thesis using drop_room [OF assms] rm True o keep by auto
  next
    case False
    then have "leave_room m (r, a) mg = (fst (remove m (heap mg ! a)), mg\<lparr>heap := (heap mg)[a := ?r]\<rparr>)"
      by (cases "remove m (heap mg ! a)") (simp add: leave_room_def room_len_def)
    then show ?thesis using put_room [OF assms _ False] rm o by auto
  qed
qed

lemma Leave_occupants:
  assumes "manager_ok mg"
  shows "manager_ok (snd (Leave r m mg)) \<and> (fst (Leave r m mg) \<longleftrightarrow> occupants mg r (member_ID m) \<noteq> None) \<and>
    occupants (snd (Leave r m mg)) = (occupants mg)(r := (occupants mg r)(member_ID m := None))"
proof (cases "map_of (rooms mg) r")
  case None
  then have "occupants mg r = Map.empty" by (simp add: occupants_def)
  then show ?thesis using None assms by (simp add: Leave_def) (simp add: fun_eq_iff)
next
  case (Some a)
  then show ?thesis using leave_room_occupants [OF assms Some, of m] by (simp add: Leave_def)
qed

lemma leave_fold_occupants:
  "manager_ok mg \<Longrightarrow> set es \<subseteq> set (rooms mg) \<Longrightarrow> wf_map es \<Longrightarrow>
   manager_ok (fold (\<lambda>na mg. snd (leave_room m na mg)) es mg) \<and>
   occupants (fold (\<lambda>na mg. snd (leave_room m na mg)) es mg) =
     (\<lambda>r i. if r \<in> set (keys es) \<and> i = member_ID m then None else occupants mg r i)"
proof (induction es arbitrary: mg)
  case (Cons e es)
  obtain r a where [simp]: "e = (r, a)" by (cases e)
  have "map_of (rooms mg) r = Some a" using Cons.prems by (simp add: manager_ok_def)
  note lo = leave_room_occupants [OF Cons.prems(1) this, of m]
  have "set es \<subseteq> set (rooms (snd (leave_room m (r, a) mg)))"
  proof
    fix x assume "x \<in> set es"
    then have "x \<in> {e \<in> set (rooms mg). fst e \<noteq> r}" using Cons.prems(2,3) by auto
    then show "x \<in> set (rooms (snd (leave_room m (r, a) mg)))" using lo by blast
  qed
  then show ?case
    using Cons.IH [of "snd (leave_room m (r, a) mg)"] lo Cons.prems(3) by (auto simp: fun_eq_iff)
qed (auto simp: fun_eq_iff)

lemma LeaveAll_occupants:
  assumes "manager_ok mg"
  shows "manager_ok (LeaveAll m mg) \<and>
    occupants (LeaveAll m mg) = (\<lambda>r i. if i = member_ID m then None else occupants mg r i)"
proof -
  have "occupants mg r = Map.empty" if "r \<notin> set (keys (rooms mg))" for r
    using that by (simp add: occupants_def map_of_eq_None_iff [THEN iffD2])
  then show ?thesis
    using leave_fold_occupants [OF assms subset_refl, of m] assms
    by (auto simp: LeaveAll_def manager_ok_def fun_eq_iff)
qed

lemma Clear_occupants:
  assumes "manager_ok mg" shows "manager_ok (Clear r mg) \<and> occupants (Clear r mg) = (occupants mg)(r := Map.empty)"
proof (cases "map_of (rooms mg) r")
  case None
  then have "Clear r mg = mg" by (simp add: Clear_def delete_not_in map_of_eq_None_iff)
  then show ?thesis using None assms by (auto simp: occupants_def fun_eq_iff)
next
  case (Some a)
  have "Clear r mg = mg\<lparr>heap := (heap mg)[a := heap mg ! a], rooms := AList.delete r (rooms mg)\<rparr>"
    by (simp add: Clear_def)
  then show ?thesis using drop_room [OF assms Some, of "heap mg ! a"] by simp
qed

lemma InRoom_occupants: "InRoom r m mg \<longleftrightarrow> occupants mg r (member_ID m) \<noteq> None"
  by (simp add: InRoom_def has_def occupants_def split: option.splits)

lemma Members_occupants:
  assumes "manager_ok mg"
  shows "distinct (map member_ID (Members r mg)) \<and>
    (\<forall>m. m \<in> set (Members r mg) \<longleftrightarrow> occupants mg r (member_ID m) = Some m)"
proof (cases "map_of (rooms mg) r")
  case (Some a)
  have wr: "wf_room (heap mg ! a)" by (rule wf_at(2) [OF assms Some])
  then have "map member_ID (snapshot (heap mg ! a)) = keys (members (heap mg ! a))"
    by (auto simp: snapshot_def wf_room_def)
  moreover have "m \<in> set (snapshot (heap mg ! a)) \<longleftrightarrow> (member_ID m, m) \<in> set (members (heap mg ! a))" for m
    using wr by (force simp: snapshot_def wf_room_def)
  ultimately show ?thesis using wr Some
    by (simp add: Members_def occupants_def wf_room_def)
qed (simp add: Members_def occupants_def)

lemma Len_occupants: "manager_ok mg \<Longrightarrow> Len r mg = card (dom (occupants mg r))"
proof (cases "map_of (rooms mg) r")
  case (Some a)
  moreover assume "manager_ok mg"
  ultimately have "distinct (keys (members (heap mg ! a)))" using wf_at(2) by (fastforce simp: wf_room_def)
  then show ?thesis using Some distinct_card [of "keys (members (heap mg ! a))"]
    by (simp add: Len_def occupants_def room_len_def dom_map_of_conv_image_fst)
qed (simp add: Len_def occupants_def)

lemma Names_occupants:
  assumes "manager_ok mg" shows "distinct (Names mg) \<and> (r \<in> set (Names mg) \<longleftrightarrow> occupants mg r \<noteq> Map.empty)"
proof -
  have "occupants mg r \<noteq> Map.empty" if "map_of (rooms mg) r = Some a" for a
    using wf_at(3) [OF assms that] that by (simp add: occupants_def)
  moreover have "occupants mg r = Map.empty" if "map_of (rooms mg) r = None" using that by (simp add: occupants_def)
  moreover have "r \<in> set (keys (rooms mg)) \<longleftrightarrow> map_of (rooms mg) r \<noteq> None" by (simp add: map_of_eq_None_iff)
  ultimately show ?thesis using assms by (fastforce simp: Names_def manager_ok_def)
qed

subsection \<open>The membership contract\<close>

text \<open>
  What a client of the manager may rely on: \<open>look s r i\<close> is the member with ID \<open>i\<close> of room \<open>r\<close>,
  and every operation changes exactly the entries its name says.
\<close>

locale membership =
  fixes ok :: "'s \<Rightarrow> bool"
    and look :: "'s \<Rightarrow> string \<Rightarrow> string \<Rightarrow> 'c member option"
    and join leave :: "string \<Rightarrow> 'c member \<Rightarrow> 's \<Rightarrow> bool \<times> 's"
    and leave_all :: "'c member \<Rightarrow> 's \<Rightarrow> 's"
    and clear :: "string \<Rightarrow> 's \<Rightarrow> 's"
  assumes ok_join: "ok s \<Longrightarrow> ok (snd (join r m s))"
    and ok_leave: "ok s \<Longrightarrow> ok (snd (leave r m s))"
    and ok_leave_all: "ok s \<Longrightarrow> ok (leave_all m s)"
    and ok_clear: "ok s \<Longrightarrow> ok (clear r s)"
    and join_result: "ok s \<Longrightarrow> fst (join r m s) \<longleftrightarrow> look s r (member_ID m) = None"
    and leave_result: "ok s \<Longrightarrow> fst (leave r m s) \<longleftrightarrow> look s r (member_ID m) \<noteq> None"
    and look_join: "ok s \<Longrightarrow> look (snd (join r m s)) r' i =
        (if r' = r \<and> i = member_ID m \<and> look s r i = None then Some m else look s r' i)"
    and look_leave: "ok s \<Longrightarrow> look (snd (leave r m s)) r' i = (if r' = r \<and> i = member_ID m then None else look s r' i)"
    and look_leave_all: "ok s \<Longrightarrow> look (leave_all m s) r' i = (if i = member_ID m then None else look s r' i)"
    and look_clear: "ok s \<Longrightarrow> look (clear r s) r' i = (if r' = r then None else look s r' i)"
begin

lemma join_joins: "ok s \<Longrightarrow> look (snd (join r m s)) r (member_ID m) \<noteq> None"
  by (simp add: look_join)

lemma join_twice: "ok s \<Longrightarrow> \<not> fst (join r m (snd (join r m s)))"
  by (simp add: join_result ok_join join_joins)

lemma leave_after_join:
  "ok s \<Longrightarrow> look s r (member_ID m) = None \<Longrightarrow> look (snd (leave r m (snd (join r m s)))) = look s"
  by (auto simp: look_leave look_join ok_join fun_eq_iff)

lemma others_unaffected:
  "ok s \<Longrightarrow> i \<noteq> member_ID m \<Longrightarrow>
   look (snd (join r m s)) r' i = look s r' i \<and> look (snd (leave r m s)) r' i = look s r' i \<and>
   look (leave_all m s) r' i = look s r' i"
  by (auto simp: look_leave look_join look_leave_all)

lemma left_all_for_good:
  "ok s \<Longrightarrow> look (snd (leave r n (leave_all m s))) r' (member_ID m) = None \<and>
   look (clear r (leave_all m s)) r' (member_ID m) = None"
  by (auto simp: look_leave look_clear look_leave_all ok_leave_all)

end

interpretation mgr: membership manager_ok occupants Join Leave LeaveAll Clear
proof unfold_locales
  fix s :: "'a manager" and r r' i and m :: "'a member"
  assume ok: "manager_ok s"
  note facts = Join_occupants [OF ok, of r m] Leave_occupants [OF ok, of r m]
    LeaveAll_occupants [OF ok, of m] Clear_occupants [OF ok, of r]
  show "manager_ok (snd (Join r m s))" "manager_ok (snd (Leave r m s))" "manager_ok (LeaveAll m s)"
    "manager_ok (Clear r s)"
    using facts by blast+
  show "fst (Join r m s) \<longleftrightarrow> occupants s r (member_ID m) = None"
    "fst (Leave r m s) \<longleftrightarrow> occupants s r (member_ID m) \<noteq> None"
    using facts by blast+
  show "occupants (snd (Join r m s)) r' i =
      (if r' = r \<and> i = member_ID m \<and> occupants s r i = None then Some m else occupants s r' i)"
    "occupants (snd (Leave r m s)) r' i = (if r' = r \<and> i = member_ID m then None else occupants s r' i)"
    "occupants (LeaveAll m s) r' i = (if i = member_ID m then None else occupants s r' i)"
    "occupants (Clear r s) r' i = (if r' = r then None else occupants s r' i)"
    using facts by auto
qed

subsection \<open>Runs of operations\<close>

datatype 'c room_op = OJoin string "'c member" | OLeave string "'c member" | OLeaveAll "'c member" | OClear string

fun room_step :: "'c room_op \<Rightarrow> 'c manager \<Rightarrow> 'c manager" where
  "room_step (OJoin r m) mg = snd (Join r m mg)"
| "room_step (OLeave r m) mg = snd (Leave r m mg)"
| "room_step (OLeaveAll m) mg = LeaveAll m mg"
| "room_step (OClear r) mg = Clear r mg"

interpretation rooms_machine: invariant_machine New room_step manager_ok
proof
  show "manager_ok New" by (rule manager_ok_New)
  show "manager_ok (room_step e s)" if "manager_ok s" for e and s :: "'a manager"
    using that by (cases e) (simp_all add: mgr.ok_join mgr.ok_leave mgr.ok_leave_all mgr.ok_clear)
qed

subsection \<open>Broadcasts\<close>

lemma Send_filter:
  "fold (\<lambda>m w. if member_ID m \<in> S then w else f m w) ms w = fold f (filter (\<lambda>m. member_ID m \<notin> S) ms) w"
  by (induction ms arbitrary: w) auto

text \<open>The first member of each ID not seen before.\<close>

fun firsts :: "string list \<Rightarrow> 'c member list \<Rightarrow> 'c member list" where
  "firsts seen [] = []"
| "firsts seen (m # ms) =
     (if member_ID m \<in> set seen then firsts seen ms else m # firsts (member_ID m # seen) ms)"

lemma send_unseen_firsts:
  "snd (fold (send_unseen emit ev args) ms (seen, w)) = fold (\<lambda>m w. snd (emit m ev args w)) (firsts seen ms) w"
  by (induction ms arbitrary: seen w) (auto simp: send_unseen_def)

lemma firsts_props:
  "distinct (map member_ID (firsts seen ms)) \<and> set (firsts seen ms) \<subseteq> set ms \<and>
   member_ID ` set (firsts seen ms) = member_ID ` set ms - set seen"
proof (induction seen ms rule: firsts.induct)
  case (2 seen m ms)
  then show ?case by (cases "member_ID m \<in> set seen") auto
qed simp

lemma fold_fold_concat: "fold (\<lambda>a. fold f (g a)) as = fold f (concat (map g as))"
  by (induction as) auto

definition all_members :: "'c manager \<Rightarrow> 'c member list" where
  "all_members mg = concat (map (\<lambda>a. snapshot (heap mg ! a)) (map snd (rooms mg)))"

lemma SendAll_firsts:
  "SendAll emit ev args mg w = fold (\<lambda>m w. snd (emit m ev args w)) (firsts [] (all_members mg)) w"
  unfolding SendAll_def fold_fold_concat send_unseen_firsts all_members_def ..

lemma occupants_filed: "manager_ok mg \<Longrightarrow> occupants mg r i = Some m \<Longrightarrow> member_ID m = i"
  using wf_at(2) [of mg r] by (fastforce simp: occupants_def wf_room_def split: option.splits dest: map_of_SomeD)

lemma all_snapshots:
  assumes "manager_ok mg"
  shows "m \<in> set (all_members mg) \<longleftrightarrow> (\<exists>r. occupants mg r (member_ID m) = Some m)"
proof -
  have "m \<in> set (all_members mg) \<longleftrightarrow>
      (\<exists>r a. map_of (rooms mg) r = Some a \<and> m \<in> set (snapshot (heap mg ! a)))"
    using assms by (force simp: manager_ok_def all_members_def)
  also have "\<dots> \<longleftrightarrow> (\<exists>r. m \<in> set (Members r mg))"
  proof -
    have "(\<exists>a. map_of (rooms mg) r = Some a \<and> m \<in> set (snapshot (heap mg ! a))) \<longleftrightarrow> m \<in> set (Members r mg)" for r
      by (cases "map_of (rooms mg) r") (auto simp: Members_def)
    then show ?thesis by simp
  qed
  finally show ?thesis using Members_occupants [OF assms] by simp
qed

subsection \<open>Properties\<close>

text \<open>C10. The manager implements a relation between room names and members: in every state that \<open>New\<close>
  and any run of operations lead to, \<open>Join\<close> adds exactly its pair and reports whether it was new,
  \<open>Leave\<close> removes exactly its pair and reports whether it was there, \<open>LeaveAll\<close> removes the member
  from every room and \<open>Clear\<close> every member from the room.\<close>

theorem rooms_implement_membership:
  "let mg = fold room_step es New; occ = occupants in
    (fst (Join r m mg) \<longleftrightarrow> occ mg r (member_ID m) = None) \<and>
    occ (snd (Join r m mg)) r' i = (if r' = r \<and> i = member_ID m \<and> occ mg r i = None then Some m else occ mg r' i) \<and>
    (fst (Leave r m mg) \<longleftrightarrow> occ mg r (member_ID m) \<noteq> None) \<and>
    occ (snd (Leave r m mg)) r' i = (if r' = r \<and> i = member_ID m then None else occ mg r' i) \<and>
    occ (LeaveAll m mg) r' i = (if i = member_ID m then None else occ mg r' i) \<and>
    occ (Clear r mg) r' i = (if r' = r then None else occ mg r' i)"
proof -
  let ?mg = "fold room_step es New"
  have ok: "manager_ok ?mg" by (rule rooms_machine.inv_run)
  show ?thesis
    by (simp add: Let_def mgr.join_result [OF ok] mgr.look_join [OF ok] mgr.leave_result [OF ok]
        mgr.look_leave [OF ok] mgr.look_leave_all [OF ok] mgr.look_clear [OF ok])
qed

text \<open>C32. No room outlives its members and the queries agree: after any run of operations, the names are
  distinct and are exactly those of the rooms with at least one member, \<open>Len\<close> counts the members,
  \<open>InRoom\<close> tests for them and \<open>Members\<close> lists each once.\<close>

theorem rooms_queries_agree:
  "let mg = fold room_step es New in
    distinct (Names mg) \<and> (r \<in> set (Names mg) \<longleftrightarrow> 0 < Len r mg) \<and>
    Len r mg = card (dom (occupants mg r)) \<and> Len r mg = length (Members r mg) \<and>
    (InRoom r m mg \<longleftrightarrow> member_ID m \<in> member_ID ` set (Members r mg)) \<and>
    distinct (map member_ID (Members r mg))"
proof -
  let ?mg = "fold room_step es New"
  have ok: "manager_ok ?mg" by (rule rooms_machine.inv_run)
  note M = Members_occupants [OF ok, of r] and L = Len_occupants [OF ok, of r] and N = Names_occupants [OF ok, of r]
  have len: "Len r ?mg = length (Members r ?mg)"
    by (simp add: Len_def Members_def room_len_def snapshot_def split: option.splits)
  have in_room: "InRoom r m ?mg \<longleftrightarrow> member_ID m \<in> member_ID ` set (Members r ?mg)"
  proof
    assume "InRoom r m ?mg"
    then obtain n where n: "occupants ?mg r (member_ID m) = Some n" by (auto simp: InRoom_occupants)
    then have "member_ID n = member_ID m" by (rule occupants_filed [OF ok])
    moreover from this n have "n \<in> set (Members r ?mg)" using M by simp
    ultimately show "member_ID m \<in> member_ID ` set (Members r ?mg)" by (metis image_eqI)
  next
    assume "member_ID m \<in> member_ID ` set (Members r ?mg)"
    then show "InRoom r m ?mg" using M by (auto simp: InRoom_occupants)
  qed
  have "occupants ?mg r \<noteq> Map.empty \<longleftrightarrow> 0 < Len r ?mg"
    using wf_at(3) [OF ok] by (auto simp: Len_def occupants_def room_len_def split: option.splits)
  then show ?thesis using M L N len in_room by (simp add: Let_def)
qed

text \<open>\<open>Send\<close> calls \<open>Emit\<close> once on every member of the room whose ID is not to be skipped, in some
  order, and on nobody else; a failing \<open>Emit\<close> does not stop the others.\<close>

theorem send_reaches_each_once:
  "\<exists>ms. Send emit r event skipIDs args (fold room_step es New) w = fold (\<lambda>m w. snd (emit m event args w)) ms w \<and>
     distinct (map member_ID ms) \<and>
     (\<forall>m. m \<in> set ms \<longleftrightarrow> occupants (fold room_step es New) r (member_ID m) = Some m \<and> member_ID m \<notin> skipIDs)"
proof -
  let ?mg = "fold room_step es New"
  let ?ms = "filter (\<lambda>m. member_ID m \<notin> skipIDs) (Members r ?mg)"
  note M = Members_occupants [OF rooms_machine.inv_run [of es], of r]
  have "Send emit r event skipIDs args ?mg w = fold (\<lambda>m w. snd (emit m event args w)) ?ms w"
    by (simp add: Send_def Send_filter)
  moreover have "distinct (map member_ID ?ms)" using M by (simp add: distinct_map_filter)
  ultimately show ?thesis using M by (intro exI [of _ ?ms]) auto
qed

text \<open>\<open>SendAll\<close> calls \<open>Emit\<close> exactly once per ID that is in at least one room, on a member of one
  of its rooms, however many rooms it is in.\<close>

theorem send_all_reaches_each_once:
  "\<exists>ms. SendAll emit event args (fold room_step es New) w = fold (\<lambda>m w. snd (emit m event args w)) ms w \<and>
     distinct (map member_ID ms) \<and>
     set ms \<subseteq> {m. \<exists>r. occupants (fold room_step es New) r (member_ID m) = Some m} \<and>
     member_ID ` set ms = {i. \<exists>r. occupants (fold room_step es New) r i \<noteq> None}"
proof -
  let ?mg = "fold room_step es New"
  let ?ms = "firsts [] (all_members ?mg)"
  have ok: "manager_ok ?mg" by (rule rooms_machine.inv_run)
  note F = firsts_props [of "[]" "all_members ?mg"]
  have all: "set (all_members ?mg) = {m. \<exists>r. occupants ?mg r (member_ID m) = Some m}"
    using all_snapshots [OF ok] by blast
  have ids: "member_ID ` {m. \<exists>r. occupants ?mg r (member_ID m) = Some m} = {i. \<exists>r. occupants ?mg r i \<noteq> None}"
  proof (intro set_eqI iffI)
    fix i assume "i \<in> {i. \<exists>r. occupants ?mg r i \<noteq> None}"
    then obtain r m where m: "occupants ?mg r i = Some m" by blast
    then have "member_ID m = i" by (rule occupants_filed [OF ok])
    with m show "i \<in> member_ID ` {m. \<exists>r. occupants ?mg r (member_ID m) = Some m}" by (intro image_eqI [of i _ m]) auto
  qed auto
  show ?thesis
  proof (intro exI [of _ ?ms] conjI)
    show "SendAll emit event args ?mg w = fold (\<lambda>m w. snd (emit m event args w)) ?ms w" by (rule SendAll_firsts)
    show "distinct (map member_ID ?ms)" using F by blast
    show "set ?ms \<subseteq> {m. \<exists>r. occupants ?mg r (member_ID m) = Some m}" using F all by blast
    show "member_ID ` set ?ms = {i. \<exists>r. occupants ?mg r i \<noteq> None}" using F unfolding all ids by simp
  qed
qed

text \<open>C40. \<open>Join\<close> is not atomic: when the only other member leaves between its lookup and its insertion,
  \<open>Join\<close> reports success although the member is in no room of the manager afterwards.\<close>

theorem join_lost_in_race:
  assumes "manager_ok mg" "Join_lookup r mg = (a, mg1)" "occupants mg r = [member_ID n \<mapsto> n]"
    and "member_ID m \<noteq> member_ID n" "Leave r n mg1 = (b, mg2)" "room_add a m mg2 = (ok, mg3)"
  shows "ok \<and> \<not> InRoom r m mg3 \<and> Len r mg3 = 0"
proof -
  have "map_of (rooms mg) r = Some a" and mg1: "mg1 = mg"
    using assms(2,3) by (auto simp: Join_lookup_def occupants_def fun_eq_iff Let_def split: option.splits if_splits)
  then have a: "map_of (members (heap mg ! a)) = [member_ID n \<mapsto> n]" "a < length (heap mg)"
    using assms(3) wf_at(1) [OF assms(1)] by (auto simp: occupants_def)
  then have e: "members (snd (remove n (heap mg ! a))) = []"
    using remove_room [OF wf_at(2) [OF assms(1) \<open>map_of (rooms mg) r = Some a\<close>], of n] remove_empty by simp
  have mg2: "mg2 = mg\<lparr>heap := (heap mg)[a := snd (remove n (heap mg ! a))], rooms := AList.delete r (rooms mg)\<rparr>"
    using assms(5) e \<open>map_of (rooms mg) r = Some a\<close> unfolding mg1
    by (cases "remove n (heap mg ! a)") (auto simp: Leave_def leave_room_def room_len_def)
  have "rooms mg3 = AList.delete r (rooms mg)" "ok"
    using assms(6) a(2) e unfolding mg2 room_add_def
    by (auto simp: add_def Let_def split: prod.splits option.splits)
  then show ?thesis by (simp add: InRoom_def Len_def)
qed

subsection \<open>Witness\<close>

definition ann :: "unit member" where "ann = Member ''a'' ()"
definition bob :: "unit member" where "bob = Member ''b'' ()"

theorem join_lost_in_race_witness:
  "let mg = snd (Join ''den'' ann New);
       (a, mg1) = Join_lookup ''den'' mg;
       (b, mg2) = Leave ''den'' ann mg1;
       (ok, mg3) = room_add a bob mg2
   in ok \<and> \<not> InRoom ''den'' bob mg3 \<and> Len ''den'' mg3 = 0"
proof -
  let ?mg = "snd (Join ''den'' ann New)"
  obtain a mg1 where l: "Join_lookup ''den'' ?mg = (a, mg1)" by fastforce
  obtain b mg2 where v: "Leave ''den'' ann mg1 = (b, mg2)" by fastforce
  obtain ok mg3 where d: "room_add a bob mg2 = (ok, mg3)" by fastforce
  have "manager_ok ?mg" by (intro mgr.ok_join manager_ok_New)
  moreover have "occupants ?mg ''den'' = [member_ID ann \<mapsto> ann]"
    using Join_occupants [OF manager_ok_New, of "''den''" ann] by (simp add: occupants_def New_def)
  moreover have "member_ID bob \<noteq> member_ID ann" by (simp add: ann_def bob_def)
  ultimately have "ok \<and> \<not> InRoom ''den'' bob mg3 \<and> Len ''den'' mg3 = 0"
    using join_lost_in_race [OF _ l _ _ v d] by blast
  then show ?thesis by (simp add: l v d)
qed

end
