(* ===== verification/WS_Frame.thy ===== *)
theory WS_Frame
  imports Prelude "HOL-Library.Word"
begin

section \<open>transport: WebSocket frames\<close>

text \<open>
  The model of \<open>readFrame\<close> and \<open>writeFrame\<close> of \<open>transport/transport.go\<close>. A byte is an \<open>8 word\<close>, the
  buffered reader the list of the bytes still to come before the end of the stream; a length read
  from at most eight bytes is a natural number. \<open>client_frame\<close> is what a client has to send
  according to RFC 6455 and \<open>peer_read\<close> how it reads a frame of the server; both are specifications,
  against which the code is proved.
\<close>

unbundle bit_operations_syntax

type_synonym byte = "8 word"

abbreviation OpContinuation :: byte where "OpContinuation \<equiv> 0x0"
abbreviation OpText :: byte where "OpText \<equiv> 0x1"
abbreviation OpBinary :: byte where "OpBinary \<equiv> 0x2"
abbreviation OpClose :: byte where "OpClose \<equiv> 0x8"
abbreviation OpPing :: byte where "OpPing \<equiv> 0x9"
abbreviation OpPong :: byte where "OpPong \<equiv> 0xA"

subsection \<open>Reading from the stream\<close>

definition ReadByte :: "byte list \<Rightarrow> error + byte \<times> byte list" where
  "ReadByte r = (case r of [] \<Rightarrow> Inl EOF | b # r \<Rightarrow> Inr (b, r))"

definition ReadFull :: "nat \<Rightarrow> byte list \<Rightarrow> error + byte list \<times> byte list" where
  "ReadFull n r =
     (if n \<le> length r then Inr (take n r, drop n r) else if r = [] then Inl EOF else Inl ErrUnexpectedEOF)"

text \<open>\<open>binary.BigEndian\<close>, for any number of bytes.\<close>

definition be_value :: "byte list \<Rightarrow> nat" where
  "be_value bs = foldl (\<lambda>n b. 256 * n + unat b) 0 bs"

fun be_bytes :: "nat \<Rightarrow> nat \<Rightarrow> byte list" where
  "be_bytes 0 n = []"
| "be_bytes (Suc k) n = be_bytes k (n div 256) @ [of_nat n]"

text \<open>The extended payload length: \<open>switch n\<close> on the seven length bits.\<close>

definition read_length :: "nat \<Rightarrow> byte list \<Rightarrow> error + nat \<times> byte list" where
  "read_length n r =
     (if n = 126 then
        (case ReadFull 2 r of Inl e \<Rightarrow> Inl e | Inr (x, r) \<Rightarrow> Inr (be_value x, r))
      else if n = 127 then
        (case ReadFull 8 r of
           Inl e \<Rightarrow> Inl e
         | Inr (x, r) \<Rightarrow> if x ! 0 AND 0x80 \<noteq> 0 then Inl ErrProtocol else Inr (be_value x, r))
      else Inr (n, r))"

definition unmask :: "byte list \<Rightarrow> byte list \<Rightarrow> byte list" where
  "unmask key p = map (\<lambda>i. p ! i XOR key ! (i mod 4)) [0..<length p]"

definition read_payload :: "nat \<Rightarrow> byte list \<Rightarrow> byte list \<Rightarrow> error + byte list \<times> byte list" where
  "read_payload n key r =
     (if n > 0 then
        (case ReadFull n r of Inl e \<Rightarrow> Inl e | Inr (p, r) \<Rightarrow> Inr (unmask key p, r))
      else Inr ([], r))"

type_synonym frame = "bool \<times> byte \<times> byte list"

text \<open>What follows the two header bytes, once they are accepted.\<close>

definition read_body :: "nat \<Rightarrow> bool \<Rightarrow> byte \<Rightarrow> byte \<Rightarrow> byte list \<Rightarrow> error + frame \<times> byte list" where
  "read_body maxPayload fin op b1 r =
     (case read_length (unat (b1 AND 0x7F)) r of
        Inl e \<Rightarrow> Inl e
      | Inr (n, r) \<Rightarrow>
          if 8 \<le> op \<and> (\<not> fin \<or> n > 125) then Inl ErrProtocol
          else if maxPayload > 0 \<and> n > maxPayload then Inl ErrPayloadTooLarge
          else (case ReadFull 4 r of
              Inl e \<Rightarrow> Inl e
            | Inr (key, r) \<Rightarrow>
                (case read_payload n key r of
                   Inl e \<Rightarrow> Inl e
                 | Inr (p, r) \<Rightarrow> Inr ((fin, op, p), r))))"

definition readFrame :: "nat \<Rightarrow> byte list \<Rightarrow> error + frame \<times> byte list" where
  "readFrame maxPayload r =
     (case ReadByte r of
        Inl e \<Rightarrow> Inl e
      | Inr (b0, r) \<Rightarrow>
          if b0 AND 0x70 \<noteq> 0 then Inl ErrProtocol
          else (let fin = (b0 AND 0x80 \<noteq> 0); op = b0 AND 0x0F in
            if (3 \<le> op \<and> op \<le> 7) \<or> 11 \<le> op then Inl ErrProtocol
            else (case ReadByte r of
                Inl e \<Rightarrow> Inl e
              | Inr (b1, r) \<Rightarrow>
                  if b1 AND 0x80 = 0 then Inl ErrUnmaskedFrame
                  else read_body maxPayload fin op b1 r)))"

subsection \<open>Writing a frame\<close>

definition writeFrame :: "byte \<Rightarrow> byte list \<Rightarrow> error + byte list" where
  "writeFrame op p =
     (if 8 \<le> op \<and> (\<not> (op = OpClose \<or> op = OpPing \<or> op = OpPong) \<or> length p > 125) then Inl ErrProtocol
      else
        (let n = length p;
             len = (if n \<le> 125 then [of_nat n]
                    else if n \<le> 65535 then 126 # be_bytes 2 n
                    else 127 # be_bytes 8 n)
         in Inr ((0x80 OR op) # len @ p)))"

subsection \<open>Specification: the peer\<close>

definition opcode_ok :: "byte \<Rightarrow> bool" where
  "opcode_ok op \<longleftrightarrow> op \<in> {OpContinuation, OpText, OpBinary, OpClose, OpPing, OpPong}"

text \<open>The frame of a client: masked with the key \<open>(k0, k1, k2, k3)\<close>, the length in its shortest form.\<close>

definition mask_bytes :: "byte \<times> byte \<times> byte \<times> byte \<Rightarrow> byte list" where
  "mask_bytes k = (case k of (a, b, c, d) \<Rightarrow> [a, b, c, d])"

definition len_code :: "nat \<Rightarrow> byte \<times> byte list" where
  "len_code n =
     (if n \<le> 125 then (of_nat n, []) else if n \<le> 65535 then (126, be_bytes 2 n) else (127, be_bytes 8 n))"

definition client_frame :: "byte \<times> byte \<times> byte \<times> byte \<Rightarrow> frame \<Rightarrow> byte list" where
  "client_frame key f =
     (case f of (fin, op, p) \<Rightarrow>
       ((if fin then 0x80 else 0) OR op) # (0x80 OR fst (len_code (length p))) # snd (len_code (length p)) @
       mask_bytes key @ unmask (mask_bytes key) p)"

definition frame_ok :: "nat \<Rightarrow> frame \<Rightarrow> bool" where
  "frame_ok maxPayload f =
     (case f of (fin, op, p) \<Rightarrow>
       opcode_ok op \<and> (8 \<le> op \<longrightarrow> fin \<and> length p \<le> 125) \<and> length p < 2 ^ 63 \<and>
       (maxPayload > 0 \<longrightarrow> length p \<le> maxPayload))"

text \<open>How a client reads an unmasked frame of the server.\<close>

definition peer_read :: "byte list \<Rightarrow> (frame \<times> byte list) option" where
  "peer_read s =
     (case s of
        b0 # b1 # r \<Rightarrow>
          (let (n, r) = (if b1 = 126 then (be_value (take 2 r), drop 2 r)
                         else if b1 = 127 then (be_value (take 8 r), drop 8 r) else (unat b1, r))
           in if n \<le> length r then Some ((b0 AND 0x80 \<noteq> 0, b0 AND 0x0F, take n r), drop n r) else None)
      | _ \<Rightarrow> None)"

subsection \<open>Bytes and bits\<close>

lemma length_be_bytes [simp]: "length (be_bytes k n) = k"
  by (induction k arbitrary: n) auto

lemma be_bytes_first: "be_bytes (Suc k) n ! 0 = of_nat (n div 256 ^ k)"
proof (induction k arbitrary: n)
  case (Suc k)
  have "be_bytes (Suc (Suc k)) n ! 0 = be_bytes (Suc k) (n div 256) ! 0"
    by (subst be_bytes.simps(2)) (simp add: nth_append del: be_bytes.simps)
  then show ?case by (simp only: Suc.IH) (simp add: div_mult2_eq)
qed simp

lemma be_value_snoc: "be_value (bs @ [b]) = 256 * be_value bs + unat b"
  by (simp add: be_value_def)

lemma unat_byte: "unat (of_nat n :: byte) = n mod 256"
  by (simp add: unat_of_nat)

lemma be_value_be_bytes: "be_value (be_bytes k n) = n mod 256 ^ k"
proof (induction k arbitrary: n)
  case 0
  then show ?case by (simp add: be_value_def)
next
  case (Suc k)
  have "n mod 256 ^ Suc k = 256 * (n div 256 mod 256 ^ k) + n mod 256"
    by (simp add: mod_mult2_eq)
  then show ?case by (simp add: be_value_snoc Suc.IH unat_byte)
qed

lemma unat_byte_less: "unat (b :: byte) < 256"
proof -
  have "unat b < 2 ^ LENGTH(8)" by (rule unsigned_less)
  then show ?thesis by simp
qed

lemma be_value_less: "be_value bs < 256 ^ length bs"
proof (induction bs rule: rev_induct)
  case (snoc b bs)
  have "unat b < 256" by (rule unat_byte_less)
  then show ?case using snoc by (simp add: be_value_snoc)
qed (simp add: be_value_def)

lemma be_value_Cons: "be_value (b # bs) = unat b * 256 ^ length bs + be_value bs"
  by (induction bs rule: rev_induct)
    (simp_all add: be_value_snoc algebra_simps flip: append_Cons, simp add: be_value_def)

lemma low7: "unat ((w :: byte) AND 0x7F) = unat w mod 128"
proof -
  have "w AND 0x7F = take_bit 7 w" by (simp add: take_bit_eq_mask mask_eq_exp_minus_1)
  then have "unat (w AND 0x7F) = take_bit 7 (unat w)" by (simp only: unsigned_take_bit_eq)
  then show ?thesis by (simp add: take_bit_eq_mod)
qed

lemma top_bit: "(w :: byte) AND 0x80 = 0 \<longleftrightarrow> unat w < 128"
proof -
  have "(w AND 0x80 = 0) = (\<not> bit w 7)"
    using and_exp_eq_0_iff_not_bit [of w 7] by simp
  also have "\<dots> = (\<not> bit (unat w) 7)" by (simp add: bit_unsigned_iff)
  also have "\<dots> = even (unat w div 128)" by (simp add: bit_iff_odd)
  also have "\<dots> = (unat w < 128)"
  proof -
    have "unat w div 128 < 2" using unat_byte_less [of w] by simp
    then consider "unat w div 128 = 0" | "unat w div 128 = 1" by linarith
    then show ?thesis by cases auto
  qed
  finally show ?thesis .
qed

lemma mark_low7: "n < 128 \<Longrightarrow> unat ((0x80 OR (of_nat n :: byte)) AND 0x7F) = n"
proof -
  assume "n < 128"
  have "(0x80 OR (of_nat n :: byte)) AND 0x7F = of_nat n AND 0x7F"
    by (simp add: bit.conj_disj_distrib2)
  then show ?thesis using \<open>n < 128\<close> by (simp add: low7 unat_byte)
qed

lemma mark_top: "(0x80 OR (w :: byte)) AND 0x80 \<noteq> 0"
  by (simp add: bit.conj_disj_distrib2 or_eq_0_iff)

lemma opcode_bits:
  assumes "opcode_ok op"
  shows "((if fin then 0x80 else 0) OR op) AND 0x70 = 0"
    and "((if fin then 0x80 else 0) OR op) AND 0x80 \<noteq> 0 \<longleftrightarrow> fin"
    and "((if fin then 0x80 else 0) OR op) AND 0x0F = op"
    and "\<not> (3 \<le> op \<and> op \<le> 7)" "\<not> 11 \<le> op"
  using assms by (auto simp: opcode_ok_def word_le_nat_alt)

lemma xor_twice: "(a XOR k) XOR k = (a :: byte)"
  by (simp add: xor.assoc)

lemma length_unmask [simp]: "length (unmask key p) = length p"
  by (simp add: unmask_def)

lemma unmask_Nil [simp]: "unmask key [] = []"
  by (simp add: unmask_def)

lemma unmask_unmask [simp]: "unmask key (unmask key p) = p"
  by (rule nth_equalityI) (simp_all add: unmask_def xor_twice)

subsection \<open>Reading what a client sent\<close>

lemma ReadFull_append [simp]: "length x = n \<Longrightarrow> ReadFull n (x @ r) = Inr (x, r)"
  by (auto simp: ReadFull_def)

lemma read_length_code:
  assumes "n < 2 ^ 63"
  shows "read_length (unat ((0x80 OR fst (len_code n)) AND 0x7F)) (snd (len_code n) @ r) = Inr (n, r)"
proof -
  consider "n \<le> 125" | "125 < n" "n \<le> 65535" | "65535 < n" by linarith
  then show ?thesis
  proof cases
    case 1
    then show ?thesis by (simp add: len_code_def mark_low7 read_length_def)
  next
    case 2
    have "unat ((0x80 OR (126 :: byte)) AND 0x7F) = 126" by simp
    with 2 show ?thesis by (simp add: len_code_def read_length_def be_value_be_bytes)
  next
    case 3
    have "unat ((0x80 OR (127 :: byte)) AND 0x7F) = 127" by simp
    moreover have "be_bytes 8 n ! 0 AND 0x80 = 0"
    proof -
      have "be_bytes 8 n ! 0 = of_nat (n div 256 ^ 7)" using be_bytes_first [of 7 n] by simp
      moreover have "n div 256 ^ 7 < 128" using assms by (simp add: less_mult_imp_div_less)
      ultimately show ?thesis by (simp add: top_bit unat_byte)
    qed
    ultimately show ?thesis using 3 assms by (simp add: len_code_def read_length_def be_value_be_bytes)
  qed
qed

lemma readFrame_client_frame:
  assumes "frame_ok maxPayload f"
  shows "readFrame maxPayload (client_frame key f @ r) = Inr (f, r)"
proof -
  obtain fin op p where f: "f = (fin, op, p)" by (cases f)
  have ok: "opcode_ok op" "8 \<le> op \<longrightarrow> fin \<and> length p \<le> 125" "length p < 2 ^ 63"
    "maxPayload > 0 \<longrightarrow> length p \<le> maxPayload" using assms by (auto simp: frame_ok_def f)
  let ?k = "mask_bytes key"
  let ?c = "len_code (length p)"
  have "length ?k = 4" by (cases key) (simp add: mask_bytes_def)
  then have pl: "read_payload (length p) ?k (unmask ?k p @ r) = Inr (p, r)" "ReadFull 4 (?k @ unmask ?k p @ r) = Inr (?k, unmask ?k p @ r)"
    by (simp_all add: read_payload_def)
  have "read_body maxPayload fin op (0x80 OR fst ?c) (snd ?c @ ?k @ unmask ?k p @ r) = Inr ((fin, op, p), r)"
    using ok pl by (auto simp: read_body_def read_length_code)
  then show ?thesis
    using opcode_bits(1-3) [OF ok(1), of fin] opcode_bits(4,5) [OF ok(1)] mark_top [of "fst ?c"]
    by (simp add: f client_frame_def readFrame_def ReadByte_def Let_def)
qed

interpretation frames: stream_codec "client_frame key"
    "\<lambda>s. case readFrame maxPayload s of Inl _ \<Rightarrow> None | Inr x \<Rightarrow> Some x" "frame_ok maxPayload" for key maxPayload
  by unfold_locales (simp add: readFrame_client_frame)

lemma ReadFull_Inr: "ReadFull n r = Inr (x, r') \<longleftrightarrow> n \<le> length r \<and> x = take n r \<and> r' = drop n r"
  by (auto simp: ReadFull_def)

lemma read_length_Inr:
  "read_length c r = Inr (n, r') \<Longrightarrow> c < 128 \<Longrightarrow>
   n < 2 ^ 63 \<and> length r' \<le> length r \<and> (\<exists>x. r = x @ r' \<and> length x \<le> 8)"
proof -
  assume h: "read_length c r = Inr (n, r')" "c < 128"
  consider "c = 126" | "c = 127" | "c \<noteq> 126" "c \<noteq> 127" by blast
  then show ?thesis
  proof cases
    case 1
    then have "r' = drop 2 r" "n = be_value (take 2 r)" "2 \<le> length r"
      using h by (auto simp: read_length_def ReadFull_Inr split: sum.splits)
    moreover have "be_value (take 2 r) < 256 ^ length (take 2 r)" by (rule be_value_less)
    ultimately show ?thesis by (auto intro!: exI [of _ "take 2 r"])
  next
    case 2
    then have l: "r' = drop 8 r" "n = be_value (take 8 r)" "8 \<le> length r" "take 8 r ! 0 AND 0x80 = 0"
      using h by (auto simp: read_length_def ReadFull_Inr split: sum.splits if_splits)
    then obtain b bs where b: "take 8 r = b # bs" "length bs = 7"
      by (cases "take 8 r") (auto dest: arg_cong [where f = length])
    have "unat b < 128" using l(4) by (simp add: b top_bit)
    moreover have "be_value bs < 256 ^ 7" using be_value_less [of bs] b(2) by simp
    ultimately have "n < 2 ^ 63" unfolding l(2) b(1) be_value_Cons b(2) by simp
    then show ?thesis using l(1,3) by (auto intro!: exI [of _ "take 8 r"])
  next
    case 3
    then show ?thesis using h by (auto simp: read_length_def)
  qed
qed

lemma readFrame_body:
  assumes "readFrame maxPayload s = Inr ((fin, op, p), r)"
  shows "\<exists>b0 b1 r1. s = b0 # b1 # r1 \<and> b0 AND 0x70 = 0 \<and> fin = (b0 AND 0x80 \<noteq> 0) \<and> op = b0 AND 0x0F \<and>
     \<not> (3 \<le> op \<and> op \<le> 7) \<and> \<not> 11 \<le> op \<and> b1 AND 0x80 \<noteq> 0 \<and> read_body maxPayload fin op b1 r1 = Inr ((fin, op, p), r)"
proof -
  obtain b0 s1 where s: "s = b0 # s1" using assms by (cases s) (auto simp: readFrame_def ReadByte_def)
  moreover obtain b1 s2 where "s1 = b1 # s2"
    using assms by (cases s1) (auto simp: s readFrame_def ReadByte_def Let_def split: if_splits)
  ultimately show ?thesis using assms
    by (auto simp: readFrame_def ReadByte_def Let_def read_body_def split: if_splits sum.splits)
qed

lemma opcode_classify:
  assumes "op = b AND (0x0F :: byte)" "\<not> (3 \<le> op \<and> op \<le> 7)" "\<not> 11 \<le> op" shows "opcode_ok op"
proof -
  have "unat op \<in> {0, 1, 2, 8, 9, 10}" using assms(2,3) by (auto simp: word_le_nat_alt)
  moreover have "op = of_nat (unat op)" by simp
  ultimately have "op = of_nat 0 \<or> op = of_nat 1 \<or> op = of_nat 2 \<or> op = of_nat 8 \<or> op = of_nat 9 \<or> op = of_nat 10"
    by (metis empty_iff insert_iff)
  then show ?thesis by (auto simp: opcode_ok_def)
qed

lemma readFrame_sound:
  assumes "readFrame maxPayload s = Inr ((fin, op, p), r)"
  shows "frame_ok maxPayload (fin, op, p) \<and> length r + length p + 6 \<le> length s"
proof -
  obtain b0 b1 r1 where b: "s = b0 # b1 # r1" "op = b0 AND 0x0F" "\<not> (3 \<le> op \<and> op \<le> 7)" "\<not> 11 \<le> op"
    "read_body maxPayload fin op b1 r1 = Inr ((fin, op, p), r)"
    using readFrame_body [OF assms] by blast
  obtain n r2 key r3 where n: "read_length (unat (b1 AND 0x7F)) r1 = Inr (n, r2)"
    "\<not> (8 \<le> op \<and> (\<not> fin \<or> n > 125))" "\<not> (maxPayload > 0 \<and> n > maxPayload)"
    "ReadFull 4 r2 = Inr (key, r3)" "read_payload n key r3 = Inr (p, r)"
    using b(5) by (auto simp: read_body_def split: sum.splits if_splits)
  have p: "length p = n" "length r + n = length r3"
    using n(5) by (auto simp: read_payload_def ReadFull_Inr split: sum.splits if_splits)
  have "unat (b1 AND 0x7F) < 128" by (simp add: low7)
  from read_length_Inr [OF n(1) this] have "n < 2 ^ 63" "length r2 \<le> length r1" by auto
  then show ?thesis
    using n(2-4) p opcode_classify [OF b(2-4)] b(1) by (auto simp: frame_ok_def ReadFull_Inr)
qed

lemma opcode_AND: "opcode_ok op \<Longrightarrow> (0x80 OR op) AND 0x0F = op"
  using opcode_bits(3) [of op True] by simp

lemma peer_read_writeFrame:
  assumes "opcode_ok op" "length p < 2 ^ 64" "writeFrame op p = Inr out"
  shows "peer_read (out @ r) = Some ((True, op, p), r)"
proof -
  let ?n = "length p"
  have bits: "(0x80 OR op) AND 0x80 \<noteq> 0" "(0x80 OR op) AND 0x0F = op"
    using mark_top [of op] opcode_AND [OF assms(1)] by auto
  consider "?n \<le> 125" | "125 < ?n" "?n \<le> 65535" | "65535 < ?n" by linarith
  then show ?thesis
  proof cases
    case 1
    then have u: "unat (of_nat ?n :: byte) = ?n" by (simp add: unat_byte)
    have "(of_nat ?n :: byte) \<noteq> b" if "unat b > 125" for b
      using u 1 that by (metis not_le)
    from this [of 126] this [of 127] have "(of_nat ?n :: byte) \<noteq> 126" "(of_nat ?n :: byte) \<noteq> 127" by simp_all
    then show ?thesis using 1 bits assms(3) by (auto simp: writeFrame_def peer_read_def Let_def unat_byte split: if_splits)
  next
    case 2
    then show ?thesis using bits assms(3)
      by (auto simp: writeFrame_def peer_read_def Let_def be_value_be_bytes split: if_splits)
  next
    case 3
    then show ?thesis using bits assms(2,3)
      by (auto simp: writeFrame_def peer_read_def Let_def be_value_be_bytes split: if_splits)
  qed
qed

subsection \<open>Truncated input\<close>

text \<open>More input does not change a result, except that of input that ended too early.\<close>

definition stable :: "error + 'a \<times> byte list \<Rightarrow> error + 'a \<times> byte list \<Rightarrow> byte list \<Rightarrow> bool" where
  "stable x y t \<longleftrightarrow>
     (case x of Inl e \<Rightarrow> e = EOF \<or> e = ErrUnexpectedEOF \<or> y = Inl e | Inr (a, r) \<Rightarrow> y = Inr (a, r @ t))"

lemma stable_ReadFull: "stable (ReadFull n r) (ReadFull n (r @ t)) t"
  by (simp add: stable_def ReadFull_def)

lemma stable_bind:
  assumes "stable x y t" "\<And>a r. x = Inr (a, r) \<Longrightarrow> stable (f a r) (f a (r @ t)) t"
  shows "stable (case x of Inl e \<Rightarrow> Inl e | Inr (a, r) \<Rightarrow> f a r) (case y of Inl e \<Rightarrow> Inl e | Inr (a, r) \<Rightarrow> f a r) t"
proof (cases x)
  case (Inl e)
  then show ?thesis using assms(1) by (auto simp: stable_def)
next
  case (Inr ar)
  obtain a r where [simp]: "ar = (a, r)" by (cases ar)
  have "y = Inr (a, r @ t)" using assms(1) Inr by (simp add: stable_def)
  then show ?thesis using assms(2) [of a r] Inr by simp
qed

lemma stable_same: "stable (Inl e) (Inl e) t" "stable (Inr (a, r)) (Inr (a, r @ t)) t"
  by (auto simp: stable_def)

lemma stable_read_length: "stable (read_length n r) (read_length n (r @ t)) t"
  unfolding read_length_def by (auto intro!: stable_bind stable_ReadFull stable_same)

lemma stable_read_payload: "stable (read_payload n k r) (read_payload n k (r @ t)) t"
  unfolding read_payload_def by (auto intro!: stable_bind stable_ReadFull stable_same)

lemma stable_read_body: "stable (read_body m fin op b1 r) (read_body m fin op b1 (r @ t)) t"
  unfolding read_body_def
  by (auto intro!: stable_bind stable_read_length stable_ReadFull stable_read_payload stable_same)

lemma stable_readFrame: "stable (readFrame m s) (readFrame m (s @ t)) t"
  unfolding readFrame_def Let_def
  by (auto intro!: stable_bind stable_read_body stable_same simp: ReadByte_def stable_def [of "Inl EOF"] split: list.splits)

subsection \<open>Properties\<close>



text \<open>Input cut anywhere inside a client frame is reported as the end of the stream, never as a frame
  and never as another error.\<close>

theorem truncated_frame:
  assumes "frame_ok maxPayload f" "k < length (client_frame key f)"
  shows "readFrame maxPayload (take k (client_frame key f)) \<in> {Inl EOF, Inl ErrUnexpectedEOF}"
proof -
  let ?s = "client_frame key f"
  have full: "readFrame maxPayload (take k ?s @ drop k ?s) = Inr (f, [])"
    using readFrame_client_frame [OF assms(1), of key "[]"] by simp
  have "drop k ?s \<noteq> []" using assms(2) by simp
  then show ?thesis
    using stable_readFrame [of maxPayload "take k ?s" "drop k ?s"] unfolding full
    by (auto simp: stable_def split: sum.splits)
qed

text \<open>What the server writes, a client reads: for every opcode of the protocol, \<open>writeFrame\<close> fails only
  on an oversized control frame, and otherwise a client reads back the final bit, the opcode and
  the payload. The server itself would reject the frame, because it is not masked.\<close>

theorem written_frame_readable:
  assumes "opcode_ok op" "length p < 2 ^ 64"
  shows "if 8 \<le> op \<and> length p > 125 then writeFrame op p = Inl ErrProtocol
    else \<exists>out. writeFrame op p = Inr out \<and> peer_read (out @ r) = Some ((True, op, p), r) \<and>
      readFrame maxPayload (out @ r) = Inl ErrUnmaskedFrame"
proof (cases "8 \<le> op \<and> length p > 125")
  case True
  then show ?thesis by (simp add: writeFrame_def)
next
  case False
  let ?c = "len_code (length p)"
  obtain b1 x where c: "b1 = fst ?c" "x = snd ?c @ p" by simp
  have out: "writeFrame op p = Inr ((0x80 OR op) # b1 # x)"
    using False assms(1) by (auto simp: c writeFrame_def len_code_def Let_def opcode_ok_def word_le_nat_alt)
  have top: "b1 AND 0x80 = 0" by (simp add: c len_code_def top_bit unat_byte)
  have "readFrame maxPayload (((0x80 OR op) # b1 # x) @ r) = Inl ErrUnmaskedFrame"
    using opcode_bits(1-3) [OF assms(1), of True] opcode_bits(4,5) [OF assms(1)] top
    by (simp add: readFrame_def ReadByte_def Let_def)
  then show ?thesis using False out peer_read_writeFrame [OF assms out] by auto
qed

subsection \<open>Witnesses\<close>

definition sample_key :: "byte \<times> byte \<times> byte \<times> byte" where
  "sample_key = (0x11, 0x22, 0x33, 0x44)"

definition sample_frame :: frame where
  "sample_frame = (True, OpText, [0x34, 0x68, 0x69])"

lemma sample_frame_ok: "frame_ok 100 sample_frame"
  by (simp add: frame_ok_def sample_frame_def opcode_ok_def word_le_nat_alt)

lemma sample_frame_bytes:
  "client_frame sample_key sample_frame = [0x81, 0x83, 0x11, 0x22, 0x33, 0x44, 0x25, 0x4A, 0x5A]"
  by (simp add: client_frame_def sample_key_def sample_frame_def len_code_def mask_bytes_def unmask_def upt_rec)



theorem truncated_frame_witness:
  "readFrame 100 (take 5 (client_frame sample_key sample_frame)) \<in> {Inl EOF, Inl ErrUnexpectedEOF}"
  by (rule truncated_frame [OF sample_frame_ok]) (simp add: sample_frame_bytes)

theorem written_frame_readable_witness:
  "\<exists>out. writeFrame OpBinary [1, 2] = Inr out \<and> peer_read out = Some ((True, OpBinary, [1, 2]), []) \<and>
     readFrame 10 out = Inl ErrUnmaskedFrame"
  using written_frame_readable [of OpBinary "[1, 2]" "[]" 10] by (simp add: opcode_ok_def word_le_nat_alt)

end
