(* ===== verification/WS_Conn.thy ===== *)
theory WS_Conn
  imports WS_Frame Go_Utf8
begin

section \<open>transport: a WebSocket connection\<close>

text \<open>
  The model of \<open>WSConn\<close> of \<open>transport/transport.go\<close>: reassembly of fragmented messages, control
  frames, the Engine.IO prefixes (\<open>handleEIO\<close>) and the write side. The socket is the list of bytes
  still to be read and the list of bytes flushed to the peer; a write succeeds unless the socket
  has been closed here (failures of the network itself are not modelled). \<open>pongCh\<close>, a channel of
  capacity one, is a flag. \<open>ReadMessage\<close> recurses once per frame, and terminates because a frame
  takes bytes off the stream.
\<close>

subsection \<open>Bytes and strings\<close>

definition text_of :: "byte list \<Rightarrow> string" where
  "text_of bs = map (\<lambda>b. char_of (unat b)) bs"

definition bytes_of :: "string \<Rightarrow> byte list" where
  "bytes_of s = map of_char s"

lemma unat_of_char: "unat (of_char c :: byte) = of_char c"
proof -
  have "(of_char c :: byte) = of_nat (of_char c)" by (rule of_nat_of_char [symmetric])
  then have "unat (of_char c :: byte) = (of_char c :: nat) mod 256" by (simp only: unat_byte)
  then show ?thesis by simp
qed

lemma text_of_bytes_of [simp]: "text_of (bytes_of s) = s"
  by (simp add: text_of_def bytes_of_def comp_def unat_of_char map_idI)

lemma bytes_of_text_of [simp]: "bytes_of (text_of bs) = bs"
proof -
  have "(of_char (char_of (unat b)) :: byte) = b" for b :: byte
  proof -
    have "unat (of_char (char_of (unat b)) :: byte) = unat b"
      using unat_byte_less [of b] by (simp add: unat_of_char)
    then show ?thesis by (rule unsigned_word_eqI)
  qed
  then show ?thesis by (simp add: text_of_def bytes_of_def comp_def map_idI)
qed

lemma length_text_of [simp]: "length (text_of bs) = length bs"
  and text_of_append [simp]: "text_of (bs @ cs) = text_of bs @ text_of cs"
  by (simp_all add: text_of_def)

subsection \<open>The connection\<close>

abbreviation eioOpen :: char where "eioOpen \<equiv> CHR ''0''"
abbreviation eioClose :: char where "eioClose \<equiv> CHR ''1''"
abbreviation eioPing :: char where "eioPing \<equiv> CHR ''2''"
abbreviation eioPong :: char where "eioPong \<equiv> CHR ''3''"
abbreviation eioMessage :: char where "eioMessage \<equiv> CHR ''4''"
abbreviation eioUpgrade :: char where "eioUpgrade \<equiv> CHR ''5''"
abbreviation eioNoop :: char where "eioNoop \<equiv> CHR ''6''"

record wsconn =
  incoming :: "byte list"
  outgoing :: "byte list"
  raw_closed :: bool
  ws_closed :: bool
  pongCh :: bool
  maxPayload :: nat
  validateUTF8 :: bool
  heartbeat :: bool

definition newWSConn :: "byte list \<Rightarrow> nat \<Rightarrow> wsconn" where
  "newWSConn bs maxp =
     \<lparr>incoming = bs, outgoing = [], raw_closed = False, ws_closed = False, pongCh = False,
      maxPayload = maxp, validateUTF8 = True, heartbeat = True\<rparr>"

definition newProbeWSConn :: "byte list \<Rightarrow> nat \<Rightarrow> wsconn" where
  "newProbeWSConn bs maxp = (newWSConn bs maxp)\<lparr>heartbeat := False\<rparr>"

text \<open>The constructor that the tests of the transport use.\<close>

definition NewWSConnForTest :: "byte list \<Rightarrow> wsconn" where
  "NewWSConnForTest bs = (newWSConn bs 1000000)\<lparr>validateUTF8 := False\<rparr>"

definition flush :: "byte list \<Rightarrow> wsconn \<Rightarrow> wsconn" where
  "flush bs c = (if raw_closed c then c else c\<lparr>outgoing := outgoing c @ bs\<rparr>)"

definition sendControl :: "byte \<Rightarrow> byte list \<Rightarrow> wsconn \<Rightarrow> wsconn" where
  "sendControl op p c = (case writeFrame op p of Inl _ \<Rightarrow> c | Inr bs \<Rightarrow> flush bs c)"

definition sendCloseCode :: "nat \<Rightarrow> wsconn \<Rightarrow> wsconn" where
  "sendCloseCode code c = (sendControl OpClose (be_bytes 2 code) c)\<lparr>raw_closed := True\<rparr>"

definition Close :: "wsconn \<Rightarrow> wsconn" where
  "Close c =
     (if ws_closed c then c
      else (sendControl OpClose [0x03, 0xE8] c)\<lparr>raw_closed := True, ws_closed := True\<rparr>)"

definition write_message :: "byte \<Rightarrow> string \<Rightarrow> wsconn \<Rightarrow> error option \<times> wsconn" where
  "write_message op p c =
     (if length p > maxPayload c \<and> maxPayload c > 0 then (Some ErrPayloadTooLarge, c)
      else if raw_closed c then (Some (ErrorString ''use of closed network connection''), c)
      else (case writeFrame op (bytes_of p) of Inl e \<Rightarrow> (Some e, c) | Inr bs \<Rightarrow> (None, flush bs c)))"

definition WriteText :: "string \<Rightarrow> wsconn \<Rightarrow> error option \<times> wsconn" where
  "WriteText p c = write_message OpText p c"

definition WriteBinary :: "string \<Rightarrow> wsconn \<Rightarrow> error option \<times> wsconn" where
  "WriteBinary p c = write_message OpBinary p c"

definition signalPong :: "wsconn \<Rightarrow> wsconn" where
  "signalPong c = c\<lparr>pongCh := True\<rparr>"

type_synonym received = "byte \<times> string \<times> error option"

fun handleEIO :: "byte \<Rightarrow> string \<Rightarrow> wsconn \<Rightarrow> received \<times> wsconn" where
  "handleEIO op [] c = ((op, [], None), c)"
| "handleEIO op (t # p) c =
     (if op = OpBinary then ((op, t # p, None), c)
      else if t = eioPong then handleEIO OpText p (signalPong c)
      else if t = eioMessage then ((OpText, p, None), c)
      else if t = eioPing then
        (if p = ''probe'' then ((OpText, t # p, None), c)
         else ((OpText, [], None), snd (WriteText (eioPong # p) c)))
      else if t = eioClose then ((OpClose, t # p, Some EOF), c)
      else if t = eioNoop then ((OpText, [], None), c)
      else ((OpText, t # p, None), c))"

text \<open>A complete message: the result of \<open>ReadMessage\<close>, or \<open>None\<close> to go on reading.\<close>

definition complete :: "byte \<Rightarrow> string \<Rightarrow> wsconn \<Rightarrow> received option \<times> wsconn" where
  "complete op m c =
     (if op = OpText \<and> validateUTF8 c \<and> \<not> Valid m
      then (Some (op, m, Some ErrProtocol), sendCloseCode 1007 c)
      else (case handleEIO op m c of ((hop, hmsg, herr), c) \<Rightarrow>
        if herr \<noteq> None then (Some (hop, hmsg, herr), c)
        else if hmsg = [] \<and> hop \<noteq> OpBinary then (None, c)
        else (Some (hop, hmsg, None), c)))"

text \<open>Writing leaves the read side and the configuration alone.\<close>

definition same_reader :: "wsconn \<Rightarrow> wsconn \<Rightarrow> bool" where
  "same_reader c c' \<longleftrightarrow> incoming c' = incoming c \<and> maxPayload c' = maxPayload c \<and> validateUTF8 c' = validateUTF8 c"

lemma same_reader_refl [simp]: "same_reader c c"
  by (simp add: same_reader_def)

lemma same_reader_trans: "same_reader c c1 \<Longrightarrow> same_reader c1 c2 \<Longrightarrow> same_reader c c2"
  by (simp add: same_reader_def)

lemma same_reader_write [simp]:
  "same_reader c (flush bs c)" "same_reader c (sendControl op p c)"
  "same_reader c (sendCloseCode code c)" "same_reader c (signalPong c)"
  "same_reader c (snd (WriteText s c))"
  by (auto simp: same_reader_def flush_def sendControl_def sendCloseCode_def signalPong_def WriteText_def
      write_message_def split: sum.splits)

lemma handleEIO_same: "same_reader c (snd (handleEIO op m c))"
proof (induction op m c rule: handleEIO.induct)
  case (2 op t p c)
  then show ?case
    using same_reader_trans [OF same_reader_write(4) [of c], of "snd (handleEIO OpText p (signalPong c))"] by simp
qed simp

lemma complete_same: "complete op m c = (x, c') \<Longrightarrow> same_reader c c'"
proof -
  assume h: "complete op m c = (x, c')"
  obtain hop hmsg herr d where d: "handleEIO op m c = ((hop, hmsg, herr), d)" by (metis prod_cases3 surj_pair)
  have "same_reader c d" using handleEIO_same [of c op m] d by simp
  then show ?thesis using h d by (simp add: complete_def split: if_splits) auto
qed

lemma readFrame_shorter: "readFrame maxp s = Inr (f, r) \<Longrightarrow> length r < length s"
  using readFrame_sound [of maxp s "fst f" "fst (snd f)" "snd (snd f)" r] by simp

text \<open>
  One pass through the loop of \<open>ReadMessage\<close>: a result, or the loop variables \<open>fragmented\<close>,
  \<open>opcode\<close> and \<open>msg\<close> to go on with.
\<close>

definition read_step ::
    "bool \<Rightarrow> byte \<Rightarrow> string \<Rightarrow> wsconn \<Rightarrow> (received + bool \<times> byte \<times> string) \<times> wsconn" where
  "read_step fragmented opcode msg c =
     (case readFrame (maxPayload c) (incoming c) of
        Inl e \<Rightarrow>
          (Inl (0, [], Some e), if e = ErrUnmaskedFrame \<or> e = ErrProtocol then sendCloseCode 1002 c else c)
      | Inr ((fin, op, p), r) \<Rightarrow>
          (let c = c\<lparr>incoming := r\<rparr>; continue = Inr (fragmented, opcode, msg);
               protocol_error = (Inl (0, [], Some ErrProtocol), sendCloseCode 1002 c)
           in
           if op = OpPing then (continue, sendControl OpPong p c)
           else if op = OpPong then (continue, signalPong c)
           else if op = OpClose then (Inl (OpClose, text_of p, Some EOF), sendControl OpClose p c)
           else if op = OpContinuation then
             (if \<not> fragmented then protocol_error
              else if length msg + length p > maxPayload c \<and> maxPayload c > 0
                then (Inl (0, [], Some ErrPayloadTooLarge), c)
              else
                (let msg = msg @ text_of p in
                 if fin then
                   (case complete opcode msg c of
                      (Some res, c) \<Rightarrow> (Inl res, c) | (None, c) \<Rightarrow> (Inr (False, opcode, msg), c))
                 else (Inr (True, opcode, msg), c)))
           else if op \<noteq> OpText \<and> op \<noteq> OpBinary then protocol_error
           else if fragmented then protocol_error
           else if fin then
             (case complete op (text_of p) c of (Some res, c) \<Rightarrow> (Inl res, c) | (None, c) \<Rightarrow> (continue, c))
           else (Inr (True, op, text_of p), c)))"

lemma complete_pair: "complete op m c = (x, c') \<Longrightarrow> incoming c' = incoming c"
  using complete_same [of op m c x c'] by (simp add: same_reader_def)

lemma reader_simps [simp]:
  "incoming (sendControl op p c) = incoming c" "incoming (signalPong c) = incoming c"
  "incoming (sendCloseCode code c) = incoming c"
  "maxPayload (sendControl op p c) = maxPayload c" "maxPayload (signalPong c) = maxPayload c"
  "validateUTF8 (sendControl op p c) = validateUTF8 c" "validateUTF8 (signalPong c) = validateUTF8 c"
  using same_reader_write [of c] by (simp_all add: same_reader_def)

lemma read_step_shorter:
  assumes "read_step fragmented opcode msg c = (Inr st, c')" shows "length (incoming c') < length (incoming c)"
proof -
  obtain f r where f: "readFrame (maxPayload c) (incoming c) = Inr (f, r)"
    using assms by (cases "readFrame (maxPayload c) (incoming c)") (auto simp: read_step_def)
  obtain fin op p where [simp]: "f = (fin, op, p)" by (cases f)
  have "incoming c' = r" using assms f
    by (auto simp: read_step_def Let_def split: if_splits prod.splits option.splits dest!: complete_pair)
  then show ?thesis using readFrame_shorter [OF f] by simp
qed

function read_loop :: "bool \<Rightarrow> byte \<Rightarrow> string \<Rightarrow> wsconn \<Rightarrow> received \<times> wsconn" where
  "read_loop fragmented opcode msg c =
     (case read_step fragmented opcode msg c of
        (Inl res, c') \<Rightarrow> (res, c')
      | (Inr (fragmented', opcode', msg'), c') \<Rightarrow> read_loop fragmented' opcode' msg' c')"
  by pat_completeness auto
termination
  by (relation "measure (\<lambda>(_, _, _, c). length (incoming c))") (auto simp: read_step_shorter [OF sym])

declare read_loop.simps [simp del]

definition ReadMessage :: "wsconn \<Rightarrow> received \<times> wsconn" where
  "ReadMessage c = read_loop False 0 [] c"

subsection \<open>Invariants of the read loop\<close>

lemma read_loop_rule:
  assumes step: "\<And>f opc m c f' opc' m' c'. I f opc m c \<Longrightarrow> read_step f opc m c = (Inr (f', opc', m'), c') \<Longrightarrow> I f' opc' m' c'"
    and final: "\<And>f opc m c res c'. I f opc m c \<Longrightarrow> read_step f opc m c = (Inl res, c') \<Longrightarrow> Q res c'"
  shows "I f opc m c \<Longrightarrow> read_loop f opc m c = (res, c') \<Longrightarrow> Q res c'"
proof (induction f opc m c rule: read_loop.induct)
  case (1 f opc m c)
  obtain x d where x: "read_step f opc m c = (x, d)" by fastforce
  show ?case
  proof (cases x)
    case (Inl r)
    then have "read_loop f opc m c = (r, d)" using x by (simp add: read_loop.simps [of f opc m c])
    then show ?thesis using final [OF "1.prems"(1), of r d] "1.prems"(2) x Inl by simp
  next
    case (Inr st)
    obtain f1 y where st: "st = (f1, y)" by (cases st)
    obtain opc1 m1 where y: "y = (opc1, m1)" by (cases y)
    have "read_loop f opc m c = read_loop f1 opc1 m1 d"
      using x Inr by (simp add: read_loop.simps [of f opc m c] st y)
    then show ?thesis
      using "1.IH" [OF x [symmetric] Inr st [symmetric] y [symmetric]] step [OF "1.prems"(1)] "1.prems"(2)
        x Inr st y by simp
  qed
qed

lemma handleEIO_result:
  "handleEIO op m c = ((hop, hmsg, None), c') \<Longrightarrow> op = OpText \<or> op = OpBinary \<Longrightarrow>
   hop = op \<and> length hmsg \<le> length m \<and> (Valid m \<longrightarrow> Valid hmsg)"
proof (induction op m c rule: handleEIO.induct)
  case (2 op t p c)
  have tail: "Valid p" if "Valid (t # p)" "t \<in> {eioPong, eioMessage}"
    using that Valid_ascii_Cons [of t p] by (auto simp: less_char_def)
  show ?case
  proof (cases "op \<noteq> OpBinary \<and> t = eioPong")
    case True
    then show ?thesis using 2 tail by auto
  next
    case False
    then show ?thesis using "2.prems" tail by (auto split: if_splits)
  qed
qed auto

lemma handleEIO_error: "handleEIO op m c = ((hop, hmsg, Some e), c') \<Longrightarrow> e = EOF"
  by (induction op m c rule: handleEIO.induct) (auto split: if_splits)

lemma complete_result:
  assumes "complete op m c = (Some (hop, hmsg, None), c')" "op = OpText \<or> op = OpBinary" "validateUTF8 c"
  shows "hop = op \<and> length hmsg \<le> length m \<and> (hop = OpText \<longrightarrow> Valid hmsg \<and> hmsg \<noteq> [])"
proof -
  have "\<not> (op = OpText \<and> \<not> Valid m)" and "handleEIO op m c = ((hop, hmsg, None), c')"
    "hmsg \<noteq> [] \<or> hop = OpBinary"
    using assms(1,3) by (auto simp: complete_def split: if_splits prod.splits)
  then show ?thesis using handleEIO_result [of op m c hop hmsg c'] assms(2) by auto
qed

definition reading :: "nat \<Rightarrow> nat \<Rightarrow> bool \<Rightarrow> byte \<Rightarrow> string \<Rightarrow> wsconn \<Rightarrow> bool" where
  "reading maxp n f opc m c \<longleftrightarrow>
     validateUTF8 c \<and> maxPayload c = maxp \<and> 0 < maxp \<and> length (incoming c) \<le> n \<and>
     (f \<longrightarrow> (opc = OpText \<or> opc = OpBinary) \<and> length m \<le> maxp)"

lemma reading_step:
  assumes "reading maxp n f opc m c" "read_step f opc m c = (Inr (f', opc', m'), c')"
  shows "reading maxp n f' opc' m' c'"
proof -
  obtain fin op p r where f: "readFrame (maxPayload c) (incoming c) = Inr ((fin, op, p), r)"
    using assms(2) by (cases "readFrame (maxPayload c) (incoming c)") (auto simp: read_step_def)
  have "length p \<le> maxp" "length r \<le> n"
    using readFrame_sound [OF f] assms(1) by (auto simp: reading_def frame_ok_def)
  then show ?thesis using assms f
    by (auto simp: reading_def read_step_def Let_def same_reader_def
        split: if_splits prod.splits option.splits dest!: complete_same)
qed

definition valid_message :: "nat \<Rightarrow> nat \<Rightarrow> received \<Rightarrow> wsconn \<Rightarrow> bool" where
  "valid_message maxp n res c' \<longleftrightarrow>
     (case res of (op, m, err) \<Rightarrow> err = None \<longrightarrow>
       (op = OpText \<and> m \<noteq> [] \<and> Valid m \<or> op = OpBinary) \<and> length m \<le> maxp \<and> length (incoming c') < n)"

lemma reading_final:
  assumes "reading maxp n f opc m c" "read_step f opc m c = (Inl res, c')"
  shows "valid_message maxp n res c'"
proof (cases "readFrame (maxPayload c) (incoming c)")
  case (Inl e)
  then show ?thesis using assms(2) by (auto simp: read_step_def valid_message_def)
next
  case (Inr fr)
  obtain fin op p r where [simp]: "fr = ((fin, op, p), r)" by (metis prod_cases3 surj_pair)
  have f: "length p \<le> maxp" "length r < n" "maxPayload c = maxp" "0 < maxp" "validateUTF8 c"
    using readFrame_sound [of maxp "incoming c" fin op p r] Inr assms(1) by (auto simp: reading_def frame_ok_def)
  have deliver: "valid_message maxp n res c'"
    if "complete op' msg (c\<lparr>incoming := r\<rparr>) = (Some res, c')" "op' = OpText \<or> op' = OpBinary" "length msg \<le> maxp" for op' msg
  proof -
    have "incoming c' = r" using complete_pair [OF that(1)] by simp
    then show ?thesis
      using complete_result [of op' msg "c\<lparr>incoming := r\<rparr>"] that f by (auto simp: valid_message_def split: prod.splits)
  qed
  consider "op = OpContinuation" "f" "fin" "length m + length p \<le> maxp"
      "complete opc (m @ text_of p) (c\<lparr>incoming := r\<rparr>) = (Some res, c')"
    | "op = OpText \<or> op = OpBinary" "complete op (text_of p) (c\<lparr>incoming := r\<rparr>) = (Some res, c')"
    | "snd (snd res) \<noteq> None"
    using assms(2) Inr f(3,4) by (auto simp: read_step_def Let_def split: if_splits prod.splits option.splits)
  then show ?thesis
  proof cases
    case 1
    then show ?thesis using deliver [OF 1(5)] assms(1) by (auto simp: reading_def)
  next
    case 2
    then show ?thesis using deliver [OF 2(2)] f(1) by auto
  next
    case 3
    then show ?thesis by (auto simp: valid_message_def)
  qed
qed

lemma handleEIO_raw: "handleEIO op m c = (res, c') \<Longrightarrow> raw_closed c' = raw_closed c"
  by (induction op m c rule: handleEIO.induct)
    (auto simp: WriteText_def write_message_def flush_def signalPong_def split: if_splits sum.splits)

definition closed_with_code :: "wsconn \<Rightarrow> bool" where
  "closed_with_code c \<longleftrightarrow>
     raw_closed c \<and> (\<exists>out code. outgoing c = out @ [0x88, 0x02] @ be_bytes 2 code \<and> code \<in> {1002, 1007})"

lemma sendCloseCode_closes:
  "\<not> raw_closed c \<Longrightarrow> code \<in> {1002, 1007} \<Longrightarrow> closed_with_code (sendCloseCode code c)"
  by (auto simp: closed_with_code_def sendCloseCode_def sendControl_def writeFrame_def flush_def)

lemma complete_raw:
  assumes "complete op m c = (x, c')" "\<not> raw_closed c"
  shows "(x = None \<longrightarrow> \<not> raw_closed c') \<and>
    (\<forall>hop hmsg e. x = Some (hop, hmsg, Some e) \<longrightarrow> e = EOF \<or> closed_with_code c')"
  using assms sendCloseCode_closes [of c 1007]
  by (auto simp: complete_def dest: handleEIO_raw handleEIO_error split: if_splits prod.splits)

lemma open_step:
  assumes "\<not> raw_closed c" "read_step f opc m c = (x, c')"
  shows "case x of Inr _ \<Rightarrow> \<not> raw_closed c'
    | Inl (_, _, err) \<Rightarrow> err = Some ErrProtocol \<or> err = Some ErrUnmaskedFrame \<longrightarrow> closed_with_code c'"
proof (cases "readFrame (maxPayload c) (incoming c)")
  case (Inl e)
  then show ?thesis using assms sendCloseCode_closes [of c 1002] by (auto simp: read_step_def split: if_splits)
next
  case (Inr fr)
  obtain fin op p r where [simp]: "fr = ((fin, op, p), r)" by (metis prod_cases3 surj_pair)
  let ?d = "c\<lparr>incoming := r\<rparr>"
  have d: "\<not> raw_closed ?d" "\<not> raw_closed (sendControl OpPong p ?d)" "\<not> raw_closed (signalPong ?d)"
    using assms(1) by (auto simp: sendControl_def flush_def signalPong_def split: sum.splits)
  have c: "case y of None \<Rightarrow> \<not> raw_closed c1
      | Some (_, _, err) \<Rightarrow> err = Some ErrProtocol \<or> err = Some ErrUnmaskedFrame \<longrightarrow> closed_with_code c1"
    if "complete op' msg ?d = (y, c1)" for op' msg y c1
    using complete_raw [OF that d(1)] by (auto split: option.splits)
  show ?thesis
    using assms(2) Inr d sendCloseCode_closes [OF d(1), of 1002]
    by (auto simp: read_step_def Let_def split: if_splits prod.splits option.splits dest!: c)
qed

subsection \<open>Reassembly\<close>

text \<open>What a peer sends around and inside one message: pings, pongs, and all but the last chunk.\<close>

datatype piece = Ping "byte list" | Pong "byte list" | Chunk "byte list"

fun message_frames :: "byte \<Rightarrow> piece list \<Rightarrow> byte list \<Rightarrow> frame list" where
  "message_frames op [] q = [(True, op, q)]"
| "message_frames op (Ping p # ps) q = (True, OpPing, p) # message_frames op ps q"
| "message_frames op (Pong p # ps) q = (True, OpPong, p) # message_frames op ps q"
| "message_frames op (Chunk p # ps) q = (False, op, p) # message_frames OpContinuation ps q"

fun chunks :: "piece list \<Rightarrow> byte list" where
  "chunks [] = []"
| "chunks (Chunk p # ps) = p @ chunks ps"
| "chunks (_ # ps) = chunks ps"

fun answer :: "piece list \<Rightarrow> wsconn \<Rightarrow> wsconn" where
  "answer [] c = c"
| "answer (Ping p # ps) c = answer ps (sendControl OpPong p c)"
| "answer (Pong p # ps) c = answer ps (signalPong c)"
| "answer (Chunk p # ps) c = answer ps c"

lemma write_incoming [simp]:
  "sendControl op p (c\<lparr>incoming := r\<rparr>) = (sendControl op p c)\<lparr>incoming := r\<rparr>"
  "signalPong (c\<lparr>incoming := r\<rparr>) = (signalPong c)\<lparr>incoming := r\<rparr>"
  by (simp_all add: sendControl_def flush_def signalPong_def split: sum.splits)

lemma answer_incoming [simp]: "answer ps (c\<lparr>incoming := r\<rparr>) = (answer ps c)\<lparr>incoming := r\<rparr>"
  by (induction ps c rule: answer.induct) auto

lemma read_loop_next:
  "read_step f opc m c = (Inr (f', opc', m'), c') \<Longrightarrow> read_loop f opc m c = read_loop f' opc' m' c'"
  "read_step f opc m c = (Inl res, c') \<Longrightarrow> read_loop f opc m c = (res, c')"
  by (simp_all add: read_loop.simps [of f opc m c])

lemma read_loop_message:
  assumes "map snd kfs = message_frames (if f then OpContinuation else op) ps q"
    and "op = OpText \<or> op = OpBinary" "f \<longrightarrow> opc = op"
    and "list_all (\<lambda>(k, fr). frame_ok (maxPayload c) fr) kfs"
    and "incoming c = concat (map (\<lambda>(k, fr). client_frame k fr) kfs) @ rest"
    and "length (if f then m else []) + length (chunks ps) + length q \<le> maxPayload c"
    and "complete op ((if f then m else []) @ text_of (chunks ps @ q)) ((answer ps c)\<lparr>incoming := rest\<rparr>) = (Some res, c')"
  shows "read_loop f opc m c = (res, c')"
  using assms
proof (induction ps arbitrary: kfs f opc m c)
  case Nil
  then obtain k where k: "kfs = [(k, (True, if f then OpContinuation else op, q))]" by auto
  have "readFrame (maxPayload c) (incoming c) = Inr ((True, if f then OpContinuation else op, q), rest)"
    using Nil.prems(4,5) by (simp add: k readFrame_client_frame)
  then show ?case using Nil.prems by (intro read_loop_next(2)) (auto simp: read_step_def split: if_splits)
next
  case (Cons a ps)
  obtain k fr kfs' where k: "kfs = (k, fr) # kfs'" using Cons.prems(1) by (cases kfs; cases a) auto
  let ?r = "concat (map (\<lambda>(k, fr). client_frame k fr) kfs') @ rest"
  have rf: "readFrame (maxPayload c) (incoming c) = Inr (fr, ?r)"
    using Cons.prems(4,5) by (simp add: k readFrame_client_frame)
  show ?case
  proof (cases a)
    case (Ping p)
    then have fr: "fr = (True, OpPing, p)" using Cons.prems(1) by (simp add: k)
    have "read_step f opc m c = (Inr (f, opc, m), (sendControl OpPong p c)\<lparr>incoming := ?r\<rparr>)"
      using rf by (simp add: read_step_def fr)
    moreover have "read_loop f opc m ((sendControl OpPong p c)\<lparr>incoming := ?r\<rparr>) = (res, c')"
      using Cons.prems Ping by (intro Cons.IH [of kfs']) (auto simp: k)
    ultimately show ?thesis using read_loop_next(1) by simp
  next
    case (Pong p)
    then have fr: "fr = (True, OpPong, p)" using Cons.prems(1) by (simp add: k)
    have "read_step f opc m c = (Inr (f, opc, m), (signalPong c)\<lparr>incoming := ?r\<rparr>)"
      using rf by (simp add: read_step_def fr)
    moreover have "read_loop f opc m ((signalPong c)\<lparr>incoming := ?r\<rparr>) = (res, c')"
      using Cons.prems Pong by (intro Cons.IH [of kfs']) (auto simp: k)
    ultimately show ?thesis using read_loop_next(1) by simp
  next
    case (Chunk p)
    then have fr: "fr = (False, if f then OpContinuation else op, p)" using Cons.prems(1) by (auto simp: k)
    let ?m = "(if f then m else []) @ text_of p"
    have "read_step f opc m c = (Inr (True, op, ?m), c\<lparr>incoming := ?r\<rparr>)"
      using rf Cons.prems(2,3,6) Chunk by (auto simp: read_step_def fr)
    moreover have "read_loop True op ?m (c\<lparr>incoming := ?r\<rparr>) = (res, c')"
      using Cons.prems Chunk by (intro Cons.IH [of kfs']) (auto simp: k split: if_splits)
    ultimately show ?thesis using read_loop_next(1) by simp
  qed
qed

text \<open>A message cut up and interleaved with control frames in any way.\<close>

lemma ReadMessage_reassembles:
  assumes "op = OpText \<and> content = eioMessage # txt \<and> txt \<noteq> [] \<and> Valid txt \<or> op = OpBinary \<and> content = txt"
    and "text_of (chunks ps @ q) = content" "length content \<le> maxPayload c"
    and "map snd kfs = message_frames op ps q" "list_all (\<lambda>(k, fr). frame_ok (maxPayload c) fr) kfs"
    and "incoming c = concat (map (\<lambda>(k, fr). client_frame k fr) kfs) @ rest"
  shows "ReadMessage c = ((op, txt, None), (answer ps c)\<lparr>incoming := rest\<rparr>)"
proof -
  have "Valid (eioMessage # txt) \<longleftrightarrow> Valid txt" by (rule Valid_ascii_Cons) (simp add: less_char_def)
  then have "complete op content d = (Some (op, txt, None), d)" for d
    using assms(1) by (cases content) (auto simp: complete_def)
  moreover have "length (chunks ps) + length q \<le> maxPayload c"
    using assms(2,3) by (metis length_append length_text_of)
  ultimately show ?thesis
    unfolding ReadMessage_def using assms by (intro read_loop_message [where ps = ps and q = q and kfs = kfs]) auto
qed

subsection \<open>Properties\<close>


text \<open>C29. What \<open>ReadMessage\<close> delivers without an error: a non-empty valid UTF-8 text or a binary message,
  within the payload limit, and at least one frame has been consumed.\<close>

theorem delivered_message_valid:
  assumes "validateUTF8 c" "0 < maxPayload c" "ReadMessage c = ((op, m, None), c')"
  shows "(op = OpText \<and> m \<noteq> [] \<and> Valid m \<or> op = OpBinary) \<and> length m \<le> maxPayload c \<and>
    length (incoming c') < length (incoming c)"
proof -
  have "reading (maxPayload c) (length (incoming c)) False 0 [] c" using assms(1,2) by (simp add: reading_def)
  then have "valid_message (maxPayload c) (length (incoming c)) (op, m, None) c'"
    using assms(3) unfolding ReadMessage_def
    by (rule read_loop_rule [where I = "reading (maxPayload c) (length (incoming c))", rotated 2])
      (blast intro: reading_step reading_final)+
  then show ?thesis by (simp add: valid_message_def)
qed

text \<open>C30. A protocol violation closes the socket: whenever \<open>ReadMessage\<close> returns \<open>ErrProtocol\<close> or
  \<open>ErrUnmaskedFrame\<close>, the last frame written is a close frame with code 1002 or 1007 and the
  socket is closed.\<close>

theorem violation_closes:
  assumes "\<not> raw_closed c" "ReadMessage c = ((op, m, Some e), c')" "e = ErrProtocol \<or> e = ErrUnmaskedFrame"
  shows "raw_closed c' \<and> (\<exists>out code. outgoing c' = out @ [0x88, 0x02] @ be_bytes 2 code \<and> code \<in> {1002, 1007})"
proof -
  have "case (op, m, Some e) of (_, _, err) \<Rightarrow>
      err = Some ErrProtocol \<or> err = Some ErrUnmaskedFrame \<longrightarrow> closed_with_code c'"
    using assms(1,2) unfolding ReadMessage_def
    by (rule read_loop_rule [where I = "\<lambda>_ _ _ c. \<not> raw_closed c", rotated 2]) (auto dest: open_step)
  then show ?thesis using assms(3) by (auto simp: closed_with_code_def)
qed

subsection \<open>Witnesses\<close>

lemma ReadMessage_frame:
  assumes "incoming c = client_frame k (True, op, q) @ rest" "frame_ok (maxPayload c) (True, op, q)"
    and "op = OpText \<or> op = OpBinary" "length q \<le> maxPayload c"
    and "complete op (text_of q) (c\<lparr>incoming := rest\<rparr>) = (Some res, c')"
  shows "ReadMessage c = (res, c')"
  unfolding ReadMessage_def using assms
  by (intro read_loop_message [where ps = "[]" and q = q and kfs = "[(k, (True, op, q))]"]) auto

definition fragments :: "(bool \<times> byte \<times> byte list) list" where
  "fragments = [(False, OpText, [0x34, 0x68]), (True, OpPing, [0x07]), (True, OpContinuation, [0x69])]"

definition sample_conn :: wsconn where
  "sample_conn = newWSConn (concat (map (client_frame sample_key) fragments)) 100"

lemma Valid_hi: "Valid ''hi''"
  by (rule Valid_ascii) (simp add: less_char_def)

lemma char_codes: "char_of (52 :: nat) = CHR ''4''" "char_of (104 :: nat) = CHR ''h''" "char_of (105 :: nat) = CHR ''i''"
  by code_simp+


theorem delivered_message_valid_witness:
  "\<exists>c'. ReadMessage (newWSConn (client_frame sample_key sample_frame) 100) = ((OpText, ''hi'', None), c') \<and>
     Valid ''hi'' \<and> length ''hi'' \<le> 100"
proof -
  let ?c = "newWSConn (client_frame sample_key sample_frame) 100"
  have t: "text_of [0x34, 0x68, 0x69] = ''4hi''" by (simp add: text_of_def char_codes)
  have "Valid ''4hi''" by (rule Valid_ascii) (simp add: less_char_def)
  then have "ReadMessage ?c = ((OpText, ''hi'', None), ?c\<lparr>incoming := []\<rparr>)"
    using sample_frame_ok t
    by (intro ReadMessage_frame [of _ sample_key OpText "[0x34, 0x68, 0x69]" "[]"])
      (simp_all add: sample_frame_def newWSConn_def complete_def)
  from delivered_message_valid [OF _ _ this] this show ?thesis by (auto simp: newWSConn_def)
qed

theorem violation_closes_witness:
  "\<exists>c'. ReadMessage (newWSConn [0x81, 0x00] 100) = ((0, [], Some ErrUnmaskedFrame), c') \<and> raw_closed c'"
proof -
  let ?c = "newWSConn [0x81, 0x00] 100"
  have "readFrame 100 [0x81, 0x00] = Inl ErrUnmaskedFrame"
    by (simp add: readFrame_def ReadByte_def Let_def word_le_nat_alt)
  then have "ReadMessage ?c = ((0, [], Some ErrUnmaskedFrame), sendCloseCode 1002 ?c)"
    unfolding ReadMessage_def by (intro read_loop_next(2)) (simp add: read_step_def newWSConn_def)
  from violation_closes [OF _ this] this show ?thesis by (auto simp: newWSConn_def)
qed

end
