(* ===== verification/Poll_Conn.thy ===== *)
theory Poll_Conn
  imports WS_Conn Go_Base64
begin

section \<open>transport: a polling connection\<close>

text \<open>
  The model of \<open>PollConn\<close> of \<open>transport/transport.go\<close>. Its two channels of capacity 256 are
  queues, \<open>closed\<close> and the in-flight counters (0 or 1) are flags. A Go \<open>select\<close> with more than one
  ready case picks any of them: \<open>coins\<close> is the sequence of such picks, arbitrary in every theorem.
  A blocked \<open>ReadMessage\<close> is the result \<open>None\<close>; a \<open>WriteText\<close> into a full queue that nobody drains
  within its 500 ms times out.
\<close>

record pollconn =
  sendCh :: "string list"
  recvCh :: "string list"
  poll_closed :: bool
  poll_pongCh :: bool
  getInFlight :: bool
  postInFlight :: bool
  coins :: "bool list"

definition chan_cap :: nat where "chan_cap = 256"

definition newPollConn :: "bool list \<Rightarrow> pollconn" where
  "newPollConn cs =
     \<lparr>sendCh = [], recvCh = [], poll_closed = False, poll_pongCh = False,
      getInFlight = False, postInFlight = False, coins = cs\<rparr>"

text \<open>The pick between two ready cases.\<close>

definition toss :: "pollconn \<Rightarrow> bool \<times> pollconn" where
  "toss c = (case coins c of [] \<Rightarrow> (True, c) | b # bs \<Rightarrow> (b, c\<lparr>coins := bs\<rparr>))"

definition poll_Close :: "pollconn \<Rightarrow> pollconn" where
  "poll_Close c = c\<lparr>poll_closed := True\<rparr>"

definition poll_signalPong :: "pollconn \<Rightarrow> pollconn" where
  "poll_signalPong c = c\<lparr>poll_pongCh := True\<rparr>"

definition poll_WriteText :: "string \<Rightarrow> pollconn \<Rightarrow> error option \<times> pollconn" where
  "poll_WriteText p c =
     (let room = (length (sendCh c) < chan_cap);
          send = (\<lambda>c. (None, c\<lparr>sendCh := sendCh c @ [p]\<rparr>));
          gone = (\<lambda>c. (Some (ErrorString ''poll: connection closed''), c))
      in if room \<and> poll_closed c then (let (b, c) = toss c in if b then send c else gone c)
         else if room then send c
         else if poll_closed c then gone c
         else (Some (ErrorString ''poll: write timeout''), poll_Close c))"

definition poll_WriteBinary :: "string \<Rightarrow> pollconn \<Rightarrow> error option \<times> pollconn" where
  "poll_WriteBinary p c = poll_WriteText (CHR ''b'' # b64_encode p) c"

lemma toss_recvCh: "toss c = (b, c') \<Longrightarrow> recvCh c' = recvCh c \<and> sendCh c' = sendCh c \<and> poll_closed c' = poll_closed c"
  by (auto simp: toss_def split: list.splits)

lemma poll_WriteText_recvCh [simp]: "recvCh (snd (poll_WriteText p c)) = recvCh c"
  by (auto simp: poll_WriteText_def Let_def poll_Close_def dest: toss_recvCh split: prod.splits)

text \<open>A packet taken from the receive queue: a result, or \<open>None\<close> to take the next one.\<close>

definition poll_packet :: "string \<Rightarrow> pollconn \<Rightarrow> received option \<times> pollconn" where
  "poll_packet p c =
     (case p of
        [] \<Rightarrow> (None, c)
      | t # r \<Rightarrow>
          if t = CHR ''b'' then
            (case b64_decode r of
               None \<Rightarrow> (Some (0, [], Some ErrProtocol), c)
             | Some b \<Rightarrow> (Some (OpBinary, b, None), c))
          else if t = eioPong then (None, poll_signalPong c)
          else if t = eioPing then (None, snd (poll_WriteText [eioPong] c))
          else if t = eioMessage then (Some (OpText, r, None), c)
          else if t = eioClose then (Some (OpClose, p, Some EOF), c)
          else if t = eioNoop then (None, c)
          else (Some (OpText, p, None), c))"

definition poll_gone :: received where
  "poll_gone = (0, [], Some (ErrorString ''poll: connection closed''))"

text \<open>One pass through the loop of \<open>ReadMessage\<close>: blocked, a result, or another pass.\<close>

datatype poll_pass = Blocked | Got received | Again

definition poll_step :: "pollconn \<Rightarrow> poll_pass \<times> pollconn" where
  "poll_step c =
     (case recvCh c of
        [] \<Rightarrow> if poll_closed c then (Got poll_gone, c) else (Blocked, c)
      | p # ps \<Rightarrow>
          (let (take_it, c) = (if poll_closed c then toss c else (True, c)) in
           if \<not> take_it then (Got poll_gone, c)
           else (case poll_packet p (c\<lparr>recvCh := ps\<rparr>) of
               (Some res, c) \<Rightarrow> (Got res, c) | (None, c) \<Rightarrow> (Again, c))))"

lemma poll_packet_recvCh: "poll_packet p c = (x, c') \<Longrightarrow> recvCh c' = recvCh c"
  using poll_WriteText_recvCh [of "[eioPong]" c]
  by (auto simp: poll_packet_def poll_signalPong_def split: list.splits if_splits option.splits)

lemma poll_step_shorter: "poll_step c = (Again, c') \<Longrightarrow> length (recvCh c') < length (recvCh c)"
  by (auto simp: poll_step_def Let_def dest!: poll_packet_recvCh
      split: list.splits if_splits prod.splits option.splits)

function poll_ReadMessage :: "pollconn \<Rightarrow> received option \<times> pollconn" where
  "poll_ReadMessage c =
     (case poll_step c of
        (Blocked, c') \<Rightarrow> (None, c')
      | (Got res, c') \<Rightarrow> (Some res, c')
      | (Again, c') \<Rightarrow> poll_ReadMessage c')"
  by pat_completeness auto
termination
  by (relation "measure (\<lambda>c. length (recvCh c))") (auto simp: poll_step_shorter [OF sym])

declare poll_ReadMessage.simps [simp del]

subsection \<open>Heartbeats\<close>

text \<open>
  \<open>heartbeatLoop\<close>, the same loop for both kinds of connection: a ping at every tick, and the end of
  the connection when no pong has come by the timeout. One rule per ready case of its two
  \<open>select\<close> statements; \<open>put\<close>, \<open>close\<close>, \<open>gone\<close>, \<open>ready\<close> and \<open>accept\<close> are the operations of the connection.
\<close>

datatype heart = Idle | Waiting | Stopped

inductive heartbeat_step ::
  "(string \<Rightarrow> 'c \<Rightarrow> error option \<times> 'c) \<Rightarrow> ('c \<Rightarrow> 'c) \<Rightarrow> ('c \<Rightarrow> bool) \<Rightarrow> ('c \<Rightarrow> bool) \<Rightarrow> ('c \<Rightarrow> 'c) \<Rightarrow>
   heart \<times> 'c \<Rightarrow> heart \<times> 'c \<Rightarrow> bool"
  for put :: "string \<Rightarrow> 'c \<Rightarrow> error option \<times> 'c" and close :: "'c \<Rightarrow> 'c" and gone :: "'c \<Rightarrow> bool"
    and ready :: "'c \<Rightarrow> bool" and accept :: "'c \<Rightarrow> 'c"
where
  closed_idle: "gone c \<Longrightarrow> heartbeat_step put close gone ready accept (Idle, c) (Stopped, c)"
| ping: "put [eioPing] c = (None, c') \<Longrightarrow> heartbeat_step put close gone ready accept (Idle, c) (Waiting, c')"
| ping_failed: "put [eioPing] c = (Some e, c') \<Longrightarrow> heartbeat_step put close gone ready accept (Idle, c) (Stopped, c')"
| closed_waiting: "gone c \<Longrightarrow> heartbeat_step put close gone ready accept (Waiting, c) (Stopped, c)"
| pong: "ready c \<Longrightarrow> heartbeat_step put close gone ready accept (Waiting, c) (Idle, accept c)"
| timeout: "heartbeat_step put close gone ready accept (Waiting, c) (Stopped, close c)"

inductive_cases heartbeat_IdleE: "heartbeat_step put close gone ready accept (Idle, c) s"
inductive_cases heartbeat_WaitingE: "heartbeat_step put close gone ready accept (Waiting, c) s"
inductive_simps heartbeat_Stopped: "heartbeat_step put close gone ready accept (Stopped, c) s"

definition ws_heartbeat :: "heart \<times> wsconn \<Rightarrow> heart \<times> wsconn \<Rightarrow> bool" where
  "ws_heartbeat = heartbeat_step WriteText Close ws_closed pongCh (\<lambda>c. c\<lparr>pongCh := False\<rparr>)"

definition poll_heartbeat :: "heart \<times> pollconn \<Rightarrow> heart \<times> pollconn \<Rightarrow> bool" where
  "poll_heartbeat = heartbeat_step poll_WriteText poll_Close poll_closed poll_pongCh (\<lambda>c. c\<lparr>poll_pongCh := False\<rparr>)"

text \<open>Where \<open>heartbeatLoop\<close> of a WebSocket starts: a probe connection has none.\<close>

definition ws_heart :: "wsconn \<Rightarrow> heart" where
  "ws_heart c = (if heartbeat c then Idle else Stopped)"

subsection \<open>Reading the queue\<close>

lemma poll_ReadMessage_next:
  "poll_step c = (Again, c') \<Longrightarrow> poll_ReadMessage c = poll_ReadMessage c'"
  "poll_step c = (Got res, c') \<Longrightarrow> poll_ReadMessage c = (Some res, c')"
  "poll_step c = (Blocked, c') \<Longrightarrow> poll_ReadMessage c = (None, c')"
  by (simp_all add: poll_ReadMessage.simps [of c])

text \<open>Packets that carry no message: pongs, noops and empty ones.\<close>

definition idle_packet :: "string \<Rightarrow> bool" where
  "idle_packet p \<longleftrightarrow> p = [] \<or> hd p = eioPong \<or> hd p = eioNoop"

definition poll_wire :: "byte \<times> string \<Rightarrow> string" where
  "poll_wire m = (case m of (op, s) \<Rightarrow> if op = OpBinary then CHR ''b'' # b64_encode s else eioMessage # s)"

lemma poll_step_idle:
  assumes "idle_packet p" "\<not> poll_closed c" "recvCh c = p # ps"
  shows "\<exists>c'. poll_step c = (Again, c') \<and> recvCh c' = ps \<and> \<not> poll_closed c'"
  using assms by (cases p) (auto simp: poll_step_def poll_packet_def idle_packet_def poll_signalPong_def Let_def)

lemma poll_step_message:
  "\<not> poll_closed c \<Longrightarrow> op = OpText \<or> op = OpBinary \<Longrightarrow> recvCh c = poll_wire (op, s) # ps \<Longrightarrow>
   poll_step c = (Got (op, s, None), c\<lparr>recvCh := ps\<rparr>)"
  by (auto simp: poll_step_def poll_packet_def poll_wire_def base64.dec_enc)

lemma poll_ReadMessage_message:
  assumes "\<not> poll_closed c" "list_all idle_packet hs" "op = OpText \<or> op = OpBinary"
    and "recvCh c = hs @ poll_wire (op, s) # ps"
  shows "\<exists>c'. poll_ReadMessage c = (Some (op, s, None), c') \<and> recvCh c' = ps \<and> \<not> poll_closed c'"
  using assms
proof (induction hs arbitrary: c)
  case Nil
  then have "poll_step c = (Got (op, s, None), c\<lparr>recvCh := ps\<rparr>)" using poll_step_message [of c op s ps] by simp
  then show ?case using Nil.prems(1) by (simp add: poll_ReadMessage_next(2))
next
  case (Cons h hs)
  then obtain c1 where "poll_step c = (Again, c1)" "recvCh c1 = hs @ poll_wire (op, s) # ps" "\<not> poll_closed c1"
    using poll_step_idle [of h c] by auto
  then show ?case using Cons.IH [of c1] Cons.prems by (simp add: poll_ReadMessage_next(1))
qed

text \<open>Reading messages one after the other.\<close>

fun read_messages :: "nat \<Rightarrow> pollconn \<Rightarrow> (byte \<times> string) list option" where
  "read_messages 0 c = Some []"
| "read_messages (Suc n) c =
     (case poll_ReadMessage c of
        (Some (op, s, None), c') \<Rightarrow> map_option (\<lambda>ms. (op, s) # ms) (read_messages n c')
      | _ \<Rightarrow> None)"

lemma poll_blocked: "poll_ReadMessage c = (None, c') \<Longrightarrow> recvCh c' = [] \<and> \<not> poll_closed c'"
proof (induction c rule: poll_ReadMessage.induct)
  case (1 c)
  obtain x d where x: "poll_step c = (x, d)" by fastforce
  show ?case
  proof (cases x)
    case Blocked
    then have "d = c'" using 1(2) x by (simp add: poll_ReadMessage_next(3))
    then show ?thesis using x Blocked
      by (auto simp: poll_step_def Let_def split: list.splits if_splits prod.splits option.splits)
  next
    case (Got res)
    then show ?thesis using 1(2) x by (simp add: poll_ReadMessage_next(2))
  next
    case Again
    then show ?thesis using 1 x by (simp add: poll_ReadMessage_next(1))
  qed
qed

subsection \<open>Properties\<close>

text \<open>Polling delivers in order: the messages a client posts, text with the Engine.IO prefix and
  binary in base64, come out of \<open>ReadMessage\<close> one by one as they went in, whatever pongs, noops and
  empty packets are posted between them.\<close>

theorem poll_messages_delivered:
  assumes "\<not> poll_closed c" "list_all (\<lambda>(hs, op, s). list_all idle_packet hs \<and> (op = OpText \<or> op = OpBinary)) ms"
    and "recvCh c = concat (map (\<lambda>(hs, m). hs @ [poll_wire m]) ms)"
  shows "read_messages (length ms) c = Some (map snd ms)"
  using assms
proof (induction ms arbitrary: c)
  case (Cons a ms)
  obtain hs op s where a: "a = (hs, op, s)" by (cases a) auto
  obtain c1 where "poll_ReadMessage c = (Some (op, s, None), c1)"
    "recvCh c1 = concat (map (\<lambda>(hs, m). hs @ [poll_wire m]) ms)" "\<not> poll_closed c1"
    using poll_ReadMessage_message [of c hs op s "concat (map (\<lambda>(hs, m). hs @ [poll_wire m]) ms)"] Cons.prems a by auto
  then show ?case using Cons.IH [of c1] Cons.prems a by simp
qed simp

text \<open>\<open>ReadMessage\<close> of a polling connection blocks only when there is nothing to read: the receive
  queue is then empty and the connection open.\<close>

theorem poll_read_blocks_only_when_empty:
  assumes "poll_ReadMessage c = (None, c')" shows "recvCh c' = [] \<and> \<not> poll_closed c'"
  using poll_blocked [OF assms] .

text \<open>The send queue is bounded and loses nothing silently: \<open>WriteText\<close> either appends the packet at
  the end, within the capacity, or reports an error, leaves the queue as it was, and the connection
  is closed.\<close>

theorem poll_write_queues:
  assumes "poll_WriteText p c = (err, c')" "length (sendCh c) \<le> chan_cap"
  shows "length (sendCh c') \<le> chan_cap \<and>
    (if err = None then sendCh c' = sendCh c @ [p] else sendCh c' = sendCh c \<and> poll_closed c')"
  using assms
  by (auto simp: poll_WriteText_def Let_def poll_Close_def dest!: toss_recvCh split: if_splits prod.splits)

text \<open>A peer that does not answer is dropped: while a heartbeat waits with no pong in the channel, on
  an open connection, its only step is the timeout, which closes the connection and, for a
  WebSocket, the socket.\<close>

theorem silent_peer_dropped:
  "\<not> pongCh c \<and> \<not> ws_closed c \<Longrightarrow> ws_heartbeat (Waiting, c) s \<Longrightarrow>
     s = (Stopped, Close c) \<and> ws_closed (snd s) \<and> raw_closed (snd s)"
  unfolding ws_heartbeat_def by (auto elim!: heartbeat_WaitingE simp: Close_def)

subsection \<open>Witnesses\<close>

theorem poll_messages_delivered_witness:
  "read_messages 2 ((newPollConn [])\<lparr>recvCh := [[eioPong], ''4hi'', CHR ''b'' # b64_encode [CHR 0x00]]\<rparr>) =
     Some [(OpText, ''hi''), (OpBinary, [CHR 0x00])]"
  using poll_messages_delivered [of "(newPollConn [])\<lparr>recvCh := [[eioPong], ''4hi'', CHR ''b'' # b64_encode [CHR 0x00]]\<rparr>"
      "[([[eioPong]], OpText, ''hi''), ([], OpBinary, [CHR 0x00])]"]
  by (simp add: newPollConn_def idle_packet_def poll_wire_def numeral_2_eq_2)

theorem poll_read_blocks_only_when_empty_witness:
  "\<exists>c'. poll_ReadMessage (newPollConn []) = (None, c') \<and> recvCh c' = [] \<and> \<not> poll_closed c'"
proof -
  have "poll_ReadMessage (newPollConn []) = (None, newPollConn [])"
    by (rule poll_ReadMessage_next(3)) (simp add: poll_step_def newPollConn_def)
  from this poll_read_blocks_only_when_empty [OF this] show ?thesis by blast
qed

theorem poll_write_queues_witness:
  "\<exists>c'. poll_WriteText ''2'' (newPollConn []) = (None, c') \<and> sendCh c' = [''2''] \<and> length (sendCh c') \<le> chan_cap"
proof -
  obtain err c' where w: "poll_WriteText ''2'' (newPollConn []) = (err, c')" by fastforce
  then have "err = None" by (auto simp: poll_WriteText_def newPollConn_def chan_cap_def)
  with poll_write_queues [OF w] w show ?thesis by (auto simp: newPollConn_def)
qed

theorem silent_peer_dropped_witness:
  "ws_heartbeat (Waiting, newWSConn [] 10) (Stopped, Close (newWSConn [] 10)) \<and>
   raw_closed (snd (Stopped, Close (newWSConn [] 10)))"
proof -
  have s: "ws_heartbeat (Waiting, newWSConn [] 10) (Stopped, Close (newWSConn [] 10))"
    unfolding ws_heartbeat_def by (rule heartbeat_step.timeout)
  from silent_peer_dropped [OF _ s] s show ?thesis by (simp add: newWSConn_def)
qed

end
