(* ===== verification/Engine_State.thy ===== *)
theory Engine_State
  imports Poll_Conn Go_Strings
begin

section \<open>transport: sessions and connection slots\<close>

text \<open>
  The model of \<open>Options\<close>, \<open>sessionConn\<close> and the session tables of \<open>Server\<close> in
  \<open>transport/transport.go\<close>. The objects live on three heaps (list index = address): sessions,
  polling connections and WebSockets; \<open>active\<close> and \<open>pollSess\<close> map session ids to addresses, as the
  Go maps hold pointers. One critical section is one definition; the machine at the end interleaves
  them, with the slots acquired but not yet published as ghost state.
\<close>

subsection \<open>Session ids\<close>

text \<open>\<open>NewSID\<close>, from what \<open>crypto/rand\<close> gives for 16 bytes; a failure there is a panic.\<close>

definition NewSID :: "string option \<Rightarrow> string outcome" where
  "NewSID draw = (case draw of None \<Rightarrow> GoPanic ''crypto/rand'' | Some b \<Rightarrow> Return (raw_url_encode b))"

text \<open>An id has 22 letters of the URL alphabet, and different draws give different ids.\<close>

lemma NewSID_distinct:
  assumes "length b = 16" "NewSID (Some b) = Return i"
  shows "length i = 22 \<and> set i \<subseteq> url_letters \<and> (length c = 16 \<and> NewSID (Some c) = Return i \<longrightarrow> c = b)"
  using assms raw_url_letters [of b] raw_url_inj [of b c] by (auto simp: NewSID_def)

subsection \<open>Options\<close>

text \<open>Durations are nanoseconds; \<open>CheckOrigin\<close> is the optional user function, applied to the request.\<close>

record 'r options =
  PingInterval :: int
  PingTimeout :: int
  MaxPayload :: int
  AllowedOrigins :: "string list"
  CheckOrigin :: "('r \<Rightarrow> bool) option"
  MaxConnections :: int
  MaxConnectionsPerIP :: int
  MaxEventConcurrency :: int

definition second :: int where "second = 1000000000"

definition defaults :: "'r options \<Rightarrow> 'r options" where
  "defaults o1 =
     (let o2 = (if PingInterval o1 \<le> 0 then o1\<lparr>PingInterval := 25 * second\<rparr> else o1);
          o3 = (if PingTimeout o2 \<le> 0 then o2\<lparr>PingTimeout := 20 * second\<rparr> else o2);
          o4 = (if MaxPayload o3 \<le> 0 then o3\<lparr>MaxPayload := 1000000\<rparr> else o3)
      in if MaxEventConcurrency o4 \<le> 0 then o4\<lparr>MaxEventConcurrency := 32\<rparr> else o4)"

definition zero_options :: "'r options" where
  "zero_options =
     \<lparr>PingInterval = 0, PingTimeout = 0, MaxPayload = 0, AllowedOrigins = [], CheckOrigin = None,
      MaxConnections = 0, MaxConnectionsPerIP = 0, MaxEventConcurrency = 0\<rparr>"

subsection \<open>State\<close>

datatype link = PollLink nat | WSLink nat

record sessionConn =
  current :: link
  sc_closed :: bool
  sc_ip :: string
  sc_sid :: string

record 'r engine =
  opts :: "'r options"
  active :: "(string \<times> nat) list"
  ipCount :: "(string \<times> nat) list"
  pollSess :: "(string \<times> nat) list"
  connCh :: "nat list"
  srv_closed :: bool
  sess_heap :: "sessionConn list"
  poll_heap :: "pollconn list"
  ws_heap :: "wsconn list"

definition NewServer :: "'r options option \<Rightarrow> 'r engine" where
  "NewServer o_opt =
     \<lparr>opts = defaults (case o_opt of None \<Rightarrow> zero_options | Some o1 \<Rightarrow> o1), active = [], ipCount = [],
      pollSess = [], connCh = [], srv_closed = False, sess_heap = [], poll_heap = [], ws_heap = []\<rparr>"

subsection \<open>Connection slots\<close>

definition ip_count :: "'r engine \<Rightarrow> string \<Rightarrow> nat" where
  "ip_count s ip = (case map_of (ipCount s) ip of None \<Rightarrow> 0 | Some n \<Rightarrow> n)"

definition acquireConnSlot :: "string \<Rightarrow> 'r engine \<Rightarrow> error option \<times> 'r engine" where
  "acquireConnSlot ip s =
     (if MaxConnections (opts s) > 0 \<and> int (length (active s)) \<ge> MaxConnections (opts s)
      then (Some (ErrorString ''max connections limit reached''), s)
      else if MaxConnectionsPerIP (opts s) > 0 \<and> int (ip_count s ip) \<ge> MaxConnectionsPerIP (opts s)
      then (Some (ErrorString ''max connections per IP limit reached''), s)
      else (None, s\<lparr>ipCount := AList.update ip (ip_count s ip + 1) (ipCount s)\<rparr>))"

definition releaseConnSlot :: "string \<Rightarrow> 'r engine \<Rightarrow> 'r engine" where
  "releaseConnSlot ip s =
     (if ip_count s ip > 1 then s\<lparr>ipCount := AList.update ip (ip_count s ip - 1) (ipCount s)\<rparr>
      else s\<lparr>ipCount := AList.delete ip (ipCount s)\<rparr>)"

subsection \<open>Sessions\<close>

definition close_link :: "link \<Rightarrow> 'r engine \<Rightarrow> 'r engine" where
  "close_link l s =
     (case l of
        PollLink a \<Rightarrow> s\<lparr>poll_heap := (poll_heap s)[a := poll_Close (poll_heap s ! a)]\<rparr>
      | WSLink a \<Rightarrow> s\<lparr>ws_heap := (ws_heap s)[a := Close (ws_heap s ! a)]\<rparr>)"

text \<open>\<open>Remove\<close>: the session table and the slot, then the table of polling connections.\<close>

definition remove_active :: "string \<Rightarrow> 'r engine \<Rightarrow> 'r engine" where
  "remove_active i s =
     (case map_of (active s) i of
        None \<Rightarrow> s
      | Some a \<Rightarrow> releaseConnSlot (sc_ip (sess_heap s ! a)) (s\<lparr>active := AList.delete i (active s)\<rparr>))"

definition remove_poll :: "string \<Rightarrow> 'r engine \<Rightarrow> 'r engine" where
  "remove_poll i s =
     (let s = (case map_of (pollSess s) i of None \<Rightarrow> s | Some a \<Rightarrow> close_link (PollLink a) s)
      in s\<lparr>pollSess := AList.delete i (pollSess s)\<rparr>)"

definition Remove :: "string \<Rightarrow> 'r engine \<Rightarrow> 'r engine" where
  "Remove i s = remove_poll i (remove_active i s)"

definition RemoveConn :: "nat \<Rightarrow> 'r engine \<Rightarrow> 'r engine" where
  "RemoveConn a s =
     (case find (\<lambda>(_, v). v = a) (active s) of
        None \<Rightarrow> s
      | Some (i, _) \<Rightarrow> releaseConnSlot (sc_ip (sess_heap s ! a)) (s\<lparr>active := AList.delete i (active s)\<rparr>))"

definition Count :: "'r engine \<Rightarrow> nat" where
  "Count s = length (active s)"

text \<open>\<open>sessionConn.Close\<close>; its \<open>onClose\<close> is \<open>Remove\<close> with the session's id.\<close>

definition session_Close :: "nat \<Rightarrow> 'r engine \<Rightarrow> 'r engine" where
  "session_Close a s =
     (let s = close_link (current (sess_heap s ! a)) s in
      if sc_closed (sess_heap s ! a) then s
      else Remove (sc_sid (sess_heap s ! a)) (s\<lparr>sess_heap := (sess_heap s)[a := (sess_heap s ! a)\<lparr>sc_closed := True\<rparr>]\<rparr>))"

definition upgrade :: "nat \<Rightarrow> nat \<Rightarrow> 'r engine \<Rightarrow> 'r engine" where
  "upgrade a w s =
     (let old = current (sess_heap s ! a)
      in close_link old (s\<lparr>sess_heap := (sess_heap s)[a := (sess_heap s ! a)\<lparr>current := WSLink w\<rparr>]\<rparr>))"

definition session_WriteText :: "nat \<Rightarrow> string \<Rightarrow> 'r engine \<Rightarrow> error option \<times> 'r engine" where
  "session_WriteText a p s =
     (case current (sess_heap s ! a) of
        PollLink b \<Rightarrow>
          (let (e, c) = poll_WriteText p (poll_heap s ! b) in (e, s\<lparr>poll_heap := (poll_heap s)[b := c]\<rparr>))
      | WSLink b \<Rightarrow>
          (let (e, c) = WriteText p (ws_heap s ! b) in (e, s\<lparr>ws_heap := (ws_heap s)[b := c]\<rparr>)))"

definition session_WriteBinary :: "nat \<Rightarrow> string \<Rightarrow> 'r engine \<Rightarrow> error option \<times> 'r engine" where
  "session_WriteBinary a p s =
     (case current (sess_heap s ! a) of
        PollLink b \<Rightarrow>
          (let (e, c) = poll_WriteBinary p (poll_heap s ! b) in (e, s\<lparr>poll_heap := (poll_heap s)[b := c]\<rparr>))
      | WSLink b \<Rightarrow>
          (let (e, c) = WriteBinary p (ws_heap s ! b) in (e, s\<lparr>ws_heap := (ws_heap s)[b := c]\<rparr>)))"

definition link_ReadMessage :: "link \<Rightarrow> 'r engine \<Rightarrow> received option \<times> 'r engine" where
  "link_ReadMessage l s =
     (case l of
        PollLink b \<Rightarrow>
          (let (r, c) = poll_ReadMessage (poll_heap s ! b) in (r, s\<lparr>poll_heap := (poll_heap s)[b := c]\<rparr>))
      | WSLink b \<Rightarrow>
          (let (r, c) = ReadMessage (ws_heap s ! b) in (Some r, s\<lparr>ws_heap := (ws_heap s)[b := c]\<rparr>)))"

text \<open>
  \<open>sessionConn.ReadMessage\<close>: an error of a link that has been replaced meanwhile is dropped, and
  reading goes on with the new one. \<open>meanwhile\<close> is what others do to the state during the read.
\<close>

definition session_read_pass ::
    "('r engine \<Rightarrow> 'r engine) \<Rightarrow> nat \<Rightarrow> 'r engine \<Rightarrow> received option \<times> bool \<times> 'r engine" where
  "session_read_pass meanwhile a s =
     (let l = current (sess_heap s ! a);
          (r, s) = link_ReadMessage l s;
          s = meanwhile s
      in case r of
           None \<Rightarrow> (None, False, s)
         | Some (op, p, err) \<Rightarrow>
             if err = None then (r, False, s)
             else if current (sess_heap s ! a) \<noteq> l then (None, True, s)
             else (r, False, s))"

definition Accept :: "bool \<Rightarrow> 'r engine \<Rightarrow> (error + nat) option \<times> 'r engine" where
  "Accept pick s =
     (case connCh s of
        a # r \<Rightarrow>
          if srv_closed s \<and> \<not> pick then (Some (Inl (ErrorString ''transport: server closed'')), s)
          else (Some (Inr a), s\<lparr>connCh := r\<rparr>)
      | [] \<Rightarrow> if srv_closed s then (Some (Inl (ErrorString ''transport: server closed'')), s) else (None, s))"

definition srv_Close :: "'r engine \<Rightarrow> 'r engine" where
  "srv_Close s =
     (if srv_closed s then s
      else
        (let cs = map snd (active s);
             s = s\<lparr>srv_closed := True, active := [], ipCount := []\<rparr>;
             s = fold session_Close cs s
         in s\<lparr>pollSess := []\<rparr>))"

end
