(* ===== verification/Admission.thy ===== *)
theory Admission
  imports Engine_State "HOL-Library.Multiset"
begin

section \<open>transport: the connection limits\<close>

text \<open>
  The slot accounting of \<open>Server\<close> under arbitrary interleavings. A connection first acquires a slot
  for its address (\<open>acquireConnSlot\<close>), then, after the handshake, publishes its session in
  \<open>active\<close>, or fails and releases the slot. The ghost list of addresses that acquired a slot and did
  neither yet makes the books balance: \<open>ipCount\<close> is their number plus the sessions of the address.
\<close>

definition publish :: "string \<Rightarrow> string \<Rightarrow> link \<Rightarrow> 'r engine \<Rightarrow> nat \<times> 'r engine" where
  "publish i ip l s =
     (let a = length (sess_heap s)
      in (a, s\<lparr>sess_heap := sess_heap s @ [\<lparr>current = l, sc_closed = False, sc_ip = ip, sc_sid = i\<rparr>],
               active := AList.update i a (active s)\<rparr>))"

subsection \<open>What the operations do to the counters\<close>

lemma ip_count_release:
  "ip_count (releaseConnSlot ip s) x = (if x = ip then ip_count s ip - 1 else ip_count s x)"
  by (auto simp: releaseConnSlot_def ip_count_def split: option.splits)

lemma release_simps [simp]:
  "active (releaseConnSlot ip s) = active s" "sess_heap (releaseConnSlot ip s) = sess_heap s"
  "opts (releaseConnSlot ip s) = opts s" "pollSess (releaseConnSlot ip s) = pollSess s"
  by (simp_all add: releaseConnSlot_def)

lemma close_link_simps [simp]:
  "active (close_link l s) = active s" "sess_heap (close_link l s) = sess_heap s"
  "opts (close_link l s) = opts s" "ipCount (close_link l s) = ipCount s"
  "pollSess (close_link l s) = pollSess s" "srv_closed (close_link l s) = srv_closed s"
  by (simp_all add: close_link_def split: link.splits)

lemma ip_count_close_link [simp]: "ip_count (close_link l s) = ip_count s"
  by (simp add: ip_count_def fun_eq_iff)

lemma ip_count_cong: "ipCount s = ipCount t \<Longrightarrow> ip_count s = ip_count t"
  by (simp add: ip_count_def fun_eq_iff)

lemma remove_poll_simps [simp]:
  "active (remove_poll i s) = active s" "sess_heap (remove_poll i s) = sess_heap s"
  "opts (remove_poll i s) = opts s" "ipCount (remove_poll i s) = ipCount s"
  by (simp_all add: remove_poll_def Let_def split: option.splits)

lemma acquire_cases:
  assumes "acquireConnSlot ip s = (r, s')"
  obtains "r \<noteq> None" "s' = s"
  | "r = None" "s' = s\<lparr>ipCount := AList.update ip (ip_count s ip + 1) (ipCount s)\<rparr>"
    "\<not> (MaxConnections (opts s) > 0 \<and> int (length (active s)) \<ge> MaxConnections (opts s))"
    "\<not> (MaxConnectionsPerIP (opts s) > 0 \<and> int (ip_count s ip) \<ge> MaxConnectionsPerIP (opts s))"
  using assms by (auto simp: acquireConnSlot_def split: if_splits)

subsection \<open>The machine\<close>

datatype slot_event =
    EAcquire string
  | EFail string
  | EPublish string string link
  | ERemove string
  | ERemoveConn nat
  | ESessionClose nat

text \<open>An event that is not possible in a state changes nothing: a failure or a publication needs a pending
  slot, a publication a session id not in use (\<open>NewSID\<close> draws 128 random bits), a close an existing session.\<close>

fun slot_step :: "slot_event \<Rightarrow> 'r engine \<times> string list \<Rightarrow> 'r engine \<times> string list" where
  "slot_step (EAcquire ip) (s, pend) =
     (case acquireConnSlot ip s of (None, s) \<Rightarrow> (s, ip # pend) | (Some _, s) \<Rightarrow> (s, pend))"
| "slot_step (EFail ip) (s, pend) =
     (if ip \<in> set pend then (releaseConnSlot ip s, remove1 ip pend) else (s, pend))"
| "slot_step (EPublish i ip l) (s, pend) =
     (if ip \<in> set pend \<and> map_of (active s) i = None then (snd (publish i ip l s), remove1 ip pend) else (s, pend))"
| "slot_step (ERemove i) (s, pend) = (Remove i s, pend)"
| "slot_step (ERemoveConn a) (s, pend) = (RemoveConn a s, pend)"
| "slot_step (ESessionClose a) (s, pend) = (if a < length (sess_heap s) then session_Close a s else s, pend)"

definition held :: "'r engine \<Rightarrow> string list \<Rightarrow> string \<Rightarrow> nat" where
  "held s pend ip =
     count_list pend ip + length (filter (\<lambda>(_, a). sc_ip (sess_heap s ! a) = ip) (active s))"

definition slots_ok :: "'r options \<Rightarrow> 'r engine \<times> string list \<Rightarrow> bool" where
  "slots_ok op sp \<longleftrightarrow>
     (case sp of (s, pend) \<Rightarrow>
       opts s = op \<and> wf_map (active s) \<and> (\<forall>(i, a)\<in>set (active s). a < length (sess_heap s)) \<and>
       (\<forall>ip. ip_count s ip = held s pend ip) \<and>
       (MaxConnectionsPerIP op > 0 \<longrightarrow> (\<forall>ip. int (ip_count s ip) \<le> MaxConnectionsPerIP op)))"

lemma count_list_remove1: "x \<in> set xs \<Longrightarrow> count_list (remove1 x xs) y = count_list xs y - (if y = x then 1 else 0)"
  by (induction xs) (auto simp: count_list_0_iff)

lemma count_list_pos: "x \<in> set xs \<Longrightarrow> 0 < count_list xs x"
  by (simp add: count_list_0_iff zero_less_iff_neq_zero)

lemma filter_delete:
  assumes "wf_map m" "map_of m i = Some a"
  shows "length (filter (\<lambda>(_, b). P b) m) = length (filter (\<lambda>(_, b). P b) (AList.delete i m)) + (if P a then 1 else 0)"
  using assms
proof (induction m)
  case (Cons x m)
  obtain j b where x: "x = (j, b)" by (cases x)
  show ?case
  proof (cases "j = i")
    case True
    then have "AList.delete i m = m" using Cons.prems(1) x by (intro delete_not_in) simp
    then show ?thesis using Cons.prems(2) True x by simp
  next
    case False
    then show ?thesis using Cons x by simp
  qed
qed simp

lemma slots_okD:
  assumes "slots_ok op (s, pend)"
  shows "opts s = op" "wf_map (active s)" "(i, a) \<in> set (active s) \<Longrightarrow> a < length (sess_heap s)"
    "ip_count s ip = held s pend ip" "MaxConnectionsPerIP op > 0 \<Longrightarrow> int (ip_count s ip) \<le> MaxConnectionsPerIP op"
  using assms by (auto simp: slots_ok_def)

lemma slots_okI:
  assumes "opts s = op" "wf_map (active s)" "\<And>i a. (i, a) \<in> set (active s) \<Longrightarrow> a < length (sess_heap s)"
    "\<And>ip. ip_count s ip = held s pend ip"
    "\<And>ip. MaxConnectionsPerIP op > 0 \<Longrightarrow> int (ip_count s ip) \<le> MaxConnectionsPerIP op"
  shows "slots_ok op (s, pend)"
  using assms by (auto simp: slots_ok_def)

lemma slots_ok_shrink:
  assumes "slots_ok op (s, pend)" "opts t = opts s" "wf_map (active t)" "set (active t) \<subseteq> set (active s)"
    and "sess_heap t = sess_heap s" "\<And>ip. ip_count t ip = held t pend' ip" "\<And>ip. ip_count t ip \<le> ip_count s ip"
  shows "slots_ok op (t, pend')"
proof (rule slots_okI)
  fix ip assume "MaxConnectionsPerIP op > 0"
  then have "int (ip_count s ip) \<le> MaxConnectionsPerIP op" by (rule slots_okD(5) [OF assms(1)])
  then show "int (ip_count t ip) \<le> MaxConnectionsPerIP op" using assms(7) [of ip] by simp
qed (use assms slots_okD [OF assms(1)] in auto)

lemma remove_active_ok: "slots_ok op (s, pend) \<Longrightarrow> slots_ok op (remove_active i s, pend)"
proof (cases "map_of (active s) i")
  case (Some a)
  assume ok: "slots_ok op (s, pend)"
  let ?ip = "sc_ip (sess_heap s ! a)"
  let ?t = "s\<lparr>active := AList.delete i (active s)\<rparr>"
  have wf: "wf_map (active s)" using ok by (simp add: slots_ok_def)
  have h: "held s pend ip = held ?t pend ip + (if ip = ?ip then 1 else 0)" for ip
    using filter_delete [OF wf Some, of "\<lambda>b. sc_ip (sess_heap s ! b) = ip"] by (auto simp: held_def)
  have "ip_count ?t = ip_count s" by (rule ip_count_cong) simp
  then have "ip_count (releaseConnSlot ?ip ?t) ip = held (releaseConnSlot ?ip ?t) pend ip" for ip
    using ok h [of ip] by (auto simp: slots_ok_def ip_count_release held_def)
  moreover have "ip_count (releaseConnSlot ?ip ?t) ip \<le> ip_count s ip" for ip
    using \<open>ip_count ?t = ip_count s\<close> by (simp add: ip_count_release)
  ultimately have "slots_ok op (releaseConnSlot ?ip ?t, pend)"
    using wf by (intro slots_ok_shrink [OF ok]) (auto simp: set_delete)
  then show ?thesis using Some by (simp add: remove_active_def)
qed (simp add: remove_active_def)

lemma remove_active_simps [simp]: "sess_heap (remove_active i s) = sess_heap s"
  by (simp add: remove_active_def split: option.splits)

lemma slots_ok_cong:
  "slots_ok op (s, pend) \<Longrightarrow> opts t = opts s \<Longrightarrow> active t = active s \<Longrightarrow> ipCount t = ipCount s \<Longrightarrow>
   map sc_ip (sess_heap t) = map sc_ip (sess_heap s) \<Longrightarrow> slots_ok op (t, pend)"
proof -
  assume h: "slots_ok op (s, pend)" "opts t = opts s" "active t = active s" "ipCount t = ipCount s"
    "map sc_ip (sess_heap t) = map sc_ip (sess_heap s)"
  have len: "length (sess_heap t) = length (sess_heap s)" using map_eq_imp_length_eq [OF h(5)] .
  have "sc_ip (sess_heap t ! a) = sc_ip (sess_heap s ! a)" if "a < length (sess_heap s)" for a
    using h(5) that len by (metis nth_map)
  then have "held t pend ip = held s pend ip" for ip
    using h(1,3) unfolding held_def by (auto simp: slots_ok_def intro!: arg_cong [where f = length] filter_cong)
  then show ?thesis
    using h(2-4) len ip_count_cong [of t s] slots_okD [OF h(1)] by (intro slots_okI) simp_all
qed

lemma Remove_ok: "slots_ok op (s, pend) \<Longrightarrow> slots_ok op (Remove i s, pend)"
  unfolding Remove_def by (rule slots_ok_cong [OF remove_active_ok]) simp_all

lemma RemoveConn_active:
  assumes "wf_map (active s)"
  shows "\<exists>i. RemoveConn a s = s \<or> (RemoveConn a s = remove_active i s \<and> map_of (active s) i = Some a)"
proof (cases "find (\<lambda>(_, v). v = a) (active s)")
  case None
  then show ?thesis by (simp add: RemoveConn_def)
next
  case (Some x)
  then obtain i where x: "x = (i, a)" "(i, a) \<in> set (active s)"
    by (cases x) (auto simp: find_Some_iff dest: nth_mem)
  then have "map_of (active s) i = Some a" using assms by simp
  then show ?thesis using Some x by (intro exI [of _ i]) (simp add: RemoveConn_def remove_active_def)
qed

lemma RemoveConn_ok: "slots_ok op (s, pend) \<Longrightarrow> slots_ok op (RemoveConn a s, pend)"
  using RemoveConn_active [OF slots_okD(2), of op s pend a] remove_active_ok by metis

lemma session_Close_ok: "slots_ok op (s, pend) \<Longrightarrow> slots_ok op (session_Close a s, pend)"
proof -
  assume ok: "slots_ok op (s, pend)"
  let ?s = "close_link (current (sess_heap s ! a)) s"
  have 1: "slots_ok op (?s, pend)" by (rule slots_ok_cong [OF ok]) simp_all
  have "map sc_ip ((sess_heap s)[a := (sess_heap s ! a)\<lparr>sc_closed := True\<rparr>]) = map sc_ip (sess_heap s)"
    by (rule nth_equalityI) (auto simp: nth_update)
  then have "slots_ok op (?s\<lparr>sess_heap := (sess_heap ?s)[a := (sess_heap ?s ! a)\<lparr>sc_closed := True\<rparr>]\<rparr>, pend)"
    by (intro slots_ok_cong [OF 1]) simp_all
  from Remove_ok [OF this] 1 show ?thesis by (simp add: session_Close_def Let_def)
qed

lemma acquire_ok:
  assumes ok: "slots_ok op (s, pend)" and acq: "acquireConnSlot ip s = (None, s')"
  shows "slots_ok op (s', ip # pend)"
  using acq
proof (cases rule: acquire_cases)
  case 2
  have "ip_count s' x = ip_count s x + (if x = ip then 1 else 0)" for x
    by (simp add: 2(2) ip_count_def)
  moreover have "held s' (ip # pend) x = held s pend x + (if x = ip then 1 else 0)" for x
    by (simp add: held_def 2(2))
  ultimately show ?thesis using ok 2(2,4) by (auto simp: slots_ok_def)
qed simp

lemma fail_ok:
  assumes ok: "slots_ok op (s, pend)" and "ip \<in> set pend"
  shows "slots_ok op (releaseConnSlot ip s, remove1 ip pend)"
proof -
  have "held (releaseConnSlot ip s) (remove1 ip pend) x = held s pend x - (if x = ip then 1 else 0)" for x
    using count_list_remove1 [OF assms(2), of x] count_list_pos [OF assms(2)] by (simp add: held_def)
  moreover have "ip_count s x = held s pend x" for x by (rule slots_okD(4) [OF ok])
  ultimately have "ip_count (releaseConnSlot ip s) x = held (releaseConnSlot ip s) (remove1 ip pend) x" for x
    by (simp add: ip_count_release)
  moreover have "ip_count (releaseConnSlot ip s) x \<le> ip_count s x" for x by (simp add: ip_count_release)
  ultimately show ?thesis using slots_okD(2) [OF ok] by (intro slots_ok_shrink [OF ok]) simp_all
qed

lemma publish_ok:
  assumes ok: "slots_ok op (s, pend)" and "ip \<in> set pend" "map_of (active s) i = None"
  shows "slots_ok op (snd (publish i ip l s), remove1 ip pend)"
proof -
  let ?t = "snd (publish i ip l s)"
  let ?a = "length (sess_heap s)"
  have act: "active ?t = active s @ [(i, ?a)]" using update_new [OF assms(3)] by (simp add: publish_def Let_def)
  have heap: "sess_heap ?t = sess_heap s @ [\<lparr>current = l, sc_closed = False, sc_ip = ip, sc_sid = i\<rparr>]"
    by (simp add: publish_def Let_def)
  have "held ?t (remove1 ip pend) x = held s pend x" for x
  proof -
    have "filter (\<lambda>(_, a). sc_ip (sess_heap ?t ! a) = x) (active s) = filter (\<lambda>(_, a). sc_ip (sess_heap s ! a) = x) (active s)"
      using ok by (intro filter_cong) (auto simp: heap nth_append slots_ok_def)
    then show ?thesis
      using count_list_remove1 [OF assms(2), of x] count_list_pos [OF assms(2)] by (auto simp: held_def act heap)
  qed
  moreover have "ip_count ?t = ip_count s" by (rule ip_count_cong) (simp add: publish_def Let_def)
  moreover have "wf_map (active ?t)" using ok assms(3) by (auto simp: act slots_ok_def map_of_eq_None_iff)
  moreover have "opts ?t = opts s" by (simp add: publish_def Let_def)
  ultimately show ?thesis using ok by (auto simp: slots_ok_def act heap)
qed

lemma slot_step_ok: "slots_ok op sp \<Longrightarrow> slots_ok op (slot_step e sp)"
proof -
  obtain s pend where [simp]: "sp = (s, pend)" by (cases sp)
  assume ok: "slots_ok op sp"
  show ?thesis
  proof (cases e)
    case (EAcquire ip)
    obtain r s' where a: "acquireConnSlot ip s = (r, s')" by fastforce
    show ?thesis
    proof (cases r)
      case None
      then show ?thesis using EAcquire a ok acquire_ok by simp
    next
      case (Some x)
      then have "s' = s" using a by (auto elim: acquire_cases)
      then show ?thesis using EAcquire a ok Some by simp
    qed
  qed (use ok fail_ok publish_ok Remove_ok RemoveConn_ok session_Close_ok in \<open>auto\<close>)
qed

lemma slots_ok_New: "slots_ok (opts (NewServer op)) (NewServer op, [])"
  by (simp add: slots_ok_def NewServer_def ip_count_def held_def)

interpretation slots: invariant_machine "(NewServer op, [])" slot_step "slots_ok (opts (NewServer op))"
    for op :: "'r options option"
  by unfold_locales (rule slots_ok_New, erule slot_step_ok)

subsection \<open>Closing\<close>

lemma remove_poll_gone: "map_of (pollSess (remove_poll i s)) i = None"
  by (simp add: remove_poll_def Let_def split: option.splits)

lemma session_Close_tables:
  "active (session_Close a s) =
     (if sc_closed (sess_heap s ! a) then active s else AList.delete (sc_sid (sess_heap s ! a)) (active s))"
  if "a < length (sess_heap s)"
  using that
  by (auto simp: session_Close_def Let_def Remove_def remove_active_def delete_not_in map_of_eq_None_iff split: option.splits)

lemma session_Close_heap:
  assumes "a < length (sess_heap s)"
  shows "sess_heap (session_Close a s) =
    (if sc_closed (sess_heap s ! a) then sess_heap s else (sess_heap s)[a := (sess_heap s ! a)\<lparr>sc_closed := True\<rparr>])"
  using assms by (simp add: session_Close_def Let_def Remove_def)

lemma session_Close_no_active: "active s = [] \<Longrightarrow> ipCount s = [] \<Longrightarrow>
   active (session_Close a s) = [] \<and> ipCount (session_Close a s) = []"
  by (simp add: session_Close_def Let_def Remove_def remove_active_def)

lemma fold_close:
  assumes "\<forall>a\<in>set as. a < length (sess_heap s)" "active s = []" "ipCount s = []"
  shows "(\<forall>a\<in>set as. sc_closed (sess_heap (fold session_Close as s) ! a)) \<and>
    (\<forall>b. sc_closed (sess_heap s ! b) \<and> b < length (sess_heap s) \<longrightarrow> sc_closed (sess_heap (fold session_Close as s) ! b)) \<and>
    active (fold session_Close as s) = [] \<and> ipCount (fold session_Close as s) = []"
  using assms
proof (induction as arbitrary: s)
  case (Cons a as)
  let ?s = "session_Close a s"
  have a: "a < length (sess_heap s)" using Cons.prems(1) by simp
  have len: "length (sess_heap ?s) = length (sess_heap s)" by (simp add: session_Close_heap [OF a])
  have mono: "sc_closed (sess_heap ?s ! b)" if "sc_closed (sess_heap s ! b) \<or> b = a" for b
    using that a by (auto simp: session_Close_heap [OF a] nth_update)
  have "active ?s = []" "ipCount ?s = []" using session_Close_no_active Cons.prems(2,3) by blast+
  then show ?case using Cons.IH [of ?s] Cons.prems(1) len mono a by auto
qed simp

subsection \<open>Properties\<close>


lemma acquire_run:
  "active s = [] \<Longrightarrow> MaxConnections (opts s) = 1 \<Longrightarrow> MaxConnectionsPerIP (opts s) = 0 \<Longrightarrow>
   \<exists>s'. fold slot_step (map EAcquire ips) (s, pend) = (s', rev ips @ pend) \<and> active s' = []"
proof (induction ips arbitrary: s pend)
  case (Cons ip ips)
  obtain s1 where "acquireConnSlot ip s = (None, s1)" "active s1 = []" "opts s1 = opts s"
    using Cons.prems by (auto simp: acquireConnSlot_def)
  then show ?case using Cons.IH [of s1 "ip # pend"] Cons.prems by simp
qed simp

lemma publish_run:
  "length sids = length ips \<Longrightarrow> distinct sids \<Longrightarrow> mset ips \<subseteq># mset pend \<Longrightarrow>
   \<forall>i\<in>set sids. map_of (active s) i = None \<Longrightarrow>
   length (active (fst (fold slot_step (map2 (\<lambda>i ip. EPublish i ip l) sids ips) (s, pend)))) = length (active s) + length ips"
proof (induction sids ips arbitrary: s pend rule: list_induct2)
  case (Cons i sids ip ips)
  let ?s = "snd (publish i ip l s)"
  have act: "active ?s = AList.update i (length (sess_heap s)) (active s)" by (simp add: publish_def Let_def)
  have "ip \<in> set pend" using Cons.prems(2) by (metis insert_subset_eq_iff mset.simps(2) set_mset_mset)
  moreover have "mset ips \<subseteq># mset (remove1 ip pend)"
    using Cons.prems(2) by (simp add: insert_subset_eq_iff)
  moreover have "\<forall>j\<in>set sids. map_of (active ?s) j = None" using Cons.prems(1,3) by (auto simp: act)
  ultimately show ?case
    using Cons.IH [of "remove1 ip pend" ?s] Cons.prems length_update_new [of "active s" i] by (simp add: act)
qed simp

text \<open>The total limit is not safe: connections that acquire their slot before any of them is published
  all pass the check, because it counts published sessions only; any number of them end up active
  although \<open>MaxConnections\<close> is one.\<close>

theorem max_connections_race:
  assumes "MaxConnections o1 = 1" "MaxConnectionsPerIP o1 = 0" "length sids = length ips" "distinct sids"
  shows "Count (fst (fold slot_step (map EAcquire ips @ map2 (\<lambda>i ip. EPublish i ip l) sids ips) (NewServer (Some o1), [])))
    = length ips"
proof -
  have "MaxConnections (opts (NewServer (Some o1))) = 1" "MaxConnectionsPerIP (opts (NewServer (Some o1))) = 0"
    using assms(1,2) by (auto simp: NewServer_def defaults_def Let_def)
  moreover have "active (NewServer (Some o1)) = []" by (simp add: NewServer_def)
  ultimately obtain s where s: "fold slot_step (map EAcquire ips) (NewServer (Some o1), []) = (s, rev ips)" "active s = []"
    using acquire_run [of "NewServer (Some o1)" ips "[]"] by auto
  show ?thesis using publish_run [OF assms(3,4), of "rev ips" s l] s by (simp add: Count_def)
qed

text \<open>A session gives its slot back exactly once: the first \<open>Close\<close> takes it out of both tables and
  decrements the counter of its address by one, a second one changes none of them.\<close>

theorem close_releases_once:
  assumes "a < length (sess_heap s)" "\<not> sc_closed (sess_heap s ! a)" "sc_sid (sess_heap s ! a) = i"
    and "map_of (active s) i = Some a"
  shows "let s1 = session_Close a s; s2 = session_Close a s1; ip = sc_ip (sess_heap s ! a) in
    map_of (active s1) i = None \<and> map_of (pollSess s1) i = None \<and> ip_count s1 ip = ip_count s ip - 1 \<and>
    active s2 = active s1 \<and> ipCount s2 = ipCount s1 \<and> pollSess s2 = pollSess s1"
proof -
  let ?s1 = "session_Close a s"
  let ?c = "close_link (current (sess_heap s ! a)) s"
  let ?t = "?c\<lparr>sess_heap := (sess_heap s)[a := (sess_heap s ! a)\<lparr>sc_closed := True\<rparr>]\<rparr>"
  have s1: "?s1 = remove_poll i (remove_active i ?t)"
    using assms by (simp add: session_Close_def Let_def Remove_def)
  have "ip_count (remove_active i ?t) (sc_ip (sess_heap s ! a)) = ip_count s (sc_ip (sess_heap s ! a)) - 1"
    using assms by (simp add: remove_active_def ip_count_release) (simp add: ip_count_def)
  then have "ip_count ?s1 (sc_ip (sess_heap s ! a)) = ip_count s (sc_ip (sess_heap s ! a)) - 1"
    unfolding s1 using ip_count_cong [of "remove_poll i (remove_active i ?t)" "remove_active i ?t"] by simp
  moreover have "map_of (active ?s1) i = None" using assms by (simp add: session_Close_tables)
  moreover have "map_of (pollSess ?s1) i = None" unfolding s1 by (rule remove_poll_gone)
  moreover have "sc_closed (sess_heap ?s1 ! a)" using assms by (simp add: session_Close_heap)
  ultimately show ?thesis by (simp add: session_Close_def [of a ?s1] Let_def)
qed

text \<open>C31. \<open>Server.Close\<close> leaves nothing behind: no session, no counter, no polling connection in the tables,
  and every session that was active is closed.\<close>

theorem server_close_complete:
  assumes "\<not> srv_closed s" "\<forall>(i, a)\<in>set (active s). a < length (sess_heap s)"
  shows "active (srv_Close s) = [] \<and> ipCount (srv_Close s) = [] \<and> pollSess (srv_Close s) = [] \<and>
    (\<forall>(i, a)\<in>set (active s). sc_closed (sess_heap (srv_Close s) ! a))"
proof -
  let ?t = "s\<lparr>srv_closed := True, active := [], ipCount := []\<rparr>"
  have "\<forall>a\<in>set (map snd (active s)). a < length (sess_heap ?t)" using assms(2) by auto
  from fold_close [OF this] assms(1) show ?thesis by (fastforce simp: srv_Close_def Let_def)
qed

subsection \<open>Witnesses\<close>

definition one_conn :: "unit options" where
  "one_conn = zero_options\<lparr>MaxConnections := 1\<rparr>"

theorem max_connections_race_witness:
  "Count (fst (fold slot_step
     [EAcquire ''10.0.0.1'', EAcquire ''10.0.0.2'', EPublish ''s1'' ''10.0.0.1'' (WSLink 0), EPublish ''s2'' ''10.0.0.2'' (WSLink 0)]
     (NewServer (Some one_conn), []))) = 2"
  using max_connections_race [of one_conn "[''s1'', ''s2'']" "[''10.0.0.1'', ''10.0.0.2'']" "WSLink 0"]
  by (simp add: one_conn_def zero_options_def del: slot_step.simps)

definition one_session :: "unit engine" where
  "one_session = (NewServer None)\<lparr>active := [(''s1'', 0)], ipCount := [(''10.0.0.1'', 1)],
     sess_heap := [\<lparr>current = WSLink 0, sc_closed = False, sc_ip = ''10.0.0.1'', sc_sid = ''s1''\<rparr>],
     ws_heap := [newWSConn [] 10]\<rparr>"

theorem close_releases_once_witness:
  "map_of (active (session_Close 0 one_session)) ''s1'' = None \<and> ip_count (session_Close 0 one_session) ''10.0.0.1'' = 0"
  using close_releases_once [of 0 one_session "''s1''"]
  by (simp add: one_session_def Let_def ip_count_def [of "one_session"]) (simp add: one_session_def ip_count_def)

theorem server_close_complete_witness:
  "active (srv_Close one_session) = [] \<and> sc_closed (sess_heap (srv_Close one_session) ! 0)"
proof -
  have "\<not> srv_closed one_session" "\<forall>(i, a)\<in>set (active one_session). a < length (sess_heap one_session)"
    by (simp_all add: one_session_def NewServer_def)
  from server_close_complete [OF this] show ?thesis by (simp add: one_session_def)
qed

end
