(* ===== verification/Engine_Http.thy ===== *)
theory Engine_Http
  imports Admission Go_Json
begin

section \<open>transport: the HTTP front end\<close>

text \<open>
  The model of \<open>ServeHTTP\<close>, \<open>serveWebSocket\<close>, \<open>servePoll\<close> and what they call in
  \<open>transport/transport.go\<close>. A request is what the handlers read of it; the response is collected in a
  record, status 0 standing for a request that is still waiting. What the handlers get from outside
  is a parameter: the SHA-1 function, the session id that \<open>NewSID\<close> draws, the outcome of hijacking the
  connection with the bytes the peer is going to send, and the pick of a \<open>select\<close>.
\<close>

subsection \<open>Requests and responses\<close>

record request =
  Method :: string
  Query :: "string \<Rightarrow> string"
  Header :: "string \<Rightarrow> string"
  RemoteAddr :: string

record response =
  status :: nat
  resp_headers :: "(string \<times> string) list"
  resp_body :: string

definition empty_response :: response where
  "empty_response = \<lparr>status = 0, resp_headers = [], resp_body = []\<rparr>"

definition set_header :: "string \<Rightarrow> string \<Rightarrow> response \<Rightarrow> response" where
  "set_header k v w = w\<lparr>resp_headers := AList.update k v (resp_headers w)\<rparr>"

definition http_Error :: "string \<Rightarrow> nat \<Rightarrow> response \<Rightarrow> response" where
  "http_Error msg code w =
     (set_header ''X-Content-Type-Options'' ''nosniff'' (set_header ''Content-Type'' ''text/plain; charset=utf-8'' w))
       \<lparr>status := code, resp_body := msg @ [CHR 0x0A]\<rparr>"

definition write_body :: "string \<Rightarrow> response \<Rightarrow> response" where
  "write_body s w = w\<lparr>status := (if status w = 0 then 200 else status w), resp_body := resp_body w @ s\<rparr>"

subsection \<open>Addresses, keys and headers\<close>

definition last_index :: "string \<Rightarrow> char \<Rightarrow> nat option" where
  "last_index s c = map_option (\<lambda>i. length s - 1 - i) (IndexByte (rev s) c)"

text \<open>\<open>net.SplitHostPort\<close>, the host only; \<open>None\<close> is an error.\<close>

definition SplitHost :: "string \<Rightarrow> string option" where
  "SplitHost hp =
     (case last_index hp (CHR '':'') of
        None \<Rightarrow> None
      | Some i \<Rightarrow>
          if HasPrefix hp ''['' then
            (case IndexByte hp (CHR '']'') of
               None \<Rightarrow> None
             | Some e \<Rightarrow>
                 if e + 1 \<noteq> i then None
                 else if IndexByte (drop 1 hp) (CHR ''['') \<noteq> None \<or> IndexByte (drop (e + 1) hp) (CHR '']'') \<noteq> None then None
                 else Some (drop 1 (take e hp)))
          else if IndexByte (take i hp) (CHR '':'') \<noteq> None then None
          else if IndexByte hp (CHR ''['') \<noteq> None \<or> IndexByte hp (CHR '']'') \<noteq> None then None
          else Some (take i hp))"

definition extractIP :: "string \<Rightarrow> string" where
  "extractIP remoteAddr = (case SplitHost remoteAddr of None \<Rightarrow> remoteAddr | Some host \<Rightarrow> host)"

definition wsGUID :: string where "wsGUID = ''258EAFA5-E914-47DA-95CA-C5AB0DC85B11''"

definition wsAcceptKey :: "(string \<Rightarrow> string) \<Rightarrow> string \<Rightarrow> string" where
  "wsAcceptKey sha1 k = b64_encode (sha1 (k @ wsGUID))"

definition isWebSocketUpgrade :: "request \<Rightarrow> bool" where
  "isWebSocketUpgrade r \<longleftrightarrow>
     EqualFold (Header r ''Upgrade'') ''websocket'' \<and> Contains (ToLower_ascii (Header r ''Connection'')) ''upgrade''"

definition checkOrigin :: "request \<Rightarrow> request options \<Rightarrow> bool" where
  "checkOrigin r op =
     (case CheckOrigin op of
        Some f \<Rightarrow> f r
      | None \<Rightarrow>
          if AllowedOrigins op = [] then True
          else if Header r ''Origin'' = [] then True
          else list_ex (\<lambda>allowed. allowed = ''*'' \<or> EqualFold allowed (Header r ''Origin'')) (AllowedOrigins op))"

subsection \<open>Opening a session\<close>

definition openPacket :: "string \<Rightarrow> string list \<Rightarrow> 'r options \<Rightarrow> json" where
  "openPacket i upgrades op =
     JObj [(''sid'', JStr i), (''upgrades'', JArr (map JStr upgrades)),
           (''pingInterval'', JNum (Itoa (PingInterval op div 1000000))),
           (''pingTimeout'', JNum (Itoa (PingTimeout op div 1000000))),
           (''maxPayload'', JNum (Itoa (MaxPayload op)))]"

definition refuse_slot :: "'r engine \<Rightarrow> response \<Rightarrow> response" where
  "refuse_slot s w =
     (if MaxConnections (opts s) > 0 \<and> int (Count s) \<ge> MaxConnections (opts s)
      then http_Error ''server overloaded'' 503 w else http_Error ''too many requests'' 429 w)"

subsection \<open>serveWebSocket\<close>

text \<open>
  What the handler gets from the network: no hijacker, a failed hijack, or the connection with the
  bytes the peer will send and whether the response could be written.

  A request that is not answered in one go leaves its handler in one of these states: it waits for
  room in the accept queue, reads the probe socket, reads the body, pushes packets into the receive
  queue, or waits for a packet to send.
\<close>

datatype hijack = NoHijacker | HijackFailed | Hijacked "byte list" bool

datatype http_state =
    Answered
  | Announces nat string
  | Probes string nat nat
  | ReadsBody nat
  | Pushes nat "string list"
  | AwaitsPacket nat

definition switching :: "(string \<Rightarrow> string) \<Rightarrow> string \<Rightarrow> string" where
  "switching sha1 key =
     ''HTTP/1.1 101 Switching Protocols'' @ [CHR 0x0D, CHR 0x0A] @ ''Upgrade: websocket'' @ [CHR 0x0D, CHR 0x0A] @
     ''Connection: Upgrade'' @ [CHR 0x0D, CHR 0x0A] @ ''Sec-WebSocket-Accept: '' @ wsAcceptKey sha1 key @
     [CHR 0x0D, CHR 0x0A, CHR 0x0D, CHR 0x0A]"

lemma read_step_consumes:
  "read_step f opc m c = (Inl (op, s, None), c') \<Longrightarrow> length (incoming c') < length (incoming c)"
  by (auto simp: read_step_def Let_def dest!: complete_pair readFrame_shorter
      split: sum.splits if_splits prod.splits option.splits)

definition consumed :: "nat \<Rightarrow> received \<Rightarrow> wsconn \<Rightarrow> bool" where
  "consumed n res c \<longleftrightarrow> snd (snd res) = None \<longrightarrow> length (incoming c) < n"

lemma ReadMessage_consumes:
  assumes "ReadMessage c = ((op, s, None), c')" shows "length (incoming c') < length (incoming c)"
proof -
  have "length (incoming c) \<le> length (incoming c)" ..
  then have "consumed (length (incoming c)) (op, s, None) c'"
    using assms unfolding ReadMessage_def
    by (rule read_loop_rule [where I = "\<lambda>_ _ _ d. length (incoming d) \<le> length (incoming c)", rotated 2])
      (auto simp: consumed_def dest: read_step_shorter intro: less_le_trans [OF read_step_consumes])
  then show ?thesis by (simp add: consumed_def)
qed

text \<open>The loop that waits for the upgrade packet on the new socket: whether the upgrade takes place.\<close>

function probe_loop :: "wsconn \<Rightarrow> bool \<times> wsconn" where
  "probe_loop ws =
     (case ReadMessage ws of
        ((_, p, Some _), ws1) \<Rightarrow> (False, Close ws1)
      | ((_, p, None), ws1) \<Rightarrow>
          if p = ''2probe'' then
            (case WriteText ''3probe'' ws1 of
               (Some _, ws2) \<Rightarrow> (False, Close ws2)
             | (None, ws2) \<Rightarrow> probe_loop ws2)
          else if p = [eioUpgrade] then (True, ws1)
          else (False, Close ws1))"
  by pat_completeness auto
termination
proof (relation "measure (\<lambda>c. length (incoming c))", goal_cases)
  case (2 ws x ws1 op y p e x' ws2)
  then show ?case
    using ReadMessage_consumes [of ws op p ws1] same_reader_write(5) [of ws1 "''3probe''"]
    by (auto simp: same_reader_def dest: sym)
qed simp

declare probe_loop.simps [simp del]

definition new_ws :: "wsconn \<Rightarrow> 'r engine \<Rightarrow> nat \<times> 'r engine" where
  "new_ws c s = (length (ws_heap s), s\<lparr>ws_heap := ws_heap s @ [c]\<rparr>)"

text \<open>A WebSocket for a session that polls so far: up to the noop that wakes a pending GET, and the rest.\<close>

definition upgrade_begin ::
    "(string \<Rightarrow> string) \<Rightarrow> hijack \<Rightarrow> string \<Rightarrow> string \<Rightarrow> response \<Rightarrow> 'r engine \<Rightarrow> http_state \<times> response \<times> 'r engine" where
  "upgrade_begin sha1 hj key sid w s =
     (case map_of (active s) sid of
        None \<Rightarrow> (Answered, http_Error ''session not found'' 400 w, s)
      | Some a \<Rightarrow>
          (case map_of (pollSess s) sid of
             None \<Rightarrow> (Answered, http_Error ''session already upgraded'' 400 w, s)
           | Some pc \<Rightarrow>
               (case hj of
                  NoHijacker \<Rightarrow> (Answered, http_Error ''hijack not supported'' 500 w, s)
                | HijackFailed \<Rightarrow> (Answered, w, s)
                | Hijacked bs written \<Rightarrow>
                    if \<not> written then (Answered, w, s)
                    else
                      (let c = (newProbeWSConn bs (nat (MaxPayload (opts s))))\<lparr>outgoing := bytes_of (switching sha1 key)\<rparr>;
                           (b, s) = new_ws c s;
                           (_, q) = poll_WriteText [eioNoop] (poll_heap s ! pc)
                       in (Probes sid a b, w, s\<lparr>poll_heap := (poll_heap s)[pc := q]\<rparr>)))))"

definition upgrade_finish :: "string \<Rightarrow> nat \<Rightarrow> nat \<Rightarrow> 'r engine \<Rightarrow> 'r engine" where
  "upgrade_finish sid a b s =
     (let (ok, c) = probe_loop (ws_heap s ! b);
          s = s\<lparr>ws_heap := (ws_heap s)[b := c]\<rparr>
      in if ok then (let s = upgrade a b s in s\<lparr>pollSess := AList.delete sid (pollSess s)\<rparr>) else s)"

text \<open>A new session on a WebSocket.\<close>

definition open_ws ::
    "(string \<Rightarrow> string) \<Rightarrow> hijack \<Rightarrow> string \<Rightarrow> string \<Rightarrow> string \<Rightarrow> response \<Rightarrow> request engine \<Rightarrow>
     http_state \<times> response \<times> request engine" where
  "open_ws sha1 hj new_sid key ip w s =
     (case acquireConnSlot ip s of
        (Some _, s) \<Rightarrow> (Answered, refuse_slot s w, s)
      | (None, s) \<Rightarrow>
          (case hj of
             NoHijacker \<Rightarrow> (Answered, http_Error ''hijack not supported'' 500 w, releaseConnSlot ip s)
           | HijackFailed \<Rightarrow> (Answered, w, releaseConnSlot ip s)
           | Hijacked bs written \<Rightarrow>
               if \<not> written then (Answered, w, releaseConnSlot ip s)
               else
                 (let c = (newWSConn bs (nat (MaxPayload (opts s))))\<lparr>outgoing := bytes_of (switching sha1 key)\<rparr>;
                      (err, c) = WriteText (eioOpen # print (openPacket new_sid [] (opts s))) c
                  in if err \<noteq> None then (Answered, w, releaseConnSlot ip (snd (new_ws (Close c) s)))
                     else
                       (let (b, s) = new_ws c s; (a, s) = publish new_sid ip (WSLink b) s
                        in (Announces a new_sid, w, s)))))"

definition serveWebSocket ::
    "(string \<Rightarrow> string) \<Rightarrow> hijack \<Rightarrow> string \<Rightarrow> request \<Rightarrow> response \<Rightarrow> request engine \<Rightarrow>
     http_state \<times> response \<times> request engine" where
  "serveWebSocket sha1 hj new_sid r w s =
     (if Header r ''Sec-WebSocket-Version'' \<noteq> ''13'' then
        (Answered, http_Error ''unsupported WebSocket version'' 426 (set_header ''Sec-WebSocket-Version'' ''13'' w), s)
      else if Header r ''Sec-WebSocket-Key'' = [] then (Answered, http_Error ''missing Sec-WebSocket-Key'' 400 w, s)
      else if Query r ''sid'' \<noteq> [] then upgrade_begin sha1 hj (Header r ''Sec-WebSocket-Key'') (Query r ''sid'') w s
      else open_ws sha1 hj new_sid (Header r ''Sec-WebSocket-Key'') (extractIP (RemoteAddr r)) w s)"

text \<open>
  The \<open>select\<close> at the end of both ways to open a session: the session goes to \<open>Accept\<close>, a channel of
  capacity 64, or the server is closed; \<open>pick\<close> decides when both are ready, \<open>None\<close> waits.
\<close>

definition announce :: "bool \<Rightarrow> nat \<Rightarrow> string \<Rightarrow> 'r engine \<Rightarrow> 'r engine option" where
  "announce pick a i s =
     (if length (connCh s) < 64 \<and> (\<not> srv_closed s \<or> pick) then Some (s\<lparr>connCh := connCh s @ [a]\<rparr>)
      else if srv_closed s then Some (Remove i (session_Close a s))
      else None)"

subsection \<open>servePoll\<close>

abbreviation update_poll :: "nat \<Rightarrow> pollconn \<Rightarrow> 'r engine \<Rightarrow> 'r engine" where
  "update_poll a c s \<equiv> s\<lparr>poll_heap := (poll_heap s)[a := c]\<rparr>"

definition post_begin :: "string \<Rightarrow> response \<Rightarrow> 'r engine \<Rightarrow> http_state \<times> response \<times> 'r engine" where
  "post_begin sid w s =
     (if sid = [] then (Answered, http_Error ''missing sid'' 400 w, s)
      else (case map_of (pollSess s) sid of
          None \<Rightarrow> (Answered, http_Error ''session not found'' 400 w, s)
        | Some a \<Rightarrow>
            (let c = poll_heap s ! a in
             if postInFlight c then (Answered, http_Error ''concurrent POST'' 400 w, update_poll a (poll_Close c) s)
             else (ReadsBody a, w, update_poll a (c\<lparr>postInFlight := True\<rparr>) s))))"

text \<open>The packets of a body, as \<open>bytes.Split\<close> cuts it at the record separator.\<close>

fun split_packets :: "string \<Rightarrow> string list" where
  "split_packets [] = [[]]"
| "split_packets (x # xs) =
     (if x = CHR 0x1E then [] # split_packets xs
      else (case split_packets xs of [] \<Rightarrow> [[x]] | p # ps \<Rightarrow> (x # p) # ps))"

datatype pushed = AllIn | Gone | Full "string list"

fun push_packets :: "string list \<Rightarrow> pollconn \<Rightarrow> pushed \<times> pollconn" where
  "push_packets [] c = (AllIn, c)"
| "push_packets (p # ps) c =
     (if p = [] then push_packets ps c
      else
        (let room = length (recvCh c) < chan_cap;
             (put, c) = (if room \<and> poll_closed c then toss c else (room, c))
         in if put then push_packets ps (c\<lparr>recvCh := recvCh c @ [p]\<rparr>)
            else if poll_closed c then (Gone, c)
            else (Full (p # ps), c)))"

definition post_push :: "nat \<Rightarrow> string list \<Rightarrow> response \<Rightarrow> 'r engine \<Rightarrow> http_state \<times> response \<times> 'r engine" where
  "post_push a ps w s =
     (let (res, c) = push_packets ps (poll_heap s ! a) in
      case res of
        AllIn \<Rightarrow> (Answered, write_body ''ok'' (w\<lparr>status := 200\<rparr>), update_poll a (c\<lparr>postInFlight := False\<rparr>) s)
      | Gone \<Rightarrow> (Answered, http_Error ''session closed'' 400 w, update_poll a (c\<lparr>postInFlight := False\<rparr>) s)
      | Full ps \<Rightarrow> (Pushes a ps, w, update_poll a c s))"

definition post_body :: "nat \<Rightarrow> string option \<Rightarrow> response \<Rightarrow> 'r engine \<Rightarrow> http_state \<times> response \<times> 'r engine" where
  "post_body a body w s =
     (let finish = update_poll a ((poll_heap s ! a)\<lparr>postInFlight := False\<rparr>) s in
      case body of
        None \<Rightarrow> (Answered, http_Error ''bad request'' 400 w, finish)
      | Some bs \<Rightarrow>
          (let bs = take (nat (MaxPayload (opts s)) + 1) bs in
           if int (length bs) > MaxPayload (opts s) then (Answered, http_Error ''payload too large'' 413 w, finish)
           else post_push a (split_packets bs) w s))"

definition open_poll :: "string \<Rightarrow> bool list \<Rightarrow> string \<Rightarrow> response \<Rightarrow> 'r engine \<Rightarrow> http_state \<times> response \<times> 'r engine" where
  "open_poll new_sid cs remote w s =
     (let ip = extractIP remote in
      case acquireConnSlot ip s of
        (Some _, s) \<Rightarrow> (Answered, refuse_slot s w, s)
      | (None, s) \<Rightarrow>
          (let b = length (poll_heap s);
               s = s\<lparr>poll_heap := poll_heap s @ [newPollConn cs], pollSess := AList.update new_sid b (pollSess s)\<rparr>;
               (a, s) = publish new_sid ip (PollLink b) s
           in (Announces a new_sid, write_body (eioOpen # print (openPacket new_sid [''websocket''] (opts s))) w, s)))"

definition get_begin :: "string \<Rightarrow> response \<Rightarrow> 'r engine \<Rightarrow> http_state \<times> response \<times> 'r engine" where
  "get_begin sid w s =
     (case map_of (pollSess s) sid of
        None \<Rightarrow> (Answered, http_Error ''session not found'' 400 w, s)
      | Some a \<Rightarrow>
          (let c = poll_heap s ! a in
           if getInFlight c then (Answered, http_Error ''concurrent GET'' 400 w, update_poll a (poll_Close c) s)
           else (AwaitsPacket a, w, update_poll a (c\<lparr>getInFlight := True\<rparr>) s)))"

text \<open>The \<open>select\<close> of a GET: the case chosen must be ready.\<close>

datatype get_case = TakePacket | SessionClosed | RequestGone

definition get_finish :: "get_case \<Rightarrow> nat \<Rightarrow> response \<Rightarrow> 'r engine \<Rightarrow> (response \<times> 'r engine) option" where
  "get_finish choice a w s =
     (let c = poll_heap s ! a; finish = (\<lambda>c. update_poll a (c\<lparr>getInFlight := False\<rparr>) s) in
      case choice of
        TakePacket \<Rightarrow> (case sendCh c of [] \<Rightarrow> None | p # ps \<Rightarrow> Some (write_body p w, finish (c\<lparr>sendCh := ps\<rparr>)))
      | SessionClosed \<Rightarrow> if poll_closed c then Some (http_Error ''session closed'' 400 w, finish c) else None
      | RequestGone \<Rightarrow> Some (w, finish c))"

definition servePoll :: "string \<Rightarrow> bool list \<Rightarrow> request \<Rightarrow> response \<Rightarrow> 'r engine \<Rightarrow> http_state \<times> response \<times> 'r engine" where
  "servePoll new_sid cs r w s =
     (let sid = Query r ''sid''; w = set_header ''Content-Type'' ''text/plain; charset=UTF-8'' w in
      if Method r = ''POST'' then post_begin sid w s
      else if sid = [] then open_poll new_sid cs (RemoteAddr r) w s
      else get_begin sid w s)"

subsection \<open>ServeHTTP\<close>

definition cors :: "request \<Rightarrow> 'r options \<Rightarrow> response \<Rightarrow> response" where
  "cors r op w =
     (let origin = Header r ''Origin'';
          w = (if AllowedOrigins op \<noteq> [] then
                 (if origin \<noteq> [] then
                    set_header ''Vary'' ''Origin'' (set_header ''Access-Control-Allow-Credentials'' ''true''
                      (set_header ''Access-Control-Allow-Origin'' origin w))
                  else w)
               else set_header ''Access-Control-Allow-Origin'' ''*'' w)
      in set_header ''Access-Control-Allow-Methods'' ''GET, POST, OPTIONS''
           (set_header ''Access-Control-Allow-Headers'' ''Content-Type'' w))"

definition ServeHTTP ::
    "(string \<Rightarrow> string) \<Rightarrow> hijack \<Rightarrow> string \<Rightarrow> bool list \<Rightarrow> request \<Rightarrow> request engine \<Rightarrow>
     http_state \<times> response \<times> request engine" where
  "ServeHTTP sha1 hj new_sid cs r s =
     (let w = empty_response in
      if \<not> checkOrigin r (opts s) then (Answered, http_Error ''origin not allowed'' 403 w, s)
      else
        (let w = cors r (opts s) w in
         if Method r = ''OPTIONS'' then (Answered, w\<lparr>status := 204\<rparr>, s)
         else if Query r ''EIO'' \<noteq> ''4'' then (Answered, http_Error ''unsupported Engine.IO version'' 400 w, s)
         else if Query r ''transport'' = ''websocket'' then
           (if \<not> isWebSocketUpgrade r then (Answered, http_Error ''websocket upgrade required'' 400 w, s)
            else serveWebSocket sha1 hj new_sid r w s)
         else if Query r ''transport'' = ''polling'' then servePoll new_sid cs r w s
         else (Answered, http_Error ''unsupported transport'' 400 w, s)))"

subsection \<open>What a request does to the tables\<close>

definition same_tables :: "'r engine \<Rightarrow> 'r engine \<Rightarrow> bool" where
  "same_tables s t \<longleftrightarrow>
     active t = active s \<and> pollSess t = pollSess s \<and> connCh t = connCh s \<and> ip_count t = ip_count s \<and>
     sess_heap t = sess_heap s \<and> opts t = opts s"

lemma same_tables_refl [simp]: "same_tables s s"
  by (simp add: same_tables_def)

lemma same_tables_trans: "same_tables s t \<Longrightarrow> same_tables t u \<Longrightarrow> same_tables s u"
  by (simp add: same_tables_def)

lemma same_tables_objects [simp]:
  "same_tables s (update_poll a c s)" "same_tables s (s\<lparr>ws_heap := x\<rparr>)"
  by (simp_all add: same_tables_def ip_count_def fun_eq_iff)

lemma acquire_release:
  assumes "acquireConnSlot ip s = (None, t)" shows "same_tables s (releaseConnSlot ip t)"
  using assms
proof (cases rule: acquire_cases)
  case 2
  have "ip_count (releaseConnSlot ip t) x = ip_count s x" for x
    by (simp add: ip_count_release 2(2)) (simp add: ip_count_def)
  then show ?thesis by (auto simp: same_tables_def 2(2) releaseConnSlot_def fun_eq_iff)
qed simp

lemma acquire_refused: "acquireConnSlot ip s = (Some e, t) \<Longrightarrow> t = s"
  by (auto elim: acquire_cases)

lemma release_new_ws: "releaseConnSlot ip (snd (new_ws c s)) = (releaseConnSlot ip s)\<lparr>ws_heap := ws_heap s @ [c]\<rparr>"
  by (auto simp: new_ws_def releaseConnSlot_def ip_count_def)

text \<open>A session opened: the slot of its address is taken and the session is in the table.\<close>

definition opened :: "string \<Rightarrow> string \<Rightarrow> nat \<Rightarrow> 'r engine \<Rightarrow> 'r engine \<Rightarrow> bool" where
  "opened sid ip a s t \<longleftrightarrow>
     (\<exists>s1. acquireConnSlot ip s = (None, s1) \<and> ip_count t = ip_count s1 \<and> opts t = opts s \<and> connCh t = connCh s \<and>
       active t = AList.update sid a (active s) \<and> a = length (sess_heap s) \<and>
       (\<exists>l. sess_heap t = sess_heap s @ [\<lparr>current = l, sc_closed = False, sc_ip = ip, sc_sid = sid\<rparr>]))"

definition table_effect :: "string \<Rightarrow> string \<Rightarrow> http_state \<Rightarrow> 'r engine \<Rightarrow> 'r engine \<Rightarrow> bool" where
  "table_effect sid ip st s t \<longleftrightarrow>
     (case st of Announces a i \<Rightarrow> i = sid \<and> opened sid ip a s t | _ \<Rightarrow> same_tables s t)"

lemma table_effect_simps [simp]:
  "table_effect sid ip Answered s t \<longleftrightarrow> same_tables s t"
  "table_effect sid ip (Probes i a b) s t \<longleftrightarrow> same_tables s t"
  "table_effect sid ip (ReadsBody a) s t \<longleftrightarrow> same_tables s t"
  "table_effect sid ip (AwaitsPacket a) s t \<longleftrightarrow> same_tables s t"
  "table_effect sid ip (Announces a i) s t \<longleftrightarrow> i = sid \<and> opened sid ip a s t"
  by (simp_all add: table_effect_def)

lemma upgrade_begin_tables: "upgrade_begin sha1 hj key sid w s = (st, w', t) \<Longrightarrow> table_effect i ip st s t"
  by (auto simp: upgrade_begin_def new_ws_def Let_def same_tables_def ip_count_def fun_eq_iff
      split: option.splits hijack.splits if_splits prod.splits)

lemma post_begin_tables: "post_begin sid w s = (st, w', t) \<Longrightarrow> table_effect i ip st s t"
  by (auto simp: post_begin_def Let_def split: option.splits if_splits)

lemma get_begin_tables: "get_begin sid w s = (st, w', t) \<Longrightarrow> table_effect i ip st s t"
  by (auto simp: get_begin_def Let_def split: option.splits if_splits)

lemma acquire_same:
  "acquireConnSlot ip s = (None, t) \<Longrightarrow>
   active t = active s \<and> sess_heap t = sess_heap s \<and> opts t = opts s \<and> connCh t = connCh s"
  by (auto elim!: acquire_cases)

lemma publish_opened:
  assumes "acquireConnSlot ip s = (None, s1)" "ip_count s2 = ip_count s1" "active s2 = active s1"
    "sess_heap s2 = sess_heap s1" "opts s2 = opts s1" "connCh s2 = connCh s1" "publish sid ip l s2 = (a, t)"
  shows "opened sid ip a s t"
proof -
  have "ip_count t = ip_count s1" using assms(2,7) by (auto simp: publish_def Let_def ip_count_def fun_eq_iff)
  then show ?thesis using acquire_same [OF assms(1)] assms by (auto simp: opened_def publish_def Let_def)
qed

lemma open_ws_tables:
  assumes "open_ws sha1 hj sid key ip w s = (st, w', t)"
  shows "table_effect sid ip st s t"
proof (cases "acquireConnSlot ip s")
  case (Pair e s1)
  show ?thesis
  proof (cases e)
    case (Some x)
    then show ?thesis using assms Pair acquire_refused [of ip s x s1] by (auto simp: open_ws_def)
  next
    case None
    note acq = acquire_release [OF Pair [unfolded None]]
    have rel: "same_tables s (releaseConnSlot ip (snd (new_ws c s1)))" for c
      unfolding release_new_ws by (rule same_tables_trans [OF acq]) simp
    show ?thesis
    proof (cases "\<exists>bs. hj = Hijacked bs True")
      case False
      then show ?thesis using assms Pair None acq by (auto simp: open_ws_def split: hijack.splits if_splits)
    next
      case True
      then obtain bs where bs: "hj = Hijacked bs True" ..
      obtain err c where c: "WriteText (eioOpen # print (openPacket sid [] (opts s1)))
          ((newWSConn bs (nat (MaxPayload (opts s1))))\<lparr>outgoing := bytes_of (switching sha1 key)\<rparr>) = (err, c)"
        by fastforce
      obtain b s2 where b: "new_ws c s1 = (b, s2)" by fastforce
      obtain a s3 where a: "publish sid ip (WSLink b) s2 = (a, s3)" by fastforce
      have s2: "ip_count s2 = ip_count s1 \<and> active s2 = active s1 \<and> sess_heap s2 = sess_heap s1 \<and>
          opts s2 = opts s1 \<and> connCh s2 = connCh s1"
        using b by (auto simp: new_ws_def ip_count_def fun_eq_iff)
      show ?thesis
        using assms Pair None bs c b a rel publish_opened [OF Pair [unfolded None] _ _ _ _ _ a] s2
        by (auto simp: open_ws_def Let_def split: if_splits)
    qed
  qed
qed

lemma open_poll_tables:
  assumes "open_poll sid cs remote w s = (st, w', t)"
  shows "table_effect sid (extractIP remote) st s t"
proof (cases "acquireConnSlot (extractIP remote) s")
  case (Pair e s1)
  show ?thesis
  proof (cases e)
    case (Some x)
    then show ?thesis using assms Pair acquire_refused [of "extractIP remote" s x s1] by (auto simp: open_poll_def Let_def)
  next
    case None
    let ?s2 = "s1\<lparr>poll_heap := poll_heap s1 @ [newPollConn cs], pollSess := AList.update sid (length (poll_heap s1)) (pollSess s1)\<rparr>"
    obtain a s3 where a: "publish sid (extractIP remote) (PollLink (length (poll_heap s1))) ?s2 = (a, s3)" by fastforce
    have "ip_count ?s2 = ip_count s1" by (simp add: ip_count_def fun_eq_iff)
    then show ?thesis
      using assms Pair None a publish_opened [OF Pair [unfolded None] _ _ _ _ _ a] by (auto simp: open_poll_def Let_def)
  qed
qed

subsection \<open>Posting packets\<close>

fun join_packets :: "string list \<Rightarrow> string" where
  "join_packets [] = []"
| "join_packets [p] = p"
| "join_packets (p # q # ps) = p @ CHR 0x1E # join_packets (q # ps)"

lemma split_clean: "CHR 0x1E \<notin> set p \<Longrightarrow> split_packets p = [p]"
  by (induction p) auto

lemma split_first: "CHR 0x1E \<notin> set p \<Longrightarrow> split_packets (p @ CHR 0x1E # s) = p # split_packets s"
  by (induction p) auto

lemma split_packets_join:
  "ps \<noteq> [] \<Longrightarrow> list_all (\<lambda>p. CHR 0x1E \<notin> set p) ps \<Longrightarrow> split_packets (join_packets ps) = ps"
  by (induction ps rule: join_packets.induct) (auto simp: split_clean split_first)

lemma push_all:
  "\<not> poll_closed c \<Longrightarrow> list_all (\<lambda>p. p \<noteq> []) ps \<Longrightarrow> length (recvCh c) + length ps \<le> chan_cap \<Longrightarrow>
   push_packets ps c = (AllIn, c\<lparr>recvCh := recvCh c @ ps\<rparr>)"
  by (induction ps arbitrary: c) auto

subsection \<open>Upgrading\<close>

lemma probe_loop_next:
  "ReadMessage c = ((op, ''2probe'', None), c1) \<Longrightarrow> WriteText ''3probe'' c1 = (None, c2) \<Longrightarrow> probe_loop c = probe_loop c2"
  "ReadMessage c = ((op, [eioUpgrade], None), c1) \<Longrightarrow> probe_loop c = (True, c1)"
  by (simp_all add: probe_loop.simps [of c])

abbreviation client_text :: "byte \<times> byte \<times> byte \<times> byte \<Rightarrow> string \<Rightarrow> byte list" where
  "client_text k s \<equiv> client_frame k (True, OpText, bytes_of s)"

lemma length_bytes_of [simp]: "length (bytes_of s) = length s"
  by (simp add: bytes_of_def)

lemma ReadMessage_eio:
  assumes "incoming c = client_text k (t # p) @ rest" "length (t # p) \<le> maxPayload c" "length (t # p) < 2 ^ 63"
    and "Valid (t # p)" "t = eioPing \<and> p = ''probe'' \<or> t = eioUpgrade"
  shows "ReadMessage c = ((OpText, t # p, None), c\<lparr>incoming := rest\<rparr>)"
  using assms
  by (intro ReadMessage_frame [of c k OpText "bytes_of (t # p)" rest])
    (auto simp: frame_ok_def opcode_ok_def complete_def word_le_nat_alt)

definition reply_frame :: "string \<Rightarrow> byte list" where
  "reply_frame s = (case writeFrame OpText (bytes_of s) of Inl _ \<Rightarrow> [] | Inr bs \<Rightarrow> bs)"

lemma WriteText_open:
  "\<not> raw_closed c \<Longrightarrow> length p \<le> maxPayload c \<Longrightarrow>
   WriteText p c = (None, c\<lparr>outgoing := outgoing c @ reply_frame p\<rparr>)"
  by (auto simp: WriteText_def write_message_def reply_frame_def writeFrame_def flush_def Let_def word_le_nat_alt)

lemma probe_loop_upgrades:
  assumes "incoming c = client_text k1 ''2probe'' @ client_text k2 ''5'' @ rest"
    and "6 \<le> maxPayload c" "\<not> raw_closed c"
  shows "probe_loop c = (True, c\<lparr>incoming := rest, outgoing := outgoing c @ reply_frame ''3probe''\<rparr>)"
proof -
  let ?c1 = "c\<lparr>incoming := client_text k2 ''5'' @ rest\<rparr>"
  let ?c2 = "?c1\<lparr>outgoing := outgoing c @ reply_frame ''3probe''\<rparr>"
  have "Valid ''2probe''" "Valid ''5''" by (rule Valid_ascii; simp add: less_char_def)+
  then have "ReadMessage c = ((OpText, ''2probe'', None), ?c1)" "ReadMessage ?c2 = ((OpText, ''5'', None), ?c2\<lparr>incoming := rest\<rparr>)"
    using assms by (intro ReadMessage_eio [of _ _ _ _ ]; simp)+
  moreover have "WriteText ''3probe'' ?c1 = (None, ?c2)" using assms WriteText_open [of ?c1 "''3probe''"] by simp
  ultimately show ?thesis using probe_loop_next(1) [of c OpText ?c1 ?c2] probe_loop_next(2) [of ?c2 OpText] by simp
qed

definition upgradable :: "string \<Rightarrow> nat \<Rightarrow> nat \<Rightarrow> 'r engine \<Rightarrow> bool" where
  "upgradable sid a pc s \<longleftrightarrow>
     map_of (active s) sid = Some a \<and> map_of (pollSess s) sid = Some pc \<and>
     a < length (sess_heap s) \<and> current (sess_heap s ! a) = PollLink pc \<and> pc < length (poll_heap s) \<and>
     6 \<le> MaxPayload (opts s)"

lemma poll_WriteText_sendCh:
  "poll_WriteText p c = (e, c') \<Longrightarrow> sendCh c' = sendCh c \<or> sendCh c' = sendCh c @ [p]"
  by (auto simp: poll_WriteText_def Let_def poll_Close_def dest!: toss_recvCh split: if_splits prod.splits)

lemma upgrade_run:
  assumes "upgradable sid a pc s" "bs = client_text k1 ''2probe'' @ client_text k2 ''5'' @ rest"
    and "upgrade_begin sha1 (Hijacked bs True) key sid w s = (st, w', s1)"
  shows "\<exists>b. st = Probes sid a b \<and> w' = w \<and>
    (let t = upgrade_finish sid a b s1; c = ws_heap t ! b in
     current (sess_heap t ! a) = WSLink b \<and> active t = active s \<and> pollSess t = AList.delete sid (pollSess s) \<and>
     incoming c = rest \<and> outgoing c = bytes_of (switching sha1 key) @ reply_frame ''3probe'' \<and> \<not> ws_closed c \<and>
     poll_closed (poll_heap t ! pc) \<and>
     (sendCh (poll_heap t ! pc) = sendCh (poll_heap s ! pc) \<or> sendCh (poll_heap t ! pc) = sendCh (poll_heap s ! pc) @ [[eioNoop]]))"
proof -
  let ?b = "length (ws_heap s)"
  let ?c = "(newProbeWSConn bs (nat (MaxPayload (opts s))))\<lparr>outgoing := bytes_of (switching sha1 key)\<rparr>"
  obtain e q where q: "poll_WriteText [eioNoop] (poll_heap s ! pc) = (e, q)" by fastforce
  let ?s1 = "s\<lparr>ws_heap := ws_heap s @ [?c], poll_heap := (poll_heap s)[pc := q]\<rparr>"
  have st: "st = Probes sid a ?b" "w' = w" "s1 = ?s1"
    using assms(1,3) q by (auto simp: upgrade_begin_def upgradable_def new_ws_def Let_def)
  have probe: "probe_loop ?c = (True, ?c\<lparr>incoming := rest, outgoing := bytes_of (switching sha1 key) @ reply_frame ''3probe''\<rparr>)"
  proof (rule probe_loop_upgrades [of ?c k1 k2 rest, THEN trans])
    show "6 \<le> maxPayload ?c" using assms(1) by (simp add: upgradable_def newProbeWSConn_def newWSConn_def le_nat_iff)
  qed (simp_all add: assms(2) newProbeWSConn_def newWSConn_def)
  show ?thesis
    unfolding st(1,2,3) using assms(1) probe poll_WriteText_sendCh [OF q]
    by (auto simp: upgradable_def upgrade_finish_def upgrade_def close_link_def nth_append Let_def
        newProbeWSConn_def newWSConn_def poll_Close_def)
qed

subsection \<open>Properties\<close>

text \<open>C24. Posting works: a body made of non-empty packets, none containing the record separator, within
  \<open>MaxPayload\<close> and with room in the queue, is answered with 200 and \<open>ok\<close>; its packets are appended to
  the receive queue in order, and the session takes the next POST.\<close>

theorem post_delivers:
  assumes "Method r = ''POST''" "Query r ''sid'' = sid" "sid \<noteq> []" "map_of (pollSess s) sid = Some a" "a < length (poll_heap s)"
    and "\<not> postInFlight (poll_heap s ! a)" "\<not> poll_closed (poll_heap s ! a)"
    and "ps \<noteq> []" "list_all (\<lambda>p. p \<noteq> [] \<and> CHR 0x1E \<notin> set p) ps" "length (recvCh (poll_heap s ! a)) + length ps \<le> chan_cap"
    and "int (length (join_packets ps)) \<le> MaxPayload (opts s)"
  shows "\<exists>w1 s1 w2 s2. servePoll new_sid cs r w s = (ReadsBody a, w1, s1) \<and>
    post_body a (Some (join_packets ps)) w1 s1 = (Answered, w2, s2) \<and> status w2 = 200 \<and> resp_body w2 = resp_body w @ ''ok'' \<and>
    poll_heap s2 ! a = (poll_heap s ! a)\<lparr>recvCh := recvCh (poll_heap s ! a) @ ps\<rparr>"
proof -
  let ?c = "poll_heap s ! a"
  let ?s1 = "update_poll a (?c\<lparr>postInFlight := True\<rparr>) s"
  let ?w = "set_header ''Content-Type'' ''text/plain; charset=UTF-8'' w"
  have body: "take (nat (MaxPayload (opts s)) + 1) (join_packets ps) = join_packets ps" using assms(11) by simp
  have "split_packets (join_packets ps) = ps" using assms(8,9) by (intro split_packets_join) (auto simp: list_all_iff)
  moreover have "push_packets ps (?c\<lparr>postInFlight := True\<rparr>) = (AllIn, ?c\<lparr>postInFlight := True, recvCh := recvCh ?c @ ps\<rparr>)"
    using assms(7,9,10) push_all [of "?c\<lparr>postInFlight := True\<rparr>" ps] by (simp add: list_all_iff)
  ultimately have "post_body a (Some (join_packets ps)) ?w ?s1 = (Answered, write_body ''ok'' (?w\<lparr>status := 200\<rparr>),
      update_poll a (?c\<lparr>recvCh := recvCh ?c @ ps, postInFlight := False\<rparr>) ?s1)"
    using assms(5,11) body by (simp add: post_body_def post_push_def Let_def)
  moreover have "servePoll new_sid cs r w s = (ReadsBody a, ?w, ?s1)"
    using assms(1-4,6) by (simp add: servePoll_def post_begin_def Let_def)
  moreover have "?c\<lparr>recvCh := recvCh ?c @ ps, postInFlight := False\<rparr> = ?c\<lparr>recvCh := recvCh ?c @ ps\<rparr>"
    using assms(6) by (cases ?c) simp
  ultimately show ?thesis using assms(5) by (auto simp: write_body_def set_header_def)
qed

text \<open>One POST and one GET at a time: a second request of the same kind that arrives before the first
  is finished is answered with 400 and closes the connection of the session; so no two handlers ever
  feed or drain the same queue.\<close>

theorem one_poll_at_a_time:
  assumes "Query r ''sid'' = sid" "sid \<noteq> []" "map_of (pollSess s) sid = Some a" "a < length (poll_heap s)"
    and "servePoll i1 cs1 r w1 s = (st, w2, s1)" "st \<noteq> Answered"
  shows "\<exists>w4 s2. servePoll i2 cs2 r w3 s1 = (Answered, w4, s2) \<and> status w4 = 400 \<and> poll_closed (poll_heap s2 ! a) \<and>
    (st = ReadsBody a \<or> st = AwaitsPacket a)"
proof (cases "Method r = ''POST''")
  case True
  then show ?thesis using assms
    by (auto simp: servePoll_def post_begin_def Let_def http_Error_def poll_Close_def split: if_splits)
next
  case False
  then show ?thesis using assms
    by (auto simp: servePoll_def get_begin_def Let_def http_Error_def poll_Close_def split: if_splits)
qed


text \<open>C39. What was queued for polling does not survive the upgrade: the packets are still in the queue of
  the old connection, which is closed, and no request can take them any more, because every GET for
  the session is answered with 400.\<close>

theorem upgrade_strands_queue:
  assumes "upgradable sid a pc s" "bs = client_text k1 ''2probe'' @ client_text k2 ''5'' @ rest"
    and "upgrade_begin sha1 (Hijacked bs True) key sid w s = (Probes sid a b, w1, s1)" "t = upgrade_finish sid a b s1"
  shows "prefix (sendCh (poll_heap s ! pc)) (sendCh (poll_heap t ! pc)) \<and> poll_closed (poll_heap t ! pc) \<and>
    (let (st, w2, t2) = get_begin sid w3 t in st = Answered \<and> status w2 = 400 \<and> t2 = t)"
  using upgrade_run [OF assms(1-3)] assms(4)
  by (auto simp: Let_def get_begin_def http_Error_def)

subsection \<open>Witnesses\<close>

definition polling_engine :: "request engine" where
  "polling_engine = (NewServer None)\<lparr>active := [(''s1'', 0)], ipCount := [(''10.0.0.1'', 1)], pollSess := [(''s1'', 0)],
     sess_heap := [\<lparr>current = PollLink 0, sc_closed = False, sc_ip = ''10.0.0.1'', sc_sid = ''s1''\<rparr>],
     poll_heap := [(newPollConn [])\<lparr>sendCh := [''4queued'']\<rparr>]\<rparr>"

definition poll_request :: "string \<Rightarrow> request" where
  "poll_request m = \<lparr>Method = m, Query = (\<lambda>k. if k = ''sid'' then ''s1'' else []),
     Header = (\<lambda>k. if k = ''Sec-WebSocket-Version'' then ''13'' else if k = ''Sec-WebSocket-Key'' then ''key'' else []),
     RemoteAddr = ''10.0.0.1:5000''\<rparr>"

lemma polling_engine_simps:
  "map_of (pollSess polling_engine) ''s1'' = Some 0" "0 < length (poll_heap polling_engine)"
  "\<not> postInFlight (poll_heap polling_engine ! 0)" "\<not> poll_closed (poll_heap polling_engine ! 0)"
  "recvCh (poll_heap polling_engine ! 0) = []" "sendCh (poll_heap polling_engine ! 0) = [''4queued'']"
  "MaxPayload (opts polling_engine) = 1000000"
  by (simp_all add: polling_engine_def newPollConn_def NewServer_def defaults_def zero_options_def Let_def)

lemma polling_engine_upgradable: "upgradable ''s1'' 0 0 polling_engine"
  using polling_engine_simps by (simp add: upgradable_def) (simp add: polling_engine_def NewServer_def)

theorem post_delivers_witness:
  "\<exists>w1 s1 w2 s2. servePoll ''x'' [] (poll_request ''POST'') empty_response polling_engine = (ReadsBody 0, w1, s1) \<and>
     post_body 0 (Some (join_packets [''4a'', ''4b''])) w1 s1 = (Answered, w2, s2) \<and> status w2 = 200 \<and>
     recvCh (poll_heap s2 ! 0) = [''4a'', ''4b'']"
proof -
  have "list_all (\<lambda>p. p \<noteq> [] \<and> CHR 0x1E \<notin> set p) [''4a'', ''4b'']" by simp
  from post_delivers [OF _ _ _ polling_engine_simps(1-4) _ this, where r = "poll_request ''POST''" and cs = "[]"
      and new_sid = "''x''" and w = empty_response] polling_engine_simps(5-7)
  show ?thesis by (fastforce simp: poll_request_def chan_cap_def)
qed

theorem one_poll_at_a_time_witness:
  "\<exists>st w2 s1 w4 s2. servePoll ''x'' [] (poll_request ''GET'') empty_response polling_engine = (st, w2, s1) \<and>
     servePoll ''y'' [] (poll_request ''GET'') empty_response s1 = (Answered, w4, s2) \<and> status w4 = 400"
proof -
  obtain st w2 s1 where s1: "servePoll ''x'' [] (poll_request ''GET'') empty_response polling_engine = (st, w2, s1)"
    by (metis prod_cases3)
  have "st \<noteq> Answered"
    using s1 polling_engine_simps(1)
    by (auto simp: servePoll_def get_begin_def poll_request_def Let_def polling_engine_def newPollConn_def)
  from one_poll_at_a_time [OF _ _ polling_engine_simps(1,2) s1 this, of "''y''" "[]" empty_response] s1
  show ?thesis by (auto simp: poll_request_def)
qed

definition upgrade_bytes :: "byte list" where
  "upgrade_bytes = client_text sample_key ''2probe'' @ client_text sample_key ''5'' @ []"


theorem upgrade_strands_queue_witness:
  "\<exists>b w1 s1. upgrade_begin (\<lambda>x. x) (Hijacked upgrade_bytes True) ''key'' ''s1'' empty_response polling_engine
       = (Probes ''s1'' 0 b, w1, s1) \<and>
     prefix [''4queued''] (sendCh (poll_heap (upgrade_finish ''s1'' 0 b s1) ! 0))"
proof -
  obtain st w1 s1 where s1: "upgrade_begin (\<lambda>x. x) (Hijacked upgrade_bytes True) ''key'' ''s1'' empty_response polling_engine
      = (st, w1, s1)" by (metis prod_cases3)
  with upgrade_run [OF polling_engine_upgradable upgrade_bytes_def this] obtain b where "st = Probes ''s1'' 0 b" by blast
  with upgrade_strands_queue [OF polling_engine_upgradable upgrade_bytes_def _ refl, where w = empty_response] s1
  show ?thesis by (fastforce simp: polling_engine_simps(6))
qed

end
