(* ===== verification/Logger.thy ===== *)
theory Logger
  imports Prelude Go_Strings "HOL-Library.Word"
begin

section \<open>logger: the levelled logger\<close>

text \<open>
  The model of \<open>logger/logger.go\<close>: the process-wide level, an \<open>int32\<close> that any value can be stored in,
  and the lines written to the standard logger, oldest first. \<open>log.Output\<close> adds a time stamp and
  the caller, which are left out; a formatted message is the string \<open>fmt.Sprintf\<close> makes.
\<close>

type_synonym level = "32 word"

definition LevelDebug :: level where "LevelDebug = 0"
definition LevelInfo :: level where "LevelInfo = 1"
definition LevelWarn :: level where "LevelWarn = 2"
definition LevelError :: level where "LevelError = 3"
definition LevelSilent :: level where "LevelSilent = 4"

lemmas levels = LevelDebug_def LevelInfo_def LevelWarn_def LevelError_def LevelSilent_def

record logger =
  level_of :: level
  lines :: "string list"

definition parseLevel :: "string \<Rightarrow> level \<times> bool" where
  "parseLevel s =
     (let u = ToUpper (TrimSpace s) in
      if u = ''DEBUG'' then (LevelDebug, True)
      else if u = ''INFO'' then (LevelInfo, True)
      else if u = ''WARN'' \<or> u = ''WARNING'' then (LevelWarn, True)
      else if u = ''ERROR'' then (LevelError, True)
      else if u = ''SILENT'' \<or> u = ''OFF'' \<or> u = ''NONE'' then (LevelSilent, True)
      else (LevelInfo, False))"

text \<open>The state after \<open>init\<close>; the argument is the value of \<open>GSOCKETIO_LOG_LEVEL\<close>, empty when unset.\<close>

definition logger_init :: "string \<Rightarrow> logger" where
  "logger_init val =
     (let l = \<lparr>level_of = LevelInfo, lines = []\<rparr> in
      if val \<noteq> [] then (let (lvl, ok) = parseLevel val in if ok then l\<lparr>level_of := lvl\<rparr> else l) else l)"

definition SetLevel :: "level \<Rightarrow> logger \<Rightarrow> logger" where
  "SetLevel lv l = l\<lparr>level_of := lv\<rparr>"

definition GetLevel :: "logger \<Rightarrow> level" where
  "GetLevel l = level_of l"

definition log_emit :: "level \<Rightarrow> string \<Rightarrow> string \<Rightarrow> logger \<Rightarrow> logger" where
  "log_emit lv tag msg l = (if sint lv < sint (level_of l) then l else l\<lparr>lines := lines l @ [tag @ msg]\<rparr>)"

definition log_Debug :: "string \<Rightarrow> logger \<Rightarrow> logger" where
  "log_Debug msg l =
     (if sint LevelDebug < sint (level_of l) then l else log_emit LevelDebug ''[DEBUG] '' msg l)"

definition log_Info :: "string \<Rightarrow> logger \<Rightarrow> logger" where
  "log_Info msg = log_emit LevelInfo ''[INFO]  '' msg"

definition log_Warn :: "string \<Rightarrow> logger \<Rightarrow> logger" where
  "log_Warn msg = log_emit LevelWarn ''[WARN]  '' msg"

definition log_Error :: "string \<Rightarrow> logger \<Rightarrow> logger" where
  "log_Error msg = log_emit LevelError ''[ERROR] '' msg"

subsection \<open>What is written\<close>

datatype log_call = CDebug string | CInfo string | CWarn string | CError string | CSetLevel level

fun log_step :: "log_call \<Rightarrow> logger \<Rightarrow> logger" where
  "log_step (CDebug m) = log_Debug m"
| "log_step (CInfo m) = log_Info m"
| "log_step (CWarn m) = log_Warn m"
| "log_step (CError m) = log_Error m"
| "log_step (CSetLevel lv) = SetLevel lv"

fun severity :: "log_call \<Rightarrow> int" where
  "severity (CDebug _) = 0"
| "severity (CInfo _) = 1"
| "severity (CWarn _) = 2"
| "severity (CError _) = 3"
| "severity (CSetLevel _) = -(2 ^ 31) - 1"

fun log_line :: "log_call \<Rightarrow> string" where
  "log_line (CDebug m) = ''[DEBUG] '' @ m"
| "log_line (CInfo m) = ''[INFO]  '' @ m"
| "log_line (CWarn m) = ''[WARN]  '' @ m"
| "log_line (CError m) = ''[ERROR] '' @ m"
| "log_line (CSetLevel _) = []"

text \<open>The reference: each call is judged by the last level set before it.\<close>

fun written :: "int \<Rightarrow> log_call list \<Rightarrow> string list" where
  "written n [] = []"
| "written n (CSetLevel lv # cs) = written (sint lv) cs"
| "written n (c # cs) = (if n \<le> severity c then [log_line c] else []) @ written n cs"

lemma sint_levels: "sint LevelDebug = 0" "sint LevelInfo = 1" "sint LevelWarn = 2" "sint LevelError = 3"
  "sint LevelSilent = 4"
  by (simp_all add: levels)

lemma log_run: "lines (fold log_step cs l) = lines l @ written (sint (level_of l)) cs"
proof (induction cs arbitrary: l)
  case (Cons c cs)
  then show ?case
    by (cases c) (auto simp: log_Debug_def log_Info_def log_Warn_def log_Error_def log_emit_def SetLevel_def sint_levels)
qed simp

text \<open>C35. The logger filters by severity: starting with the level from the environment (\<open>INFO\<close> when it names
  none), any sequence of calls writes exactly the messages whose level is at least the level set
  last before them, each with its tag, in order; in particular the short cut in \<open>Debug\<close> changes nothing.\<close>

theorem log_filter:
  "lines (fold log_step cs (logger_init val)) =
     written (if snd (parseLevel val) then sint (fst (parseLevel val)) else 1) cs"
proof -
  have "TrimSpace [] = []" by code_simp
  then have "\<not> snd (parseLevel [])" by (simp add: parseLevel_def)
  then have "sint (level_of (logger_init val)) = (if snd (parseLevel val) then sint (fst (parseLevel val)) else 1)"
    by (cases "val = []") (auto simp: logger_init_def Let_def sint_levels split: prod.splits)
  moreover have "lines (logger_init val) = []" by (auto simp: logger_init_def Let_def split: prod.splits)
  ultimately show ?thesis using log_run [of cs "logger_init val"] by simp
qed

end
