(* ===== verification/Sio_State.thy ===== *)
theory Sio_State
  imports Engine_Http Rooms Packet_Events
begin

section \<open>server: namespaces, sessions and connections\<close>

text \<open>
  The state of \<open>server/server.go\<close> and the operations of a \<open>conn\<close>. Connections and engine sessions
  live on heaps (list index = address), as the Go maps hold pointers; namespaces are never removed
  or replaced, so the map holds them by value. The transport below is the model of
  \<open>transport.Server\<close>: a session's \<open>tr\<close> is the address of its \<open>sessionConn\<close>.

  The handlers of the application are unknown code. The state holds their names, of any type \<open>'h\<close>,
  and every operation that runs one takes the parameter \<open>user\<close>: what a handler does with a call, on
  the whole server, for it may use every method of the API. Handlers are assumed to return and not
  to panic; a handler that calls \<open>Close\<close> of a connection inside its own \<open>Close\<close> deadlocks in
  \<open>sync.Once\<close>, which the model does not show.
\<close>

subsection \<open>State\<close>

datatype call =
    ConnectCall nat
  | DisconnectCall nat string
  | ErrorCall nat error
  | EventCall nat "string list"
  | BinaryEventCall nat "rval list" "int option"
  | AckCall "error + string list"
  | BinaryAckCall "error + rval list"

record 'h namespace =
  ns_name :: string
  ns_rooms :: "nat manager"
  onConnect :: "'h option"
  onDisconnect :: "'h option"
  onError :: "'h option"
  events :: "(string \<times> 'h) list"
  binaryEvents :: "(string \<times> 'h) list"

record engineSession =
  es_tr :: nat
  es_closed :: bool

record 'h conn =
  c_id :: string
  c_ns :: string
  session :: nat
  c_closed :: bool
  closeOnce :: bool
  ctx :: "rval option"
  joined :: "string list"
  ackSeq :: "64 word"
  acks :: "(64 word \<times> 'h) list"
  binaryAcks :: "(64 word \<times> 'h) list"
  eventSem :: "nat option"

text \<open>A goroutine started for an event: the handler if there is one, and the id to acknowledge.\<close>

datatype 'h task =
    EventTask (task_conn: nat) "'h option" "string list" "int option"
  | BinaryTask (task_conn: nat) 'h "rval list" "int option"

record 'h server =
  s_opts :: "request options"
  tr :: "request engine"
  namespaces :: "(string \<times> 'h namespace) list"
  conns :: "(string \<times> nat) list"
  sessions :: "(nat \<times> (string \<times> nat) list) list"
  connCount :: int
  s_closed :: bool
  conn_heap :: "'h conn list"
  es_heap :: "engineSession list"
  tasks :: "'h task list"

type_synonym 'h handlers = "'h \<Rightarrow> call \<Rightarrow> 'h server \<Rightarrow> error option \<times> 'h server"

definition run_handler :: "'h handlers \<Rightarrow> 'h option \<Rightarrow> call \<Rightarrow> 'h server \<Rightarrow> 'h server" where
  "run_handler user fn c s = (case fn of None \<Rightarrow> s | Some h \<Rightarrow> snd (user h c s))"

definition server_New :: "request options option \<Rightarrow> 'h server" where
  "server_New op =
     (let t = NewServer op in
      \<lparr>s_opts = opts t, tr = t, namespaces = [], conns = [], sessions = [], connCount = 0, s_closed = False,
       conn_heap = [], es_heap = [], tasks = []\<rparr>)"

abbreviation upd_conn :: "nat \<Rightarrow> ('h conn \<Rightarrow> 'h conn) \<Rightarrow> 'h server \<Rightarrow> 'h server" where
  "upd_conn c f s \<equiv> s\<lparr>conn_heap := (conn_heap s)[c := f (conn_heap s ! c)]\<rparr>"

subsection \<open>Namespaces\<close>

definition newNamespace :: "string \<Rightarrow> 'h namespace" where
  "newNamespace n = \<lparr>ns_name = n, ns_rooms = New, onConnect = None, onDisconnect = None, onError = None,
     events = [], binaryEvents = []\<rparr>"

text \<open>The method \<open>namespace\<close> of the server; and \<open>ensureNamespace\<close>, with the name it settles on.\<close>

definition find_ns :: "string \<Rightarrow> 'h server \<Rightarrow> 'h namespace option" where
  "find_ns ns s = map_of (namespaces s) (NormalizeNS ns)"

definition ensureNamespace :: "string \<Rightarrow> 'h server \<Rightarrow> string \<times> 'h server" where
  "ensureNamespace ns s =
     (let ns = NormalizeNS ns in
      case map_of (namespaces s) ns of
        Some _ \<Rightarrow> (ns, s)
      | None \<Rightarrow> (ns, s\<lparr>namespaces := AList.update ns (newNamespace ns) (namespaces s)\<rparr>))"

definition upd_ns :: "string \<Rightarrow> ('h namespace \<Rightarrow> 'h namespace) \<Rightarrow> 'h server \<Rightarrow> 'h server" where
  "upd_ns ns f s =
     (case map_of (namespaces s) (NormalizeNS ns) of
        None \<Rightarrow> s | Some n \<Rightarrow> s\<lparr>namespaces := AList.update (NormalizeNS ns) (f n) (namespaces s)\<rparr>)"

definition getEvent :: "string \<Rightarrow> 'h namespace \<Rightarrow> 'h option \<times> 'h option" where
  "getEvent e n = (map_of (events n) e, map_of (binaryEvents n) e)"

definition set_handler :: "string \<Rightarrow> ('h namespace \<Rightarrow> 'h namespace) \<Rightarrow> 'h server \<Rightarrow> 'h server" where
  "set_handler ns f s = (let (ns, s) = ensureNamespace ns s in upd_ns ns f s)"

definition OnConnect :: "string \<Rightarrow> 'h \<Rightarrow> 'h server \<Rightarrow> 'h server" where
  "OnConnect ns h = set_handler ns (onConnect_update (\<lambda>_. Some h))"

definition OnDisconnect :: "string \<Rightarrow> 'h \<Rightarrow> 'h server \<Rightarrow> 'h server" where
  "OnDisconnect ns h = set_handler ns (onDisconnect_update (\<lambda>_. Some h))"

definition OnError :: "string \<Rightarrow> 'h \<Rightarrow> 'h server \<Rightarrow> 'h server" where
  "OnError ns h = set_handler ns (onError_update (\<lambda>_. Some h))"

definition OnEvent :: "string \<Rightarrow> string \<Rightarrow> 'h \<Rightarrow> 'h server \<Rightarrow> 'h server" where
  "OnEvent ns e h = set_handler ns (events_update (AList.update e h))"

definition OnBinaryEvent :: "string \<Rightarrow> string \<Rightarrow> 'h \<Rightarrow> 'h server \<Rightarrow> 'h server" where
  "OnBinaryEvent ns e h = set_handler ns (binaryEvents_update (AList.update e h))"

subsection \<open>engineSession\<close>

fun write_buffers :: "(string \<Rightarrow> 's \<Rightarrow> error option \<times> 's) \<Rightarrow> string list \<Rightarrow> 's \<Rightarrow> error option \<times> 's" where
  "write_buffers put [] t = (None, t)"
| "write_buffers put (b # bs) t =
     (case put b t of
        (Some e, t) \<Rightarrow> (Some e, t)
      | (None, t) \<Rightarrow> write_buffers put bs t)"

definition send :: "nat \<Rightarrow> packet \<Rightarrow> string list \<Rightarrow> 'h server \<Rightarrow> error option \<times> 'h server" where
  "send se p buffers s =
     (case Encode (Some p) of
        Inl e \<Rightarrow> (Some e, s)
      | Inr raw \<Rightarrow>
          if es_closed (es_heap s ! se) then (Some (ErrorString ''gsocketio: session closed''), s)
          else
            (case session_WriteText (es_tr (es_heap s ! se)) (eioMessage # raw) (tr s) of
               (Some e, t) \<Rightarrow> (Some e, s\<lparr>tr := t\<rparr>)
             | (None, t) \<Rightarrow>
                 (case write_buffers (session_WriteBinary (es_tr (es_heap s ! se))) buffers t of (err, t) \<Rightarrow> (err, s\<lparr>tr := t\<rparr>))))"

definition es_close :: "nat \<Rightarrow> 'h server \<Rightarrow> 'h server" where
  "es_close se s =
     (if es_closed (es_heap s ! se) then s
      else s\<lparr>es_heap := (es_heap s)[se := (es_heap s ! se)\<lparr>es_closed := True\<rparr>],
             tr := session_Close (es_tr (es_heap s ! se)) (tr s)\<rparr>)"

subsection \<open>conn\<close>

definition MaxRoomsPerConn :: nat where "MaxRoomsPerConn = 100"

definition newConn :: "string \<Rightarrow> string \<Rightarrow> nat \<Rightarrow> 'h server \<Rightarrow> 'h conn" where
  "newConn i ns se s =
     \<lparr>c_id = i, c_ns = ns, session = se, c_closed = False, closeOnce = False, ctx = None, joined = [], ackSeq = 0,
      acks = [], binaryAcks = [], eventSem = (if MaxEventConcurrency (s_opts s) > 0 then Some 0 else None)\<rparr>"

definition SetContext :: "nat \<Rightarrow> rval option \<Rightarrow> 'h server \<Rightarrow> 'h server" where
  "SetContext c v = upd_conn c (ctx_update (\<lambda>_. v))"

definition conn_Rooms :: "nat \<Rightarrow> 'h server \<Rightarrow> string list" where
  "conn_Rooms c s = joined (conn_heap s ! c)"

text \<open>A connection as a member of rooms.\<close>

definition as_member :: "nat \<Rightarrow> 'h server \<Rightarrow> nat member" where
  "as_member c s = Member (c_id (conn_heap s ! c)) c"

definition conn_Join :: "string \<Rightarrow> nat \<Rightarrow> 'h server \<Rightarrow> 'h server" where
  "conn_Join room c s =
     (let cn = conn_heap s ! c in
      if room = [] \<or> room \<in> set (joined cn) \<or> length (joined cn) \<ge> MaxRoomsPerConn then s
      else upd_ns (c_ns cn) (ns_rooms_update (\<lambda>r. snd (Join room (as_member c s) r)))
             (upd_conn c (joined_update (\<lambda>js. js @ [room])) s))"

definition conn_Leave :: "string \<Rightarrow> nat \<Rightarrow> 'h server \<Rightarrow> 'h server" where
  "conn_Leave room c s =
     upd_ns (c_ns (conn_heap s ! c)) (ns_rooms_update (\<lambda>r. snd (Leave room (as_member c s) r)))
       (upd_conn c (joined_update (removeAll room)) s)"

definition leaveAll :: "nat \<Rightarrow> 'h server \<Rightarrow> 'h server" where
  "leaveAll c s =
     upd_conn c (joined_update (\<lambda>_. []))
       (upd_ns (c_ns (conn_heap s ! c)) (ns_rooms_update (LeaveAll (as_member c s))) s)"

definition conn_Emit :: "nat \<Rightarrow> string \<Rightarrow> gval list \<Rightarrow> 'h server \<Rightarrow> error option \<times> 'h server" where
  "conn_Emit c event args s =
     (case BuildEventPacket (c_ns (conn_heap s ! c)) event None args of
        Inl e \<Rightarrow> (Some (wrap_error ''conn.Emit: '' e), s)
      | Inr (p, b) \<Rightarrow> send (session (conn_heap s ! c)) p b s)"

text \<open>Sending with a callback registered: a failed \<open>send\<close> takes the callback out again.\<close>

definition send_or_undo ::
    "nat \<Rightarrow> packet \<Rightarrow> string list \<Rightarrow> ('h server \<Rightarrow> 'h server) \<Rightarrow> 'h server \<Rightarrow> error option \<times> 'h server" where
  "send_or_undo se p b undo s =
     (case send se p b s of (Some e, s) \<Rightarrow> (Some e, undo s) | (None, s) \<Rightarrow> (None, s))"

definition EmitWithAck :: "nat \<Rightarrow> string \<Rightarrow> 'h \<Rightarrow> gval list \<Rightarrow> 'h server \<Rightarrow> error option \<times> 'h server" where
  "EmitWithAck c event fn args s =
     (case BuildEventPacket (c_ns (conn_heap s ! c)) event None args of
        Inl e \<Rightarrow> (Some e, s)
      | Inr (p, b) \<Rightarrow>
          (let seq = ackSeq (conn_heap s ! c) + 1;
               s = upd_conn c (ackSeq_update (\<lambda>_. seq)) s
           in if unat seq > 2 ^ 63 - 1 then (Some (ErrorString ''gsocketio: ack id overflow''), s)
              else
                send_or_undo (session (conn_heap s ! c)) (p\<lparr>ID := Some (sint seq)\<rparr>) b
                  (\<lambda>s. upd_conn c (acks_update (AList.delete seq)) s)
                  (upd_conn c (acks_update (AList.update seq fn)) s)))"

definition EmitWithBinaryAck :: "nat \<Rightarrow> string \<Rightarrow> 'h \<Rightarrow> gval list \<Rightarrow> 'h server \<Rightarrow> error option \<times> 'h server" where
  "EmitWithBinaryAck c event fn args s =
     (case BuildEventPacket (c_ns (conn_heap s ! c)) event None args of
        Inl e \<Rightarrow> (Some e, s)
      | Inr (p, b) \<Rightarrow>
          (let seq = ackSeq (conn_heap s ! c) + 1;
               s = upd_conn c (\<lambda>cn. cn\<lparr>ackSeq := seq, binaryAcks := AList.update seq fn (binaryAcks cn)\<rparr>) s
           in send_or_undo (session (conn_heap s ! c)) (p\<lparr>ID := Some (sint seq)\<rparr>) b
                (\<lambda>s. upd_conn c (binaryAcks_update (AList.delete seq)) s) s))"

definition emitAck :: "nat \<Rightarrow> int \<Rightarrow> gval list \<Rightarrow> 'h server \<Rightarrow> error option \<times> 'h server" where
  "emitAck c i args s =
     (case BuildAckPacket (c_ns (conn_heap s ! c)) (Some i) args of
        Inl e \<Rightarrow> (Some e, s)
      | Inr (p, b) \<Rightarrow> send (session (conn_heap s ! c)) p b s)"

definition ack_values :: "rval outcome \<Rightarrow> error + rval list" where
  "ack_values r = (case r of Fail e \<Rightarrow> Inl e | Return (RArr a) \<Rightarrow> Inr a | Return v \<Rightarrow> Inr [v] | GoPanic _ \<Rightarrow> Inr [])"

definition fireAck :: "'h handlers \<Rightarrow> nat \<Rightarrow> int \<Rightarrow> packet \<Rightarrow> string list \<Rightarrow> 'h server \<Rightarrow> 'h server outcome" where
  "fireAck user c i p buffers s =
     (let key = word_of_int i in
      if IsBinary (Type p) then
        (case Reconstruct (Data p) buffers of
           GoPanic m \<Rightarrow> GoPanic m
         | r \<Rightarrow>
             Return (run_handler user (map_of (binaryAcks (conn_heap s ! c)) key) (BinaryAckCall (ack_values r))
               (upd_conn c (binaryAcks_update (AList.delete key)) s)))
      else
        Return (run_handler user (map_of (acks (conn_heap s ! c)) key) (AckCall (EventArgs (Data p)))
          (upd_conn c (acks_update (AList.delete key)) s)))"

subsection \<open>Removing connections\<close>

text \<open>The end shared by \<open>removeConn\<close>, \<open>disconnectNamespace\<close> and the loop of \<open>teardownSession\<close>.\<close>

definition forget :: "'h handlers \<Rightarrow> nat \<Rightarrow> string \<Rightarrow> 'h server \<Rightarrow> 'h server" where
  "forget user c reason s =
     (let s = leaveAll c s;
          s = s\<lparr>conns := AList.delete (c_id (conn_heap s ! c)) (conns s), connCount := connCount s - 1\<rparr>
      in case find_ns (c_ns (conn_heap s ! c)) s of
           None \<Rightarrow> s
         | Some n \<Rightarrow> run_handler user (onDisconnect n) (DisconnectCall c reason) s)"

definition removeConn :: "'h handlers \<Rightarrow> nat \<Rightarrow> string \<Rightarrow> 'h server \<Rightarrow> 'h server" where
  "removeConn user c reason s =
     (let cn = conn_heap s ! c;
          s = (case map_of (sessions s) (session cn) of
                 None \<Rightarrow> s
               | Some m \<Rightarrow>
                   if map_of m (c_ns cn) = Some c
                   then s\<lparr>sessions := AList.update (session cn) (AList.delete (c_ns cn) m) (sessions s)\<rparr> else s)
      in forget user c reason s)"

definition conn_Close :: "'h handlers \<Rightarrow> nat \<Rightarrow> 'h server \<Rightarrow> error option \<times> 'h server" where
  "conn_Close user c s =
     (if closeOnce (conn_heap s ! c) then (None, s)
      else
        (let s = upd_conn c (\<lambda>cn. cn\<lparr>closeOnce := True, c_closed := True\<rparr>) s;
             s = leaveAll c s;
             p = \<lparr>Type = TypeDisconnect, Namespace = c_ns (conn_heap s ! c), ID = None, Data = [], Attachments = 0\<rparr>;
             (err, s) = send (session (conn_heap s ! c)) p [] s
         in (err, removeConn user c ''client disconnect'' s)))"

text \<open>\<open>s.sessions[sess][ns]\<close>: a missing session is the nil map, which has no entries.\<close>

definition session_conn :: "nat \<Rightarrow> string \<Rightarrow> 'h server \<Rightarrow> nat option" where
  "session_conn se ns s = (case map_of (sessions s) se of None \<Rightarrow> None | Some m \<Rightarrow> map_of m ns)"

definition disconnectNamespace :: "'h handlers \<Rightarrow> nat \<Rightarrow> string \<Rightarrow> string \<Rightarrow> 'h server \<Rightarrow> 'h server" where
  "disconnectNamespace user se ns reason s =
     (case map_of (sessions s) se of
        None \<Rightarrow> s
      | Some m \<Rightarrow>
          (case map_of m ns of
             None \<Rightarrow> s
           | Some c \<Rightarrow> forget user c reason (s\<lparr>sessions := AList.update se (AList.delete ns m) (sessions s)\<rparr>)))"

definition teardownSession :: "'h handlers \<Rightarrow> nat \<Rightarrow> string \<Rightarrow> 'h server \<Rightarrow> 'h server" where
  "teardownSession user se reason s =
     (let m = (case map_of (sessions s) se of None \<Rightarrow> [] | Some m \<Rightarrow> m);
          s = s\<lparr>sessions := AList.delete se (sessions s)\<rparr>
      in es_close se
           (fold (\<lambda>(_, c) s. forget user c reason (upd_conn c (c_closed_update (\<lambda>_. True)) s)) m s))"

end
