(* ===== verification/Sio_Server.thy ===== *)
theory Sio_Server
  imports Sio_State
begin

section \<open>server: dispatching packets\<close>

text \<open>
  The model of the second half of \<open>server/server.go\<close>: what a session's reader does with each
  message (\<open>handleSession\<close>), the dispatch of packets, the goroutines started for events, and the
  API of \<open>Server\<close>. A panic is a value, since it ends the process. The reader's local variables are
  a record; a reader that waits for a free slot of \<open>eventSem\<close> keeps the task it wants to start.
\<close>

subsection \<open>CONNECT\<close>

definition mustMarshal :: "gval \<Rightarrow> string" where
  "mustMarshal v = (case Marshal v of Inl _ \<Rightarrow> ''{}'' | Inr b \<Rightarrow> b)"

lemma mustMarshal_member [simp]: "mustMarshal (GMap (Some [(KString k, GString v)])) = print (JObj [(k, JStr v)])"
  by (simp add: mustMarshal_def Marshal_def key_string_def)

definition connect_error :: "string \<Rightarrow> string \<Rightarrow> packet" where
  "connect_error ns msg =
     \<lparr>Type = TypeConnectError, Namespace = ns, ID = None, Data = mustMarshal (GMap (Some [(KString ''message'', GString msg)])), Attachments = 0\<rparr>"

definition sendConnectError :: "nat \<Rightarrow> string \<Rightarrow> string \<Rightarrow> 'h server \<Rightarrow> 'h server" where
  "sendConnectError se ns msg s = snd (send se (connect_error ns msg) [] s)"

definition connect_reply :: "string \<Rightarrow> string \<Rightarrow> packet" where
  "connect_reply ns i =
     \<lparr>Type = TypeConnect, Namespace = ns, ID = None, Data = mustMarshal (GMap (Some [(KString ''sid'', GString i)])), Attachments = 0\<rparr>"

text \<open>
  Entering the new connection into the tables. The session's map is gone once the session has been
  torn down, and then \<open>s.sessions[sess][ns] = c\<close> is an assignment to an entry of a nil map.
\<close>

definition register :: "string \<Rightarrow> nat \<Rightarrow> packet \<Rightarrow> 'h server \<Rightarrow> (nat option \<times> 'h server) outcome" where
  "register i se p s =
     (let ns = Namespace p in
      if session_conn se ns s \<noteq> None then Return (None, s)
      else (case map_of (sessions s) se of
          None \<Rightarrow> GoPanic ''assignment to entry in nil map''
        | Some m \<Rightarrow>
            (let a = length (conn_heap s);
                 cn = (newConn i ns se s)\<lparr>ctx := (if Data p \<noteq> [] then unmarshal_any (Data p) else None)\<rparr>
             in Return (Some a, s\<lparr>conn_heap := conn_heap s @ [cn],
                  sessions := AList.update se (AList.update ns a m) (sessions s),
                  conns := AList.update i a (conns s), connCount := connCount s + 1\<rparr>))))"

definition greet :: "'h handlers \<Rightarrow> nat \<Rightarrow> string \<Rightarrow> string \<Rightarrow> nat \<Rightarrow> 'h server \<Rightarrow> 'h server" where
  "greet user se ns i c s =
     (case send se (connect_reply ns i) [] s of
        (Some _, s) \<Rightarrow> snd (conn_Close user c s)
      | (None, s) \<Rightarrow>
          (case find_ns ns s of
             None \<Rightarrow> s
           | Some n \<Rightarrow>
               (case onConnect n of
                  None \<Rightarrow> s
                | Some h \<Rightarrow>
                    (case user h (ConnectCall c) s of
                       (None, s) \<Rightarrow> s
                     | (Some _, s) \<Rightarrow> removeConn user c ''rejected'' (sendConnectError se ns ''Not authorized'' s)))))"

definition connectNamespace :: "'h handlers \<Rightarrow> string \<Rightarrow> nat \<Rightarrow> packet \<Rightarrow> 'h server \<Rightarrow> 'h server outcome" where
  "connectNamespace user i se p s =
     (let ns = Namespace p in
      if find_ns ns s = None \<and> ns \<noteq> ''/'' then Return (sendConnectError se ns ''Invalid namespace'' s)
      else
        (let s = snd (ensureNamespace ns s) in
         case register i se p s of
           Return (None, s) \<Rightarrow> Return s
         | Return (Some c, s) \<Rightarrow> Return (greet user se ns i c s)
         | Fail e \<Rightarrow> Fail e
         | GoPanic m \<Rightarrow> GoPanic m))"

subsection \<open>EVENT and ACK\<close>

definition reportError :: "'h handlers \<Rightarrow> nat \<Rightarrow> error \<Rightarrow> 'h server \<Rightarrow> 'h server" where
  "reportError user c e s =
     (case find_ns (c_ns (conn_heap s ! c)) s of
        None \<Rightarrow> s
      | Some n \<Rightarrow> run_handler user (onError n) (ErrorCall c e) s)"

text \<open>What becomes of a packet: dealt with, a task to be started, or a panic.\<close>

datatype 'h dispatched = Done "'h server" | Start "'h task" | Panics string

text \<open>The method \<open>getEvent\<close> of a nil namespace is a nil dereference.\<close>

definition dispatchEvent :: "'h handlers \<Rightarrow> nat \<Rightarrow> packet \<Rightarrow> string list \<Rightarrow> 'h server \<Rightarrow> 'h dispatched" where
  "dispatchEvent user se p buffers s =
     (case session_conn se (Namespace p) s of
        None \<Rightarrow> Done s
      | Some c \<Rightarrow>
          if Type p = TypeBinaryEvent then
            (case Reconstruct (Data p) buffers of
               GoPanic m \<Rightarrow> Panics m
             | Fail e \<Rightarrow> Done (reportError user c e s)
             | Return v \<Rightarrow>
                 (case EventName (Data p) of
                    Inl e \<Rightarrow> Done (reportError user c e s)
                  | Inr name \<Rightarrow>
                      (case find_ns (Namespace p) s of
                         None \<Rightarrow> Panics ''nil pointer dereference''
                       | Some n \<Rightarrow>
                           (case (snd (getEvent name n), v) of
                              (Some h, RArr a) \<Rightarrow> Start (BinaryTask c h a (ID p))
                            | _ \<Rightarrow> Done s))))
          else
            (case EventName (Data p) of
               Inl e \<Rightarrow> Done (reportError user c e s)
             | Inr name \<Rightarrow>
                 (case EventArgs (Data p) of
                    Inl e \<Rightarrow> Done (reportError user c e s)
                  | Inr args \<Rightarrow>
                      (case find_ns (Namespace p) s of
                         None \<Rightarrow> Panics ''nil pointer dereference''
                       | Some n \<Rightarrow>
                           (let fn = fst (getEvent name n) in
                            if fn \<noteq> None \<or> ID p \<noteq> None then Start (EventTask c fn args (ID p)) else Done s)))))"

definition dispatchAck :: "'h handlers \<Rightarrow> nat \<Rightarrow> string \<Rightarrow> packet \<Rightarrow> string list \<Rightarrow> 'h server \<Rightarrow> 'h server outcome" where
  "dispatchAck user se ns p buffers s =
     (case session_conn se ns s of
        None \<Rightarrow> Return s
      | Some c \<Rightarrow> (case ID p of None \<Rightarrow> Return s | Some i \<Rightarrow> fireAck user c i p buffers s))"

definition of_outcome :: "'h server \<Rightarrow> 'h server outcome \<Rightarrow> 'h dispatched" where
  "of_outcome s r = (case r of Return t \<Rightarrow> Done t | Fail _ \<Rightarrow> Done s | GoPanic m \<Rightarrow> Panics m)"

definition dispatchPacket :: "'h handlers \<Rightarrow> string \<Rightarrow> nat \<Rightarrow> packet \<Rightarrow> string list \<Rightarrow> 'h server \<Rightarrow> 'h dispatched" where
  "dispatchPacket user i se p buffers s =
     (if Type p = TypeConnect then of_outcome s (connectNamespace user i se p s)
      else if Type p = TypeDisconnect then Done (disconnectNamespace user se (Namespace p) ''client disconnect'' s)
      else if Type p = TypeEvent \<or> Type p = TypeBinaryEvent then dispatchEvent user se p buffers s
      else if Type p = TypeAck \<or> Type p = TypeBinaryAck then
        of_outcome s (dispatchAck user se (Namespace p) p buffers s)
      else Done (sendConnectError se (Namespace p) ''invalid packet'' s))"

subsection \<open>Tasks\<close>

text \<open>A slot of the semaphore of connection \<open>c\<close>: whether one is free, taking it, giving it back.\<close>

definition slot_free :: "nat \<Rightarrow> 'h server \<Rightarrow> bool" where
  "slot_free c s =
     (case eventSem (conn_heap s ! c) of None \<Rightarrow> True | Some n \<Rightarrow> int n < MaxEventConcurrency (s_opts s))"

definition start_task :: "'h task \<Rightarrow> 'h server \<Rightarrow> 'h server" where
  "start_task t s =
     (let s = upd_conn (task_conn t) (eventSem_update (map_option Suc)) s in s\<lparr>tasks := tasks s @ [t]\<rparr>)"

text \<open>The task as a whole: the handler, then the acknowledgement without arguments, then the slot.\<close>

definition task_body :: "'h handlers \<Rightarrow> 'h task \<Rightarrow> 'h server \<Rightarrow> 'h server" where
  "task_body user t s =
     (case t of
        BinaryTask c h a i \<Rightarrow> snd (user h (BinaryEventCall c a i) s)
      | EventTask c fn args i \<Rightarrow>
          (let s = run_handler user fn (EventCall c args) s
           in case i of None \<Rightarrow> s | Some i \<Rightarrow> snd (emitAck c i [] s)))"

definition finish_task :: "nat \<Rightarrow> 'h server \<Rightarrow> 'h server" where
  "finish_task k s =
     (if k < length (tasks s)
      then upd_conn (task_conn (tasks s ! k)) (eventSem_update (map_option (\<lambda>n. n - 1)))
             (s\<lparr>tasks := take k (tasks s) @ drop (Suc k) (tasks s)\<rparr>)
      else s)"

subsection \<open>The reader\<close>

record 'h reader =
  connectedAny :: bool
  pending :: "(packet \<times> string list) option"
  waiting :: "'h task option"
  exited :: bool

definition new_reader :: "'h reader" where
  "new_reader = \<lparr>connectedAny = False, pending = None, waiting = None, exited = False\<rparr>"

definition accept_session :: "nat \<Rightarrow> 'h server \<Rightarrow> nat \<times> 'h server" where
  "accept_session tc s =
     (let se = length (es_heap s)
      in (se, s\<lparr>es_heap := es_heap s @ [\<lparr>es_tr = tc, es_closed = False\<rparr>], sessions := AList.update se [] (sessions s)\<rparr>))"

text \<open>
  One pass through the loop of \<open>Serve\<close>: it waits, returns the error of \<open>Accept\<close>, or starts a reader for
  the session accepted; \<open>pick\<close> is the choice of the \<open>select\<close> in \<open>Accept\<close>.
\<close>

definition serve_pass :: "bool \<Rightarrow> 'h server \<Rightarrow> (error + nat) option \<times> 'h server" where
  "serve_pass pick s =
     (case Accept pick (tr s) of
        (None, t) \<Rightarrow> (None, s\<lparr>tr := t\<rparr>)
      | (Some (Inl e), t) \<Rightarrow> (Some (Inl e), s\<lparr>tr := t\<rparr>)
      | (Some (Inr tc), t) \<Rightarrow> (let (se, s) = accept_session tc (s\<lparr>tr := t\<rparr>) in (Some (Inr se), s)))"

text \<open>Returning from \<open>handleSession\<close> runs the deferred \<open>teardownSession\<close>.\<close>

definition leave_reader :: "'h handlers \<Rightarrow> nat \<Rightarrow> 'h reader \<Rightarrow> 'h server \<Rightarrow> 'h reader \<times> 'h server" where
  "leave_reader user se rd s = (rd\<lparr>exited := True\<rparr>, teardownSession user se ''transport closed'' s)"

text \<open>
  The \<open>select\<close> before a task: a slot of the semaphore, or the end of the transport, which drops the
  task; \<open>pick\<close> decides when both are ready, and the reader waits when neither is. Without a semaphore
  the task starts at once.
\<close>

definition resume :: "bool \<Rightarrow> nat \<Rightarrow> 'h reader \<Rightarrow> 'h server \<Rightarrow> 'h reader \<times> 'h server" where
  "resume pick se rd s =
     (case waiting rd of
        None \<Rightarrow> (rd, s)
      | Some t \<Rightarrow>
          (let sem = eventSem (conn_heap s ! task_conn t);
               gone = sem \<noteq> None \<and> sc_closed (sess_heap (tr s) ! es_tr (es_heap s ! se))
           in if slot_free (task_conn t) s \<and> (\<not> gone \<or> pick) then (rd\<lparr>waiting := None\<rparr>, start_task t s)
              else if gone then (rd\<lparr>waiting := None\<rparr>, s)
              else (rd, s)))"

text \<open>\<open>dispatchPacket\<close> as the reader calls it; the draws are a session id and the pick of a \<open>select\<close>.\<close>

type_synonym draws = "string \<times> bool"

definition deliver ::
    "'h handlers \<Rightarrow> draws \<Rightarrow> nat \<Rightarrow> packet \<Rightarrow> string list \<Rightarrow> 'h reader \<Rightarrow> 'h server \<Rightarrow> ('h reader \<times> 'h server) outcome" where
  "deliver user d se p buffers rd s =
     (case dispatchPacket user (fst d) se p buffers s of
        Done s \<Rightarrow> Return (rd, s)
      | Panics m \<Rightarrow> GoPanic m
      | Start t \<Rightarrow> Return (resume (snd d) se (rd\<lparr>waiting := Some t\<rparr>) s))"

definition MaxAttachments :: int where "MaxAttachments = 64"

text \<open>One pass through the loop of \<open>handleSession\<close>, for one result of \<open>ReadMessage\<close>.\<close>

definition handle_message ::
    "'h handlers \<Rightarrow> draws \<Rightarrow> nat \<Rightarrow> received \<Rightarrow> 'h reader \<Rightarrow> 'h server \<Rightarrow> ('h reader \<times> 'h server) outcome" where
  "handle_message user d se msg rd s =
     (case msg of (op, raw, err) \<Rightarrow>
      if err \<noteq> None then Return (leave_reader user se rd s)
      else if op = OpBinary then
        (case pending rd of
           None \<Rightarrow> Return (leave_reader user se rd s)
         | Some (p, bs) \<Rightarrow>
             (let bs = bs @ [raw] in
              if int (length bs) = Attachments p then deliver user d se p bs (rd\<lparr>pending := None\<rparr>) s
              else Return (rd\<lparr>pending := Some (p, bs)\<rparr>, s)))
      else if raw = [] then Return (rd, s)
      else (case Decode raw of
          Inl _ \<Rightarrow> Return (leave_reader user se rd s)
        | Inr p \<Rightarrow>
            if \<not> connectedAny rd \<and> Type p \<noteq> TypeConnect then Return (leave_reader user se rd s)
            else
              (let rd = rd\<lparr>connectedAny := True\<rparr> in
               if IsBinary (Type p) then
                 (if Attachments p > MaxAttachments then Return (leave_reader user se rd s)
                  else Return (rd\<lparr>pending := Some (p, [])\<rparr>, s))
               else deliver user d se p [] rd s)))"

text \<open>The loop: it goes on until the reader has returned, or waits for a slot with messages left.\<close>

fun handle_messages ::
    "'h handlers \<Rightarrow> nat \<Rightarrow> (draws \<times> received) list \<Rightarrow> 'h reader \<Rightarrow> 'h server \<Rightarrow>
     ((draws \<times> received) list \<times> 'h reader \<times> 'h server) outcome" where
  "handle_messages user se [] rd s = Return ([], rd, s)"
| "handle_messages user se ((d, m) # ms) rd s =
     (if exited rd \<or> waiting rd \<noteq> None then Return ((d, m) # ms, rd, s)
      else (case handle_message user d se m rd s of
          Return (rd, s) \<Rightarrow> handle_messages user se ms rd s
        | Fail e \<Rightarrow> Fail e
        | GoPanic m \<Rightarrow> GoPanic m))"

subsection \<open>The API of Server\<close>

definition server_Close :: "'h handlers \<Rightarrow> 'h server \<Rightarrow> 'h server" where
  "server_Close user s =
     (if s_closed s then s
      else
        (let s = fold (\<lambda>se. teardownSession user se ''server closed'') (keys (sessions s)) (s\<lparr>s_closed := True\<rparr>)
         in s\<lparr>tr := srv_Close (tr s)\<rparr>))"

definition server_Count :: "'h server \<Rightarrow> int" where
  "server_Count s = connCount s"

abbreviation in_ns :: "string \<Rightarrow> nat \<Rightarrow> 'h server \<Rightarrow> bool" where
  "in_ns ns c s \<equiv> NormalizeNS (c_ns (conn_heap s ! c)) = NormalizeNS ns"

definition JoinRoom :: "string \<Rightarrow> string \<Rightarrow> nat option \<Rightarrow> 'h server \<Rightarrow> 'h server" where
  "JoinRoom ns room co s =
     (case co of None \<Rightarrow> s | Some c \<Rightarrow> if in_ns ns c s then conn_Join room c s else s)"

definition LeaveRoom :: "string \<Rightarrow> string \<Rightarrow> nat option \<Rightarrow> 'h server \<Rightarrow> 'h server" where
  "LeaveRoom ns room co s =
     (case co of None \<Rightarrow> s | Some c \<Rightarrow> if in_ns ns c s then conn_Leave room c s else s)"

definition LeaveAllRooms :: "string \<Rightarrow> nat option \<Rightarrow> 'h server \<Rightarrow> 'h server" where
  "LeaveAllRooms ns co s =
     (case co of None \<Rightarrow> s | Some c \<Rightarrow> if in_ns ns c s then leaveAll c s else s)"

definition ClearRoom :: "string \<Rightarrow> string \<Rightarrow> 'h server \<Rightarrow> 'h server" where
  "ClearRoom ns room = upd_ns ns (ns_rooms_update (Clear room))"

definition RoomLen :: "string \<Rightarrow> string \<Rightarrow> 'h server \<Rightarrow> nat" where
  "RoomLen ns room s = (case find_ns ns s of None \<Rightarrow> 0 | Some n \<Rightarrow> Len room (ns_rooms n))"

definition server_Rooms :: "string \<Rightarrow> 'h server \<Rightarrow> string list" where
  "server_Rooms ns s = (case find_ns ns s of None \<Rightarrow> [] | Some n \<Rightarrow> Names (ns_rooms n))"

definition RoomMembers :: "string \<Rightarrow> string \<Rightarrow> 'h server \<Rightarrow> nat list" where
  "RoomMembers ns room s = (case find_ns ns s of None \<Rightarrow> [] | Some n \<Rightarrow> map impl (Members room (ns_rooms n)))"

definition ForEachInRoom :: "string \<Rightarrow> string \<Rightarrow> (nat \<Rightarrow> 'h server \<Rightarrow> 'h server) \<Rightarrow> 'h server \<Rightarrow> 'h server" where
  "ForEachInRoom ns room f s =
     (case find_ns ns s of None \<Rightarrow> s | Some n \<Rightarrow> ForEach room (\<lambda>m. f (impl m)) (ns_rooms n) s)"

definition ToRoom :: "string \<Rightarrow> string \<Rightarrow> string \<Rightarrow> nat option \<Rightarrow> gval list \<Rightarrow> 'h server \<Rightarrow> 'h server" where
  "ToRoom ns room event skip args s =
     (case find_ns ns s of
        None \<Rightarrow> s
      | Some n \<Rightarrow>
          Send (\<lambda>m. conn_Emit (impl m)) room event (case skip of None \<Rightarrow> {} | Some c \<Rightarrow> {c_id (conn_heap s ! c)}) args
            (ns_rooms n) s)"

definition ToNamespace :: "string \<Rightarrow> string \<Rightarrow> gval list \<Rightarrow> 'h server \<Rightarrow> 'h server" where
  "ToNamespace ns event args s =
     (case find_ns ns s of None \<Rightarrow> s | Some n \<Rightarrow> SendAll (\<lambda>m. conn_Emit (impl m)) event args (ns_rooms n) s)"

end
