(* ===== verification/Sio_Invariant.thy ===== *)
theory Sio_Invariant
  imports Sio_Server
begin

section \<open>server: the invariant of the server state\<close>

text \<open>
  What holds of the server between any two steps, and that every operation keeps it: the sessions
  hold connections of their own, in existing namespaces; a member of a room has the room in its own
  list, of at most 100 rooms; and the semaphore of a connection counts its running handlers.
\<close>

subsection \<open>Definition\<close>

definition sess_ok :: "'h server \<Rightarrow> bool" where
  "sess_ok s \<longleftrightarrow>
     (\<forall>se ns c. session_conn se ns s = Some c \<longrightarrow>
       c < length (conn_heap s) \<and> c_ns (conn_heap s ! c) = ns \<and> session (conn_heap s ! c) = se \<and> find_ns ns s \<noteq> None)"

definition member_ok :: "string \<Rightarrow> 'h server \<Rightarrow> string \<Rightarrow> string \<Rightarrow> nat member \<Rightarrow> bool" where
  "member_ok ns s r i m \<longleftrightarrow>
     member_ID m = i \<and> impl m < length (conn_heap s) \<and>
     (let cn = conn_heap s ! impl m in c_id cn = i \<and> r \<in> set (joined cn) \<and> NormalizeNS (c_ns cn) = ns)"

definition rooms_ok :: "'h server \<Rightarrow> bool" where
  "rooms_ok s \<longleftrightarrow>
     (\<forall>ns n. map_of (namespaces s) ns = Some n \<longrightarrow>
       manager_ok (ns_rooms n) \<and> (\<forall>r i m. occupants (ns_rooms n) r i = Some m \<longrightarrow> member_ok ns s r i m))"

definition joined_ok :: "'h server \<Rightarrow> bool" where
  "joined_ok s \<longleftrightarrow> (\<forall>cn\<in>set (conn_heap s). distinct (joined cn) \<and> length (joined cn) \<le> MaxRoomsPerConn)"

definition tasks_of :: "nat \<Rightarrow> 'h server \<Rightarrow> nat" where
  "tasks_of c s = length (filter (\<lambda>t. task_conn t = c) (tasks s))"

definition sem_ok :: "'h server \<Rightarrow> bool" where
  "sem_ok s \<longleftrightarrow>
     0 < MaxEventConcurrency (s_opts s) \<and>
     (\<forall>t\<in>set (tasks s). task_conn t < length (conn_heap s)) \<and>
     (\<forall>c<length (conn_heap s). eventSem (conn_heap s ! c) = Some (tasks_of c s) \<and>
        int (tasks_of c s) \<le> MaxEventConcurrency (s_opts s))"

definition server_ok :: "'h server \<Rightarrow> bool" where
  "server_ok s \<longleftrightarrow> sess_ok s \<and> rooms_ok s \<and> joined_ok s \<and> sem_ok s"

text \<open>
  The application's handlers may call anything of the API; all that is asked of them is that they
  keep the invariant and that connections, once created, stay on the heap.
\<close>

definition server_at :: "nat \<Rightarrow> 'h server \<Rightarrow> bool" where
  "server_at n s \<longleftrightarrow> server_ok s \<and> n \<le> length (conn_heap s)"

definition handlers_keep :: "'h handlers \<Rightarrow> bool" where
  "handlers_keep user \<longleftrightarrow> (\<forall>n h cl s. server_at n s \<longrightarrow> server_at n (snd (user h cl s)))"

subsection \<open>Updates that do not matter\<close>

text \<open>Two states that agree on everything the invariant looks at, apart from sessions.\<close>

definition conn_key :: "'h conn \<Rightarrow> string \<times> string \<times> nat \<times> string list \<times> nat option" where
  "conn_key cn = (c_id cn, c_ns cn, session cn, joined cn, eventSem cn)"

lemma sess_ok_mono:
  assumes "sess_ok s" "\<And>se ns c. session_conn se ns t = Some c \<Longrightarrow> session_conn se ns s = Some c"
    and "\<And>c. c < length (conn_heap s) \<Longrightarrow> c < length (conn_heap t) \<and>
      c_ns (conn_heap t ! c) = c_ns (conn_heap s ! c) \<and> session (conn_heap t ! c) = session (conn_heap s ! c)"
    and "\<And>ns. find_ns ns s \<noteq> None \<Longrightarrow> find_ns ns t \<noteq> None"
  shows "sess_ok t"
  unfolding sess_ok_def
proof (intro allI impI)
  fix se ns c assume "session_conn se ns t = Some c"
  then have "session_conn se ns s = Some c" by (rule assms(2))
  then have "c < length (conn_heap s) \<and> c_ns (conn_heap s ! c) = ns \<and> session (conn_heap s ! c) = se \<and> find_ns ns s \<noteq> None"
    using assms(1) unfolding sess_ok_def by blast
  then show "c < length (conn_heap t) \<and> c_ns (conn_heap t ! c) = ns \<and> session (conn_heap t ! c) = se \<and> find_ns ns t \<noteq> None"
    using assms(3) [of c] assms(4) [of ns] by simp
qed

lemma sem_ok_mono:
  assumes "sem_ok s" "tasks t = tasks s" "s_opts t = s_opts s" "length (conn_heap t) = length (conn_heap s)"
    and "\<And>c. c < length (conn_heap s) \<Longrightarrow> eventSem (conn_heap t ! c) = eventSem (conn_heap s ! c)"
  shows "sem_ok t"
  using assms by (simp add: sem_ok_def tasks_of_def)

lemma server_ok_cong:
  assumes "server_ok s" "map conn_key (conn_heap t) = map conn_key (conn_heap s)" "namespaces t = namespaces s"
    and "tasks t = tasks s" "s_opts t = s_opts s" "\<And>se ns c. session_conn se ns t = Some c \<Longrightarrow> session_conn se ns s = Some c"
  shows "server_ok t"
proof -
  have len: "length (conn_heap t) = length (conn_heap s)" using map_eq_imp_length_eq [OF assms(2)] .
  have key: "conn_key (conn_heap t ! c) = conn_key (conn_heap s ! c)" if "c < length (conn_heap s)" for c
    using assms(2) that len by (metis nth_map)
  have k: "c_id (conn_heap t ! c) = c_id (conn_heap s ! c)" "c_ns (conn_heap t ! c) = c_ns (conn_heap s ! c)"
    "session (conn_heap t ! c) = session (conn_heap s ! c)" "joined (conn_heap t ! c) = joined (conn_heap s ! c)"
    "eventSem (conn_heap t ! c) = eventSem (conn_heap s ! c)" if "c < length (conn_heap s)" for c
    using key [OF that] by (simp_all add: conn_key_def)
  have "sess_ok t" by (rule sess_ok_mono [of s]) (use assms k len in \<open>auto simp: server_ok_def find_ns_def\<close>)
  moreover have "rooms_ok t"
    using assms(1,3) k len by (auto simp: server_ok_def rooms_ok_def member_ok_def Let_def)
  moreover have "joined_ok t"
    using assms(1) k len by (auto simp: server_ok_def joined_ok_def set_conv_nth)
  moreover have "sem_ok t"
    by (rule sem_ok_mono [of s]) (use assms(1,4,5) k len in \<open>auto simp: server_ok_def\<close>)
  ultimately show ?thesis by (simp add: server_ok_def)
qed

lemma map_key_update:
  "(\<And>cn. conn_key (f cn) = conn_key cn) \<Longrightarrow> map conn_key (xs[c := f (xs ! c)]) = map conn_key xs"
  by (rule nth_equalityI) (auto simp: nth_update)

lemma server_ok_upd_conn:
  "server_ok s \<Longrightarrow> (\<And>cn. conn_key (f cn) = conn_key cn) \<Longrightarrow> server_ok (upd_conn c f s)"
  by (rule server_ok_cong) (simp_all add: map_key_update session_conn_def)

lemma server_ok_frame:
  "server_ok s \<Longrightarrow> server_ok (s\<lparr>tr := t\<rparr>)"
  "server_ok s \<Longrightarrow> server_ok (s\<lparr>es_heap := x\<rparr>)"
  "server_ok s \<Longrightarrow> server_ok (s\<lparr>conns := y, connCount := z\<rparr>)"
  "server_ok s \<Longrightarrow> server_ok (s\<lparr>s_closed := b\<rparr>)"
  by (erule server_ok_cong; simp add: session_conn_def)+

lemma server_ok_less_sessions:
  "server_ok s \<Longrightarrow> (\<And>se ns c. session_conn se ns (s\<lparr>sessions := x\<rparr>) = Some c \<Longrightarrow> session_conn se ns s = Some c) \<Longrightarrow>
   server_ok (s\<lparr>sessions := x\<rparr>)"
  by (erule server_ok_cong) simp_all

subsection \<open>Rooms\<close>

lemma member_okI:
  "member_ID m = i \<Longrightarrow> impl m < length (conn_heap s) \<Longrightarrow> c_id (conn_heap s ! impl m) = i \<Longrightarrow>
   r \<in> set (joined (conn_heap s ! impl m)) \<Longrightarrow> NormalizeNS (c_ns (conn_heap s ! impl m)) = ns \<Longrightarrow> member_ok ns s r i m"
  by (simp add: member_ok_def Let_def)

lemma member_okD:
  assumes "member_ok ns s r i m"
  shows "member_ID m = i" "impl m < length (conn_heap s)" "c_id (conn_heap s ! impl m) = i"
    "r \<in> set (joined (conn_heap s ! impl m))" "NormalizeNS (c_ns (conn_heap s ! impl m)) = ns"
  using assms by (simp_all add: member_ok_def Let_def)

lemma as_member_simps [simp]: "member_ID (as_member c s) = c_id (conn_heap s ! c)" "impl (as_member c s) = c"
  by (simp_all add: as_member_def)

lemma member_ok_moved:
  assumes m: "member_ok ns s r i m" and len: "length (conn_heap t) = length (conn_heap s)"
    and same: "c_id (conn_heap t ! impl m) = c_id (conn_heap s ! impl m)" "c_ns (conn_heap t ! impl m) = c_ns (conn_heap s ! impl m)"
      "r \<in> set (joined (conn_heap t ! impl m))"
  shows "member_ok ns t r i m"
  by (rule member_okI) (simp_all add: member_okD [OF m] len same)

lemma upd_ns_simps [simp]:
  "conn_heap (upd_ns ns f s) = conn_heap s" "sessions (upd_ns ns f s) = sessions s" "tasks (upd_ns ns f s) = tasks s"
  "s_opts (upd_ns ns f s) = s_opts s" "tr (upd_ns ns f s) = tr s" "es_heap (upd_ns ns f s) = es_heap s"
  "conns (upd_ns ns f s) = conns s" "connCount (upd_ns ns f s) = connCount s"
  by (simp_all add: upd_ns_def split: option.splits)

lemma upd_ns_map:
  "map_of (namespaces (upd_ns ns f s)) x =
     (if x = NormalizeNS ns then map_option f (map_of (namespaces s) x) else map_of (namespaces s) x)"
  by (simp add: upd_ns_def split: option.splits)

lemma find_ns_upd [simp]: "find_ns x (upd_ns ns f s) = None \<longleftrightarrow> find_ns x s = None"
  by (simp add: find_ns_def upd_ns_map)

lemma upd_ns_heap:
  "(upd_ns ns g s)\<lparr>conn_heap := h\<rparr> = upd_ns ns g (s\<lparr>conn_heap := h\<rparr>)"
  by (simp add: upd_ns_def split: option.splits)

text \<open>Taking a connection out of rooms: from the manager and from its own list at once.\<close>

lemma server_ok_leave:
  assumes ok: "server_ok s"
    and g: "\<And>mg. manager_ok mg \<Longrightarrow> manager_ok (g mg) \<and>
      (\<forall>r i. occupants (g mg) r i = (if i = c_id (conn_heap s ! c) \<and> \<not> keep r then None else occupants mg r i))"
  shows "server_ok (upd_ns (c_ns (conn_heap s ! c)) (ns_rooms_update g) (upd_conn c (joined_update (filter keep)) s))"
    (is "server_ok ?t")
proof -
  let ?cn = "conn_heap s ! c"
  have heap: "conn_heap ?t = (conn_heap s)[c := joined_update (filter keep) ?cn]" by simp
  have at: "conn_heap ?t ! a = (if a = c then joined_update (filter keep) ?cn else conn_heap s ! a)"
    if "a < length (conn_heap s)" for a using that by (auto simp: heap nth_update)
  have len: "length (conn_heap ?t) = length (conn_heap s)" by (simp add: heap)
  have same: "c_id (conn_heap ?t ! a) = c_id (conn_heap s ! a)" "c_ns (conn_heap ?t ! a) = c_ns (conn_heap s ! a)"
    "session (conn_heap ?t ! a) = session (conn_heap s ! a)" "eventSem (conn_heap ?t ! a) = eventSem (conn_heap s ! a)"
    "joined (conn_heap ?t ! a) = (if a = c then filter keep (joined ?cn) else joined (conn_heap s ! a))"
    if "a < length (conn_heap s)" for a
    unfolding at [OF that] by simp_all
  have "sess_ok ?t"
    by (rule sess_ok_mono [of s]) (use ok same len in \<open>auto simp: server_ok_def session_conn_def find_ns_def upd_ns_map\<close>)
  moreover have "sem_ok ?t" by (rule sem_ok_mono [of s]) (use ok same len in \<open>auto simp: server_ok_def\<close>)
  moreover have "joined_ok ?t" unfolding joined_ok_def heap
  proof
    fix cn assume "cn \<in> set ((conn_heap s)[c := joined_update (filter keep) ?cn])"
    then consider "cn \<in> set (conn_heap s)" | "c < length (conn_heap s)" "cn = joined_update (filter keep) ?cn"
      by (metis list_update_beyond not_le set_update_subset_insert insertE subsetD)
    then show "distinct (joined cn) \<and> length (joined cn) \<le> MaxRoomsPerConn"
    proof cases
      case 2
      have "distinct (joined ?cn) \<and> length (joined ?cn) \<le> MaxRoomsPerConn"
        using ok 2(1) by (auto simp: server_ok_def joined_ok_def)
      then show ?thesis using 2(2) order.trans [OF length_filter_le] by auto
    qed (use ok in \<open>auto simp: server_ok_def joined_ok_def\<close>)
  qed
  moreover have "rooms_ok ?t" unfolding rooms_ok_def
  proof (intro allI impI)
    fix ns n assume n: "map_of (namespaces ?t) ns = Some n"
    have "map_of (namespaces (upd_conn c (joined_update (filter keep)) s)) ns = map_of (namespaces s) ns" by simp
    then obtain n0 where n0: "map_of (namespaces s) ns = Some n0"
      and nn: "n = (if ns = NormalizeNS (c_ns ?cn) then ns_rooms_update g n0 else n0)"
      using n by (auto simp: upd_ns_map split: if_splits)
    have m0: "manager_ok (ns_rooms n0)"
      and o0: "\<And>r i m. occupants (ns_rooms n0) r i = Some m \<Longrightarrow> member_ok ns s r i m"
      using ok n0 by (auto simp: server_ok_def rooms_ok_def)
    have "member_ok ns ?t r i m" if o: "occupants (ns_rooms n) r i = Some m" for r i m
    proof -
      have o1: "occupants (ns_rooms n0) r i = Some m" and k: "ns = NormalizeNS (c_ns ?cn) \<Longrightarrow> i = c_id ?cn \<Longrightarrow> keep r"
        using o nn g [OF m0] by (auto split: if_splits)
      note m = o0 [OF o1]
      have "r \<in> set (joined (conn_heap ?t ! impl m))"
        unfolding same(5) [OF member_okD(2) [OF m]] using member_okD(3-5) [OF m] k by auto
      then show ?thesis by (intro member_ok_moved [OF m len] same member_okD(2) [OF m])
    qed
    moreover have "manager_ok (ns_rooms n)" using nn m0 g [OF m0] by simp
    ultimately show "manager_ok (ns_rooms n) \<and> (\<forall>r i m. occupants (ns_rooms n) r i = Some m \<longrightarrow> member_ok ns ?t r i m)"
      by blast
  qed
  ultimately show ?thesis by (simp add: server_ok_def)
qed

lemma filter_never: "filter (\<lambda>_. False) = (\<lambda>_. [])"
  by (simp add: fun_eq_iff)

lemma leaveAll_ok: "server_ok s \<Longrightarrow> server_ok (leaveAll c s)"
  using server_ok_leave [of s "LeaveAll (as_member c s)" c "\<lambda>_. False"]
  by (simp add: leaveAll_def upd_ns_heap filter_never mgr.ok_leave_all mgr.look_leave_all as_member_def)

lemma conn_Leave_ok: "server_ok s \<Longrightarrow> server_ok (conn_Leave room c s)"
  using server_ok_leave [of s "\<lambda>r. snd (Leave room (as_member c s) r)" c "\<lambda>r. r \<noteq> room"]
  by (simp add: conn_Leave_def removeAll_filter_not_eq [abs_def] mgr.ok_leave mgr.look_leave as_member_def eq_commute)

text \<open>Putting a connection into a room.\<close>

lemma conn_Join_ok:
  assumes ok: "server_ok s" and c: "c < length (conn_heap s)"
  shows "server_ok (conn_Join room c s)"
proof (cases "room = [] \<or> room \<in> set (joined (conn_heap s ! c)) \<or> length (joined (conn_heap s ! c)) \<ge> MaxRoomsPerConn")
  case True
  then have "conn_Join room c s = s" by (auto simp: conn_Join_def Let_def)
  then show ?thesis using ok by simp
next
  case False
  let ?cn = "conn_heap s ! c"
  let ?g = "\<lambda>r. snd (Join room (as_member c s) r)"
  let ?t = "upd_ns (c_ns ?cn) (ns_rooms_update ?g) (upd_conn c (joined_update (\<lambda>js. js @ [room])) s)"
  have t: "conn_Join room c s = ?t" using False by (simp add: conn_Join_def Let_def)
  have heap: "conn_heap ?t = (conn_heap s)[c := joined_update (\<lambda>js. js @ [room]) ?cn]" by simp
  have at: "conn_heap ?t ! a = (if a = c then joined_update (\<lambda>js. js @ [room]) ?cn else conn_heap s ! a)"
    if "a < length (conn_heap s)" for a using that by (auto simp: heap nth_update)
  have len: "length (conn_heap ?t) = length (conn_heap s)" by (simp add: heap)
  have same: "c_id (conn_heap ?t ! a) = c_id (conn_heap s ! a)" "c_ns (conn_heap ?t ! a) = c_ns (conn_heap s ! a)"
    "session (conn_heap ?t ! a) = session (conn_heap s ! a)" "eventSem (conn_heap ?t ! a) = eventSem (conn_heap s ! a)"
    "joined (conn_heap ?t ! a) = (if a = c then joined ?cn @ [room] else joined (conn_heap s ! a))"
    if "a < length (conn_heap s)" for a
    unfolding at [OF that] by simp_all
  have "sess_ok ?t"
    by (rule sess_ok_mono [of s]) (use ok same len in \<open>auto simp: server_ok_def session_conn_def find_ns_def upd_ns_map\<close>)
  moreover have "sem_ok ?t" by (rule sem_ok_mono [of s]) (use ok same len in \<open>auto simp: server_ok_def\<close>)
  moreover have "joined_ok ?t" unfolding joined_ok_def heap
  proof
    fix cn assume "cn \<in> set ((conn_heap s)[c := joined_update (\<lambda>js. js @ [room]) ?cn])"
    then consider "cn \<in> set (conn_heap s)" | "cn = joined_update (\<lambda>js. js @ [room]) ?cn"
      by (metis set_update_subset_insert insertE subsetD)
    then show "distinct (joined cn) \<and> length (joined cn) \<le> MaxRoomsPerConn"
    proof cases
      case 2
      have "distinct (joined ?cn)" using ok c by (auto simp: server_ok_def joined_ok_def)
      then show ?thesis using 2 False by simp
    qed (use ok in \<open>auto simp: server_ok_def joined_ok_def\<close>)
  qed
  moreover have "rooms_ok ?t" unfolding rooms_ok_def
  proof (intro allI impI)
    fix ns n assume n: "map_of (namespaces ?t) ns = Some n"
    have "map_of (namespaces (upd_conn c (joined_update (\<lambda>js. js @ [room])) s)) ns = map_of (namespaces s) ns" by simp
    then obtain n0 where n0: "map_of (namespaces s) ns = Some n0"
      and nn: "n = (if ns = NormalizeNS (c_ns ?cn) then ns_rooms_update ?g n0 else n0)"
      using n by (auto simp: upd_ns_map split: if_splits)
    have m0: "manager_ok (ns_rooms n0)"
      and o0: "\<And>r i m. occupants (ns_rooms n0) r i = Some m \<Longrightarrow> member_ok ns s r i m"
      using ok n0 by (auto simp: server_ok_def rooms_ok_def)
    have "member_ok ns ?t r i m" if o: "occupants (ns_rooms n) r i = Some m" for r i m
    proof -
      consider "occupants (ns_rooms n0) r i = Some m"
        | "ns = NormalizeNS (c_ns ?cn)" "r = room" "i = c_id ?cn" "m = as_member c s"
      proof (cases "ns = NormalizeNS (c_ns ?cn) \<and> r = room \<and> i = c_id ?cn \<and> occupants (ns_rooms n0) r i = None")
        case True
        then have n: "n = ns_rooms_update ?g n0" and r: "r = room" "i = c_id ?cn" "occupants (ns_rooms n0) r i = None"
          using nn by auto
        then have "occupants (ns_rooms n) r i = Some (as_member c s)"
          using mgr.look_join [OF m0, of room "as_member c s" r i] by simp
        then show thesis using that(2) True o by simp
      next
        case False
        have "occupants (ns_rooms n) r i = occupants (ns_rooms n0) r i"
        proof (cases "ns = NormalizeNS (c_ns ?cn)")
          case True
          then have nr: "\<not> (r = room \<and> i = member_ID (as_member c s) \<and> occupants (ns_rooms n0) room i = None)"
            using False by (metis as_member_simps(1))
          have "n = ns_rooms_update ?g n0" using nn True by simp
          then have "occupants (ns_rooms n) r i = occupants (snd (Join room (as_member c s) (ns_rooms n0))) r i" by simp
          also have "\<dots> = occupants (ns_rooms n0) r i" by (rule trans [OF mgr.look_join [OF m0] if_not_P [OF nr]])
          finally show ?thesis .
        qed (simp add: nn)
        then show thesis using that(1) o by simp
      qed
      then show ?thesis
      proof cases
        case 1
        note m = o0 [OF 1]
        have "r \<in> set (joined (conn_heap ?t ! impl m))"
          unfolding same(5) [OF member_okD(2) [OF m]] using member_okD(4) [OF m] by auto
        then show ?thesis by (intro member_ok_moved [OF m len] same member_okD(2) [OF m])
      next
        case 2
        then show ?thesis using same [OF c] c len by (intro member_okI) simp_all
      qed
    qed
    moreover have "manager_ok (ns_rooms n)" using nn m0 mgr.ok_join [OF m0] by simp
    ultimately show "manager_ok (ns_rooms n) \<and> (\<forall>r i m. occupants (ns_rooms n) r i = Some m \<longrightarrow> member_ok ns ?t r i m)"
      by blast
  qed
  ultimately show ?thesis unfolding t by (simp add: server_ok_def)
qed

text \<open>Other changes of a namespace: a room cleared, a handler set.\<close>

lemma upd_ns_ok:
  assumes ok: "server_ok s"
    and f: "\<And>n. manager_ok (ns_rooms n) \<Longrightarrow> manager_ok (ns_rooms (f n)) \<and>
      (\<forall>r i m. occupants (ns_rooms (f n)) r i = Some m \<longrightarrow> occupants (ns_rooms n) r i = Some m)"
  shows "server_ok (upd_ns ns f s)"
proof -
  let ?t = "upd_ns ns f s"
  have "sess_ok ?t"
    by (rule sess_ok_mono [of s]) (use ok in \<open>auto simp: server_ok_def session_conn_def find_ns_def upd_ns_map\<close>)
  moreover have "sem_ok ?t" by (rule sem_ok_mono [of s]) (use ok in \<open>auto simp: server_ok_def\<close>)
  moreover have "joined_ok ?t" using ok by (simp add: server_ok_def joined_ok_def)
  moreover have "rooms_ok ?t" unfolding rooms_ok_def
  proof (intro allI impI)
    fix x n assume n: "map_of (namespaces ?t) x = Some n"
    then obtain n0 where n0: "map_of (namespaces s) x = Some n0" and nn: "n = f n0 \<or> n = n0"
      by (auto simp: upd_ns_map split: if_splits)
    have "manager_ok (ns_rooms n0)" "\<And>r i m. occupants (ns_rooms n0) r i = Some m \<Longrightarrow> member_ok x s r i m"
      using ok n0 by (auto simp: server_ok_def rooms_ok_def)
    moreover have "member_ok x ?t r i m \<longleftrightarrow> member_ok x s r i m" for r i m by (simp add: member_ok_def)
    ultimately show "manager_ok (ns_rooms n) \<and> (\<forall>r i m. occupants (ns_rooms n) r i = Some m \<longrightarrow> member_ok x ?t r i m)"
      using nn f [of n0] by auto
  qed
  ultimately show ?thesis by (simp add: server_ok_def)
qed

lemma ensureNamespace_ok:
  assumes ok: "server_ok s" shows "server_ok (snd (ensureNamespace ns s))"
proof (cases "map_of (namespaces s) (NormalizeNS ns)")
  case None
  let ?t = "s\<lparr>namespaces := AList.update (NormalizeNS ns) (newNamespace (NormalizeNS ns)) (namespaces s)\<rparr>"
  have t: "snd (ensureNamespace ns s) = ?t" using None by (simp add: ensureNamespace_def Let_def)
  have "sess_ok ?t"
    by (rule sess_ok_mono [of s]) (use ok in \<open>auto simp: server_ok_def session_conn_def find_ns_def\<close>)
  moreover have "sem_ok ?t" by (rule sem_ok_mono [of s]) (use ok in \<open>auto simp: server_ok_def\<close>)
  moreover have "joined_ok ?t" using ok by (simp add: server_ok_def joined_ok_def)
  moreover have "member_ok x ?t r i m \<longleftrightarrow> member_ok x s r i m" for x r i m by (simp add: member_ok_def)
  then have "rooms_ok ?t"
    using ok manager_ok_New by (auto simp: server_ok_def rooms_ok_def newNamespace_def occupants_def New_def)
  ultimately show ?thesis unfolding t by (simp add: server_ok_def)
next
  case (Some n)
  then show ?thesis using ok by (simp add: ensureNamespace_def Let_def)
qed

lemma ensureNamespace_conn [simp]:
  "conn_heap (snd (ensureNamespace ns s)) = conn_heap s" "sessions (snd (ensureNamespace ns s)) = sessions s"
  by (simp_all add: ensureNamespace_def Let_def split: option.splits)

lemma find_ensured: "find_ns ns (snd (ensureNamespace ns s)) \<noteq> None"
  by (auto simp: ensureNamespace_def find_ns_def Let_def split: option.splits)

lemma set_handler_ok:
  "server_ok s \<Longrightarrow> (\<And>n. ns_rooms (f n) = ns_rooms n) \<Longrightarrow> server_ok (set_handler ns f s)"
  using upd_ns_ok [OF ensureNamespace_ok [of s ns], of f "fst (ensureNamespace ns s)"]
  by (simp add: set_handler_def case_prod_beta)

lemma ClearRoom_ok: "server_ok s \<Longrightarrow> server_ok (ClearRoom ns room s)"
  unfolding ClearRoom_def
  by (rule upd_ns_ok) (auto simp: mgr.ok_clear mgr.look_clear split: if_splits)

subsection \<open>Sending\<close>

lemma send_frame: "\<exists>t. snd (send se p b s) = s\<lparr>tr := t\<rparr>"
proof -
  have "\<exists>t. s = s\<lparr>tr := t\<rparr>" by (rule exI [of _ "tr s"]) simp
  then show ?thesis unfolding send_def
    by (auto split: sum.splits option.splits prod.splits if_splits)
qed

lemma send_ok: "server_ok s \<Longrightarrow> server_ok (snd (send se p b s))"
  using send_frame [of se p b s] server_ok_frame(1) by metis

lemma send_simps [simp]:
  "conn_heap (snd (send se p b s)) = conn_heap s" "sessions (snd (send se p b s)) = sessions s"
  "namespaces (snd (send se p b s)) = namespaces s" "conns (snd (send se p b s)) = conns s"
  "connCount (snd (send se p b s)) = connCount s" "tasks (snd (send se p b s)) = tasks s"
  "s_opts (snd (send se p b s)) = s_opts s" "es_heap (snd (send se p b s)) = es_heap s"
  using send_frame [of se p b s] by auto

lemma conn_Emit_ok: "server_ok s \<Longrightarrow> server_ok (snd (conn_Emit c e args s))"
  by (auto simp: conn_Emit_def send_ok split: sum.splits)

lemma emitAck_ok: "server_ok s \<Longrightarrow> server_ok (snd (emitAck c i args s))"
  by (auto simp: emitAck_def send_ok split: sum.splits)

lemma sendConnectError_ok: "server_ok s \<Longrightarrow> server_ok (sendConnectError se ns msg s)"
  by (simp add: sendConnectError_def send_ok)

subsection \<open>Handlers and removal\<close>

lemma run_handler_at: "handlers_keep user \<Longrightarrow> server_at n s \<Longrightarrow> server_at n (run_handler user fn cl s)"
  by (simp add: run_handler_def handlers_keep_def split: option.splits)

lemma handler_at: "handlers_keep user \<Longrightarrow> server_at n s \<Longrightarrow> user h cl s = (e, t) \<Longrightarrow> server_at n t"
  unfolding handlers_keep_def by (metis snd_conv)

lemma server_at_upd_conn:
  "server_at n s \<Longrightarrow> (\<And>cn. conn_key (f cn) = conn_key cn) \<Longrightarrow> server_at n (upd_conn c f s)"
  unfolding server_at_def using server_ok_upd_conn [of s f c] by simp

lemma send_at: "server_at n s \<Longrightarrow> server_at n (snd (send se p b s))"
  by (simp add: server_at_def send_ok)

lemma sendConnectError_at: "server_at n s \<Longrightarrow> server_at n (sendConnectError se ns msg s)"
  unfolding sendConnectError_def by (rule send_at)

lemma leaveAll_heap [simp]: "length (conn_heap (leaveAll c s)) = length (conn_heap s)"
  by (simp add: leaveAll_def)

lemma leaveAll_at: "server_at n s \<Longrightarrow> server_at n (leaveAll c s)"
  by (simp add: server_at_def leaveAll_ok)

lemma forget_at: "handlers_keep user \<Longrightarrow> server_at n s \<Longrightarrow> server_at n (forget user c reason s)"
proof -
  assume u: "handlers_keep user" and s: "server_at n s"
  let ?s = "leaveAll c s"
  let ?t = "?s\<lparr>conns := AList.delete (c_id (conn_heap ?s ! c)) (conns ?s), connCount := connCount ?s - 1\<rparr>"
  have "server_at n ?s" by (rule leaveAll_at [OF s])
  then have "server_at n ?t" unfolding server_at_def by (simp add: server_ok_frame(3))
  then show ?thesis using run_handler_at [OF u] by (auto simp: forget_def Let_def split: option.splits)
qed

lemma sessions_less:
  "server_at n s \<Longrightarrow> (\<And>se ns c. session_conn se ns (s\<lparr>sessions := x\<rparr>) = Some c \<Longrightarrow> session_conn se ns s = Some c) \<Longrightarrow>
   server_at n (s\<lparr>sessions := x\<rparr>)"
  unfolding server_at_def using server_ok_less_sessions [of s x] by simp

lemma sessions_update_less:
  "map_of (sessions s) se = Some m \<Longrightarrow> session_conn se' ns' (s\<lparr>sessions := AList.update se (AList.delete ns m) (sessions s)\<rparr>) = Some c \<Longrightarrow>
   session_conn se' ns' s = Some c"
  by (auto simp: session_conn_def split: if_splits option.splits)

lemma sessions_delete_less:
  "session_conn se' ns' (s\<lparr>sessions := AList.delete se (sessions s)\<rparr>) = Some c \<Longrightarrow> session_conn se' ns' s = Some c"
  by (auto simp: session_conn_def split: if_splits option.splits)

lemma removeConn_at: "handlers_keep user \<Longrightarrow> server_at n s \<Longrightarrow> server_at n (removeConn user c reason s)"
  using sessions_less [OF _ sessions_update_less] forget_at
  by (fastforce simp: removeConn_def Let_def split: option.splits)

lemma conn_Close_at:
  assumes "handlers_keep user" "server_at n s" shows "server_at n (snd (conn_Close user c s))"
proof -
  let ?s = "leaveAll c (upd_conn c (\<lambda>cn. cn\<lparr>closeOnce := True, c_closed := True\<rparr>) s)"
  have "server_at n ?s" by (intro leaveAll_at server_at_upd_conn assms(2)) (simp add: conn_key_def)
  then have "server_at n (removeConn user c r (snd (send se p b ?s)))" for se p b r
    by (intro removeConn_at [OF assms(1)] send_at)
  then show ?thesis using assms(2) by (simp add: conn_Close_def Let_def case_prod_beta)
qed

lemma disconnectNamespace_at:
  assumes "handlers_keep user" "server_at n s" shows "server_at n (disconnectNamespace user se ns reason s)"
  using assms forget_at [OF assms(1) sessions_less [OF assms(2) sessions_update_less]]
  by (auto simp: disconnectNamespace_def split: option.splits)

lemma es_close_at: "server_at n s \<Longrightarrow> server_at n (es_close se s)"
  by (auto simp: server_at_def es_close_def intro!: server_ok_frame(1) server_ok_frame(2))

lemma teardown_fold_at:
  "handlers_keep user \<Longrightarrow> server_at n s \<Longrightarrow>
   server_at n (fold (\<lambda>(_, c) s. forget user c reason (upd_conn c (c_closed_update (\<lambda>_. True)) s)) m s)"
proof (induction m arbitrary: s)
  case (Cons a m)
  obtain ns c where [simp]: "a = (ns, c)" by (cases a)
  have "server_at n (upd_conn c (c_closed_update (\<lambda>_. True)) s)"
    by (rule server_at_upd_conn [OF Cons.prems(2)]) (simp add: conn_key_def)
  then show ?case using Cons.IH [OF Cons.prems(1) forget_at [OF Cons.prems(1)]] by simp
qed simp

lemma teardownSession_at:
  "handlers_keep user \<Longrightarrow> server_at n s \<Longrightarrow> server_at n (teardownSession user se reason s)"
  unfolding teardownSession_def Let_def
  by (intro es_close_at teardown_fold_at sessions_less [OF _ sessions_delete_less])

subsection \<open>Connecting\<close>

lemma register_at:
  assumes s: "server_at n s" and ns: "find_ns (Namespace p) s \<noteq> None" and r: "register i se p s = Return (x, t)"
  shows "server_at n t \<and> (\<forall>c. x = Some c \<longrightarrow> c < length (conn_heap t))"
proof (cases "session_conn se (Namespace p) s")
  case (Some c)
  then show ?thesis using s r by (simp add: register_def)
next
  case None
  obtain m where m: "map_of (sessions s) se = Some m"
    using r None by (auto simp: register_def Let_def split: option.splits)
  let ?a = "length (conn_heap s)"
  let ?cn = "(newConn i (Namespace p) se s)\<lparr>ctx := (if Data p \<noteq> [] then unmarshal_any (Data p) else None)\<rparr>"
  let ?t = "s\<lparr>conn_heap := conn_heap s @ [?cn],
      sessions := AList.update se (AList.update (Namespace p) ?a m) (sessions s),
      conns := AList.update i ?a (conns s), connCount := connCount s + 1\<rparr>"
  have xt: "x = Some ?a" "t = ?t" using r None m by (auto simp: register_def Let_def)
  have ok: "sess_ok s" "rooms_ok s" "joined_ok s" "sem_ok s" and n: "n \<le> ?a"
    using s by (simp_all add: server_at_def server_ok_def)
  have old: "conn_heap ?t ! c = conn_heap s ! c" if "c < ?a" for c using that by (simp add: nth_append)
  have new: "conn_heap ?t ! ?a = ?cn" by simp
  have cn: "joined ?cn = []" "eventSem ?cn = Some 0" "c_ns ?cn = Namespace p" "session ?cn = se"
    using ok(4) by (simp_all add: newConn_def sem_ok_def)
  have "sess_ok ?t" unfolding sess_ok_def
  proof (intro allI impI)
    fix se' ns' c assume c: "session_conn se' ns' ?t = Some c"
    show "c < length (conn_heap ?t) \<and> c_ns (conn_heap ?t ! c) = ns' \<and> session (conn_heap ?t ! c) = se' \<and> find_ns ns' ?t \<noteq> None"
    proof (cases "se' = se \<and> ns' = Namespace p")
      case True
      then have "c = ?a" using c by (simp add: session_conn_def)
      then show ?thesis using True ns new cn(3,4) by (simp add: find_ns_def)
    next
      case False
      then have "session_conn se' ns' s = Some c" using c m by (auto simp: session_conn_def split: if_splits)
      then have "c < ?a \<and> c_ns (conn_heap s ! c) = ns' \<and> session (conn_heap s ! c) = se' \<and> find_ns ns' s \<noteq> None"
        using ok(1) unfolding sess_ok_def by blast
      then show ?thesis using old [of c] by (simp add: find_ns_def)
    qed
  qed
  moreover have "rooms_ok ?t" unfolding rooms_ok_def
  proof (intro allI impI)
    fix ns n assume "map_of (namespaces ?t) ns = Some n"
    then have n: "manager_ok (ns_rooms n)" "\<And>r i m. occupants (ns_rooms n) r i = Some m \<Longrightarrow> member_ok ns s r i m"
      using ok(2) by (auto simp: rooms_ok_def)
    have "member_ok ns ?t r j m" if "occupants (ns_rooms n) r j = Some m" for r j m
    proof -
      note mo = member_okD [OF n(2) [OF that]]
      show ?thesis using mo old [OF mo(2)] by (intro member_okI) simp_all
    qed
    then show "manager_ok (ns_rooms n) \<and> (\<forall>r i m. occupants (ns_rooms n) r i = Some m \<longrightarrow> member_ok ns ?t r i m)"
      using n(1) by blast
  qed
  moreover have "joined_ok ?t" using ok(3) cn(1) by (simp add: joined_ok_def)
  moreover have "sem_ok ?t"
  proof -
    have "tasks_of ?a s = 0" using ok(4) by (auto simp: sem_ok_def tasks_of_def filter_empty_conv)
    then have "eventSem (conn_heap ?t ! c) = Some (tasks_of c ?t) \<and> int (tasks_of c ?t) \<le> MaxEventConcurrency (s_opts ?t)"
      if "c < length (conn_heap ?t)" for c
      using that ok(4) cn(2) old [of c] new by (cases "c = ?a") (simp_all add: sem_ok_def tasks_of_def)
    moreover have "\<forall>t\<in>set (tasks ?t). task_conn t < length (conn_heap ?t)"
      using ok(4) by (auto simp: sem_ok_def)
    ultimately show ?thesis using ok(4) unfolding sem_ok_def by simp
  qed
  ultimately show ?thesis unfolding xt using n by (simp add: server_at_def server_ok_def)
qed

lemma greet_at:
  assumes u: "handlers_keep user" and s: "server_at n s" shows "server_at n (greet user se ns i c s)"
proof -
  obtain e t where t: "send se (connect_reply ns i) [] s = (e, t)" by fastforce
  have st: "server_at n t" using send_at [OF s, of se "connect_reply ns i" "[]"] t by simp
  show ?thesis
  proof (cases e)
    case (Some x)
    then show ?thesis using t conn_Close_at [OF u st, of c] by (simp add: greet_def)
  next
    case None
    have h: "server_at n (case user h (ConnectCall c) t of (None, s) \<Rightarrow> s
        | (Some _, s) \<Rightarrow> removeConn user c ''rejected'' (sendConnectError se ns ''Not authorized'' s))" for h
    proof -
      obtain e2 t2 where t2: "user h (ConnectCall c) t = (e2, t2)" by fastforce
      have "server_at n t2" by (rule handler_at [OF u st t2])
      then have "server_at n (removeConn user c ''rejected'' (sendConnectError se ns ''Not authorized'' t2))"
        by (intro removeConn_at [OF u] sendConnectError_at)
      then show ?thesis using t2 \<open>server_at n t2\<close> by (cases e2) simp_all
    qed
    then show ?thesis using t None st by (auto simp: greet_def split: option.splits)
  qed
qed

lemma connectNamespace_at:
  assumes u: "handlers_keep user" and s: "server_at n s" and r: "connectNamespace user i se p s = Return t"
  shows "server_at n t"
proof (cases "find_ns (Namespace p) s = None \<and> Namespace p \<noteq> ''/''")
  case True
  then show ?thesis using r s by (auto simp: connectNamespace_def Let_def sendConnectError_at)
next
  case False
  let ?s = "snd (ensureNamespace (Namespace p) s)"
  have s1: "server_at n ?s" using s by (simp add: server_at_def ensureNamespace_ok)
  obtain x t1 where x: "register i se p ?s = Return (x, t1)"
    using r False by (auto simp: connectNamespace_def Let_def split: outcome.splits)
  have t1: "server_at n t1" using register_at [OF s1 find_ensured x] by blast
  show ?thesis using r False x t1 greet_at [OF u t1]
    by (cases x) (auto simp: connectNamespace_def Let_def)
qed

lemma fireAck_at:
  assumes u: "handlers_keep user" and s: "server_at n s" and r: "fireAck user c i p b s = Return t"
  shows "server_at n t"
proof -
  have "server_at n (upd_conn c (binaryAcks_update (AList.delete k)) s)" "server_at n (upd_conn c (acks_update (AList.delete k)) s)" for k
    by (rule server_at_upd_conn [OF s]; simp add: conn_key_def)+
  then have "server_at n (run_handler user fn cl (upd_conn c (binaryAcks_update (AList.delete k)) s))"
    "server_at n (run_handler user fn cl (upd_conn c (acks_update (AList.delete k)) s))" for fn cl k
    using run_handler_at [OF u] by blast+
  then show ?thesis using r by (auto simp: fireAck_def Let_def split: if_splits outcome.splits)
qed

lemma reportError_at: "handlers_keep user \<Longrightarrow> server_at n s \<Longrightarrow> server_at n (reportError user c e s)"
  using run_handler_at by (auto simp: reportError_def split: option.splits)

subsection \<open>Dispatching\<close>

definition dispatched_ok :: "nat \<Rightarrow> 'h server \<Rightarrow> 'h dispatched \<Rightarrow> bool" where
  "dispatched_ok n s d \<longleftrightarrow>
     (case d of Done t \<Rightarrow> server_at n t | Start t \<Rightarrow> task_conn t < length (conn_heap s) | Panics m \<Rightarrow> m \<noteq> ''nil pointer dereference'')"

lemma reconstruct_panic_text: "reconstructValue v bs = GoPanic m \<Longrightarrow> m = ''index out of range''"
proof (induction v bs rule: reconstructValue.induct)
  case (1 xs buffers)
  then have "run_all (map (\<lambda>x. reconstructValue x buffers) xs) = GoPanic m" by (simp add: out_map_panic)
  then obtain x where "x \<in> set xs" "reconstructValue x buffers = GoPanic m" using run_all_panic by fastforce
  then show ?case by (rule "1.IH")
next
  case (2 m' buffers)
  show ?case
  proof (cases "map_of m' ''_placeholder'' = Some (RBool True)")
    case True
    then have "fill_placeholder (map_of m' ''num'') buffers = GoPanic m" using 2(2) by simp
    then show ?thesis by (simp add: fill_placeholder_def split: option.splits rval.splits if_splits)
  next
    case False
    then have "run_all (map (\<lambda>(k, x). out_map (\<lambda>r. (k, r)) (reconstructValue x buffers)) m') = GoPanic m"
      using 2(2) by (simp add: out_map_panic)
    then obtain k x where x: "(k, x) \<in> set m'" "out_map (\<lambda>r. (k, r)) (reconstructValue x buffers) = GoPanic m"
      using run_all_panic by fastforce
    then have "reconstructValue x buffers = GoPanic m" by (simp add: out_map_panic)
    then show ?thesis using "2.IH" [OF False x(1) refl] by simp
  qed
qed auto

lemma Reconstruct_panic_text: "Reconstruct d bs = GoPanic m \<Longrightarrow> m = ''index out of range''"
  by (auto simp: Reconstruct_def dest: reconstruct_panic_text split: option.splits)

lemma session_conn_ok:
  "server_at n s \<Longrightarrow> session_conn se ns s = Some c \<Longrightarrow> c < length (conn_heap s) \<and> find_ns ns s \<noteq> None"
  unfolding server_at_def server_ok_def sess_ok_def by blast

lemma dispatchEvent_ok:
  assumes u: "handlers_keep user" and s: "server_at n s"
  shows "dispatched_ok n s (dispatchEvent user se p b s)"
proof (cases "session_conn se (Namespace p) s")
  case None
  then show ?thesis using s by (simp add: dispatchEvent_def dispatched_ok_def)
next
  case (Some c)
  obtain nsp where nsp: "find_ns (Namespace p) s = Some nsp" and c: "c < length (conn_heap s)"
    using session_conn_ok [OF s Some] by auto
  note e = reportError_at [OF u s]
  show ?thesis
  proof (cases "Type p = TypeBinaryEvent")
    case True
    show ?thesis
    proof (cases "Reconstruct (Data p) b")
      case (Return v)
      have "dispatched_ok n s (case (snd (getEvent name nsp), v) of (Some h, RArr a) \<Rightarrow> Start (BinaryTask c h a (ID p)) | _ \<Rightarrow> Done s)" for name
        using c s by (cases v; cases "snd (getEvent name nsp)") (simp_all add: dispatched_ok_def)
      then show ?thesis using Some True Return nsp e
        by (cases "EventName (Data p)") (simp_all add: dispatchEvent_def dispatched_ok_def)
    next
      case (Fail x)
      then show ?thesis using Some True e by (simp add: dispatchEvent_def dispatched_ok_def)
    next
      case (GoPanic m)
      then show ?thesis using Some True Reconstruct_panic_text [OF GoPanic] by (simp add: dispatchEvent_def dispatched_ok_def)
    qed
  next
    case False
    then show ?thesis using Some nsp c e s
      by (auto simp: dispatchEvent_def dispatched_ok_def Let_def split: sum.splits)
  qed
qed

lemma fireAck_panic: "fireAck user c i p b s = GoPanic m \<Longrightarrow> m = ''index out of range''"
  by (auto simp: fireAck_def Let_def dest: Reconstruct_panic_text split: outcome.splits if_splits)

lemma register_panic: "register i se p s = GoPanic m \<Longrightarrow> m = ''assignment to entry in nil map''"
  by (auto simp: register_def Let_def split: option.splits if_splits)

lemma connect_panic: "connectNamespace user i se p s = GoPanic m \<Longrightarrow> m = ''assignment to entry in nil map''"
  by (auto simp: connectNamespace_def Let_def dest: register_panic split: outcome.splits option.splits if_splits)

lemma of_outcome_ok:
  assumes "server_at n s" "\<And>t. r = Return t \<Longrightarrow> server_at n t" "\<And>m. r = GoPanic m \<Longrightarrow> m \<noteq> ''nil pointer dereference''"
  shows "dispatched_ok n s (of_outcome s r)"
  using assms by (cases r) (auto simp: of_outcome_def dispatched_ok_def)

lemma dispatchPacket_ok:
  assumes u: "handlers_keep user" and s: "server_at n s"
  shows "dispatched_ok n s (dispatchPacket user i se p b s)"
proof -
  have "dispatched_ok n s (of_outcome s (connectNamespace user i se p s))"
    using s connectNamespace_at [OF u s] connect_panic by (intro of_outcome_ok) fastforce+
  moreover have "dispatched_ok n s (of_outcome s (dispatchAck user se (Namespace p) p b s))"
    using s fireAck_at [OF u s] fireAck_panic
    by (intro of_outcome_ok) (fastforce simp: dispatchAck_def split: option.splits)+
  moreover have "dispatched_ok n s (Done (disconnectNamespace user se (Namespace p) r s))" for r
    using disconnectNamespace_at [OF u s] by (simp add: dispatched_ok_def)
  moreover have "dispatched_ok n s (Done (sendConnectError se (Namespace p) m s))" for m
    using sendConnectError_at [OF s] by (simp add: dispatched_ok_def)
  ultimately show ?thesis using dispatchEvent_ok [OF u s] unfolding dispatchPacket_def by presburger
qed

subsection \<open>Tasks\<close>

text \<open>An update of the semaphores only.\<close>

lemma same_fields_at:
  assumes s: "server_at n s" and len: "length (conn_heap t) = length (conn_heap s)"
    and same: "\<And>a. a < length (conn_heap s) \<Longrightarrow> c_id (conn_heap t ! a) = c_id (conn_heap s ! a) \<and>
      c_ns (conn_heap t ! a) = c_ns (conn_heap s ! a) \<and> session (conn_heap t ! a) = session (conn_heap s ! a) \<and>
      joined (conn_heap t ! a) = joined (conn_heap s ! a)"
    and rest: "sessions t = sessions s" "namespaces t = namespaces s" and sem: "sem_ok t"
  shows "server_at n t"
proof -
  have ok: "sess_ok s" "rooms_ok s" "joined_ok s" using s by (simp_all add: server_at_def server_ok_def)
  have "sess_ok t" by (rule sess_ok_mono [OF ok(1)]) (use same len rest in \<open>auto simp: session_conn_def find_ns_def\<close>)
  moreover have "member_ok ns t r i m" if "member_ok ns s r i m" for ns r i m
    using same [OF member_okD(2) [OF that]] member_okD(4) [OF that] by (intro member_ok_moved [OF that len]) simp_all
  then have "rooms_ok t" using ok(2) rest(2) unfolding rooms_ok_def by metis
  moreover have "joined_ok t" using ok(3) same len unfolding joined_ok_def by (metis in_set_conv_nth)
  ultimately show ?thesis using s sem len by (simp add: server_at_def server_ok_def)
qed

lemma upd_sem_at:
  assumes s: "server_at n s" and heap: "conn_heap t = (conn_heap s)[c := eventSem_update f (conn_heap s ! c)]"
    and rest: "sessions t = sessions s" "namespaces t = namespaces s" "s_opts t = s_opts s"
    and tasks: "\<forall>x\<in>set (tasks t). task_conn x < length (conn_heap s)"
    and sem: "\<And>a. a < length (conn_heap s) \<Longrightarrow> eventSem (conn_heap s ! a) = Some (tasks_of a s) \<Longrightarrow>
      int (tasks_of a s) \<le> MaxEventConcurrency (s_opts s) \<Longrightarrow>
      (if a = c then f (Some (tasks_of a s)) else Some (tasks_of a s)) = Some (tasks_of a t) \<and>
      int (tasks_of a t) \<le> MaxEventConcurrency (s_opts s)"
  shows "server_at n t"
proof -
  have at: "conn_heap t ! a = (if a = c then eventSem_update f (conn_heap s ! c) else conn_heap s ! a)"
    if "a < length (conn_heap s)" for a using that by (auto simp: heap nth_update)
  have ok: "sem_ok s" using s by (simp add: server_at_def server_ok_def)
  have "sem_ok t" unfolding sem_ok_def
  proof (intro conjI allI impI)
    fix a assume "a < length (conn_heap t)"
    then have a: "a < length (conn_heap s)" by (simp add: heap)
    then have e: "eventSem (conn_heap s ! a) = Some (tasks_of a s)" "int (tasks_of a s) \<le> MaxEventConcurrency (s_opts s)"
      using ok by (simp_all add: sem_ok_def)
    have "eventSem (conn_heap t ! a) = (if a = c then f (eventSem (conn_heap s ! a)) else eventSem (conn_heap s ! a))"
      unfolding at [OF a] by simp
    then show "eventSem (conn_heap t ! a) = Some (tasks_of a t)" "int (tasks_of a t) \<le> MaxEventConcurrency (s_opts t)"
      using sem [OF a e] e rest(3) by auto
  qed (use ok tasks rest(3) in \<open>simp_all add: sem_ok_def heap\<close>)
  moreover have "length (conn_heap t) = length (conn_heap s)" by (simp add: heap)
  ultimately show ?thesis by (intro same_fields_at [OF s _ _ rest(1,2)]) (simp_all add: at)
qed

lemma start_task_at:
  assumes s: "server_at n s" and t: "task_conn t < length (conn_heap s)" "slot_free (task_conn t) s"
  shows "server_at n (start_task t s)"
proof (rule upd_sem_at [OF s])
  show "conn_heap (start_task t s) =
      (conn_heap s)[task_conn t := eventSem_update (map_option Suc) (conn_heap s ! task_conn t)]"
    by (simp add: start_task_def Let_def)
  show "\<forall>x\<in>set (tasks (start_task t s)). task_conn x < length (conn_heap s)"
    using s t(1) by (auto simp: start_task_def Let_def server_at_def server_ok_def sem_ok_def)
  fix a assume "eventSem (conn_heap s ! a) = Some (tasks_of a s)" "int (tasks_of a s) \<le> MaxEventConcurrency (s_opts s)"
  then show "(if a = task_conn t then map_option Suc (Some (tasks_of a s)) else Some (tasks_of a s)) =
      Some (tasks_of a (start_task t s)) \<and> int (tasks_of a (start_task t s)) \<le> MaxEventConcurrency (s_opts s)"
    using t(2) by (auto simp: start_task_def Let_def tasks_of_def slot_free_def)
qed (simp_all add: start_task_def Let_def)

lemma finish_task_at:
  assumes s: "server_at n s" shows "server_at n (finish_task k s)"
proof (cases "k < length (tasks s)")
  case True
  let ?c = "task_conn (tasks s ! k)"
  have "tasks s = take k (tasks s) @ tasks s ! k # drop (Suc k) (tasks s)" by (rule id_take_nth_drop [OF True])
  then have "tasks_of a s = length (filter (\<lambda>t. task_conn t = a) (take k (tasks s) @ tasks s ! k # drop (Suc k) (tasks s)))" for a
    unfolding tasks_of_def by (rule arg_cong)
  then have n: "tasks_of a s = tasks_of a (finish_task k s) + (if a = ?c then 1 else 0)" for a
    using True by (simp add: tasks_of_def finish_task_def)
  show ?thesis
  proof (rule upd_sem_at [OF s])
    show "conn_heap (finish_task k s) = (conn_heap s)[?c := eventSem_update (map_option (\<lambda>n. n - 1)) (conn_heap s ! ?c)]"
      using True by (simp add: finish_task_def)
    show "\<forall>x\<in>set (tasks (finish_task k s)). task_conn x < length (conn_heap s)"
      using s True by (auto simp: finish_task_def server_at_def server_ok_def sem_ok_def dest: in_set_takeD in_set_dropD)
    fix a assume "int (tasks_of a s) \<le> MaxEventConcurrency (s_opts s)"
    then show "(if a = ?c then map_option (\<lambda>n. n - 1) (Some (tasks_of a s)) else Some (tasks_of a s)) =
        Some (tasks_of a (finish_task k s)) \<and> int (tasks_of a (finish_task k s)) \<le> MaxEventConcurrency (s_opts s)"
      using n [of a] by auto
  qed (use True in \<open>simp_all add: finish_task_def\<close>)
qed (simp add: finish_task_def s)

lemma emitAck_at: "server_at n s \<Longrightarrow> server_at n (snd (emitAck c i args s))"
  using send_at by (auto simp: emitAck_def split: sum.splits)

lemma task_body_at:
  assumes "handlers_keep user" "server_at n s" shows "server_at n (task_body user t s)"
proof (cases t)
  case (EventTask c fn args i)
  have "server_at n (run_handler user fn (EventCall c args) s)" by (rule run_handler_at [OF assms])
  then show ?thesis using EventTask emitAck_at by (auto simp: task_body_def Let_def split: option.splits)
next
  case (BinaryTask c h a i)
  then show ?thesis using assms by (simp add: task_body_def handlers_keep_def)
qed

end
