(* ===== verification/Sio_Machine.thy ===== *)
theory Sio_Machine
  imports Sio_Invariant
begin

section \<open>server: readers, handlers and the API, interleaved\<close>

text \<open>
  The server as a machine. Its steps are: the loop of \<open>Serve\<close> gives an accepted session a reader, a reader deals with one
  message, a reader waiting for a slot tries again, a handler goroutine runs, the application calls
  the API, and the transport below changes on its own (by its HTTP handlers and its reads; the
  invariant does not depend on it, so any change is allowed). Every interleaving of them is a list of events; a step that would panic is where the
  process ends, so \<open>live_step\<close>, which skips it, reaches the states in which the process is alive.
\<close>

subsection \<open>The steps\<close>

datatype 'h api =
    ApiOnConnect string 'h
  | ApiOnDisconnect string 'h
  | ApiOnError string 'h
  | ApiOnEvent string string 'h
  | ApiOnBinaryEvent string string 'h
  | ApiSetContext nat "rval option"
  | ApiJoin string nat
  | ApiLeave string nat
  | ApiJoinRoom string string "nat option"
  | ApiLeaveRoom string string "nat option"
  | ApiLeaveAllRooms string "nat option"
  | ApiClearRoom string string
  | ApiEmit nat string "gval list"
  | ApiEmitWithAck nat string 'h "gval list"
  | ApiEmitWithBinaryAck nat string 'h "gval list"
  | ApiToRoom string string string "nat option" "gval list"
  | ApiToNamespace string string "gval list"
  | ApiConnClose nat
  | ApiClose

fun api_step :: "'h handlers \<Rightarrow> 'h api \<Rightarrow> 'h server \<Rightarrow> 'h server" where
  "api_step user (ApiOnConnect ns h) s = OnConnect ns h s"
| "api_step user (ApiOnDisconnect ns h) s = OnDisconnect ns h s"
| "api_step user (ApiOnError ns h) s = OnError ns h s"
| "api_step user (ApiOnEvent ns e h) s = OnEvent ns e h s"
| "api_step user (ApiOnBinaryEvent ns e h) s = OnBinaryEvent ns e h s"
| "api_step user (ApiSetContext c v) s = SetContext c v s"
| "api_step user (ApiJoin room c) s = conn_Join room c s"
| "api_step user (ApiLeave room c) s = conn_Leave room c s"
| "api_step user (ApiJoinRoom ns room c) s = JoinRoom ns room c s"
| "api_step user (ApiLeaveRoom ns room c) s = LeaveRoom ns room c s"
| "api_step user (ApiLeaveAllRooms ns c) s = LeaveAllRooms ns c s"
| "api_step user (ApiClearRoom ns room) s = ClearRoom ns room s"
| "api_step user (ApiEmit c e args) s = snd (conn_Emit c e args s)"
| "api_step user (ApiEmitWithAck c e h args) s = snd (EmitWithAck c e h args s)"
| "api_step user (ApiEmitWithBinaryAck c e h args) s = snd (EmitWithBinaryAck c e h args s)"
| "api_step user (ApiToRoom ns room e skip args) s = ToRoom ns room e skip args s"
| "api_step user (ApiToNamespace ns e args) s = ToNamespace ns e args s"
| "api_step user (ApiConnClose c) s = snd (conn_Close user c s)"
| "api_step user ApiClose s = server_Close user s"

text \<open>The connections a call is made on or with: an application only has those that exist.\<close>

fun api_conns :: "'h api \<Rightarrow> nat set" where
  "api_conns (ApiSetContext c v) = {c}"
| "api_conns (ApiJoin room c) = {c}"
| "api_conns (ApiLeave room c) = {c}"
| "api_conns (ApiJoinRoom ns room c) = set_option c"
| "api_conns (ApiLeaveRoom ns room c) = set_option c"
| "api_conns (ApiLeaveAllRooms ns c) = set_option c"
| "api_conns (ApiEmit c e args) = {c}"
| "api_conns (ApiEmitWithAck c e h args) = {c}"
| "api_conns (ApiEmitWithBinaryAck c e h args) = {c}"
| "api_conns (ApiToRoom ns room e skip args) = set_option skip"
| "api_conns (ApiConnClose c) = {c}"
| "api_conns _ = {}"

datatype 'h event =
    EServe bool
  | EMessage nat draws received
  | EResume nat bool
  | ERunTask nat
  | EApi "'h api"
  | ETransport "request engine \<Rightarrow> request engine"

type_synonym 'h machine = "'h server \<times> 'h reader list"

fun machine_step :: "'h handlers \<Rightarrow> 'h event \<Rightarrow> 'h machine \<Rightarrow> 'h machine outcome" where
  "machine_step user (EServe pick) (s, rds) =
     (case serve_pass pick s of
        (Some (Inr se), s) \<Rightarrow> Return (s, rds @ [new_reader])
      | (_, s) \<Rightarrow> Return (s, rds))"
| "machine_step user (EMessage k d m) (s, rds) =
     (if k < length rds \<and> \<not> exited (rds ! k) \<and> waiting (rds ! k) = None
      then (case handle_message user d k m (rds ! k) s of
          Return (rd, s) \<Rightarrow> Return (s, rds[k := rd])
        | Fail e \<Rightarrow> Fail e
        | GoPanic msg \<Rightarrow> GoPanic msg)
      else Return (s, rds))"
| "machine_step user (EResume k pick) (s, rds) =
     (if k < length rds \<and> \<not> exited (rds ! k)
      then (case resume pick k (rds ! k) s of (rd, s) \<Rightarrow> Return (s, rds[k := rd]))
      else Return (s, rds))"
| "machine_step user (ERunTask k) (s, rds) =
     Return (if k < length (tasks s) then finish_task k (task_body user (tasks s ! k) s) else s, rds)"
| "machine_step user (EApi a) (s, rds) =
     Return (if api_conns a \<subseteq> {..<length (conn_heap s)} then api_step user a s else s, rds)"
| "machine_step user (ETransport f) (s, rds) = Return (s\<lparr>tr := f (tr s)\<rparr>, rds)"

definition live_step :: "'h handlers \<Rightarrow> 'h event \<Rightarrow> 'h machine \<Rightarrow> 'h machine" where
  "live_step user e st = (case machine_step user e st of Return st' \<Rightarrow> st' | _ \<Rightarrow> st)"

definition machine_New :: "request options option \<Rightarrow> 'h machine" where
  "machine_New op = (server_New op, [])"

subsection \<open>The invariant\<close>

definition readers_ok :: "nat \<Rightarrow> 'h reader list \<Rightarrow> bool" where
  "readers_ok n rds \<longleftrightarrow> (\<forall>rd\<in>set rds. \<forall>t. waiting rd = Some t \<longrightarrow> task_conn t < n)"

definition machine_ok :: "'h machine \<Rightarrow> bool" where
  "machine_ok st \<longleftrightarrow> (case st of (s, rds) \<Rightarrow> server_ok s \<and> readers_ok (length (conn_heap s)) rds)"

lemma machine_okI: "server_at n s \<Longrightarrow> readers_ok n rds \<Longrightarrow> machine_ok (s, rds)"
  by (fastforce simp: machine_ok_def server_at_def readers_ok_def)

lemma machine_okD: "machine_ok (s, rds) \<Longrightarrow> server_at (length (conn_heap s)) s \<and> readers_ok (length (conn_heap s)) rds"
  by (simp add: machine_ok_def server_at_def)

lemma readers_ok_update:
  "readers_ok n rds \<Longrightarrow> (\<And>t. waiting rd = Some t \<Longrightarrow> task_conn t < n) \<Longrightarrow> readers_ok n (rds[k := rd])"
  unfolding readers_ok_def using set_update_subset_insert [of rds k rd] by blast

lemma readers_ok_mono: "readers_ok n rds \<Longrightarrow> n \<le> m \<Longrightarrow> readers_ok m rds"
  by (fastforce simp: readers_ok_def)

text \<open>The reader's part of a step.\<close>

definition reader_ok :: "nat \<Rightarrow> ('h reader \<times> 'h server) outcome \<Rightarrow> bool" where
  "reader_ok n r \<longleftrightarrow>
     (case r of
        Return (rd, s) \<Rightarrow> server_at n s \<and> (\<forall>t. waiting rd = Some t \<longrightarrow> task_conn t < n)
      | Fail e \<Rightarrow> True
      | GoPanic m \<Rightarrow> m \<noteq> ''nil pointer dereference'')"

lemma reader_ok_Return [simp]:
  "reader_ok n (Return (rd, s)) \<longleftrightarrow> server_at n s \<and> (\<forall>t. waiting rd = Some t \<longrightarrow> task_conn t < n)"
  by (simp add: reader_ok_def)

lemma resume_ok:
  assumes s: "server_at (length (conn_heap s)) s" and w: "\<And>t. waiting rd = Some t \<Longrightarrow> task_conn t < length (conn_heap s)"
  shows "reader_ok (length (conn_heap s)) (Return (resume pick se rd s))"
proof (cases "waiting rd")
  case None
  then show ?thesis using s by (simp add: resume_def)
next
  case (Some t)
  then show ?thesis using s w start_task_at [OF s w] by (auto simp: resume_def Let_def)
qed

lemma deliver_ok:
  assumes u: "handlers_keep user" and s: "server_at (length (conn_heap s)) s" and w: "waiting rd = None"
  shows "reader_ok (length (conn_heap s)) (deliver user d se p b rd s)"
proof -
  have ok: "dispatched_ok (length (conn_heap s)) s (dispatchPacket user (fst d) se p b s)" by (rule dispatchPacket_ok [OF u s])
  show ?thesis
  proof (cases "dispatchPacket user (fst d) se p b s")
    case (Done t)
    then show ?thesis using ok w by (simp add: deliver_def dispatched_ok_def)
  next
    case (Start t)
    then have "task_conn t < length (conn_heap s)" using ok by (simp add: dispatched_ok_def)
    then show ?thesis using Start resume_ok [OF s, of "rd\<lparr>waiting := Some t\<rparr>"] by (simp add: deliver_def)
  next
    case (Panics m)
    then show ?thesis using ok by (simp add: deliver_def dispatched_ok_def reader_ok_def)
  qed
qed

lemma leave_reader_ok:
  "handlers_keep user \<Longrightarrow> server_at n s \<Longrightarrow> waiting rd = None \<Longrightarrow> reader_ok n (Return (leave_reader user se rd s))"
  by (simp add: leave_reader_def teardownSession_at)

lemma handle_message_ok:
  assumes u: "handlers_keep user" and s: "server_at (length (conn_heap s)) s" and w: "waiting rd = None"
  shows "reader_ok (length (conn_heap s)) (handle_message user d se m rd s)"
proof -
  note leave = leave_reader_ok [OF u s]
  have deliver: "reader_ok (length (conn_heap s)) (deliver user d se p b rd' s)" if "waiting rd' = None" for p b rd'
    by (rule deliver_ok [OF u s that])
  obtain op raw err where m: "m = (op, raw, err)" by (cases m)
  consider "err \<noteq> None" | "err = None" "op = OpBinary" | "err = None" "op \<noteq> OpBinary" "raw = []"
    | "err = None" "op \<noteq> OpBinary" "raw \<noteq> []" by blast
  then show ?thesis
  proof cases
    case 2
    then show ?thesis using m s w leave deliver by (auto simp: handle_message_def Let_def split: option.splits)
  next
    case 4
    show ?thesis
    proof (cases "Decode raw")
      case (Inl e)
      then show ?thesis using 4 m w leave by (simp add: handle_message_def)
    next
      case (Inr p)
      then show ?thesis using 4 m s w leave deliver by (simp add: handle_message_def Let_def)
    qed
  qed (use m s w leave in \<open>simp_all add: handle_message_def\<close>)
qed

subsection \<open>The API\<close>

lemma fold_at: "(\<And>x s. server_at n s \<Longrightarrow> server_at n (f x s)) \<Longrightarrow> server_at n s \<Longrightarrow> server_at n (fold f xs s)"
  by (induction xs arbitrary: s) auto

lemma set_handler_at:
  "server_at n s \<Longrightarrow> (\<And>x. ns_rooms (f x) = ns_rooms x) \<Longrightarrow> server_at n (set_handler ns f s)"
  by (simp add: server_at_def set_handler_ok) (simp add: set_handler_def case_prod_beta)

lemma conn_Emit_at: "server_at n s \<Longrightarrow> server_at n (snd (conn_Emit c e args s))"
  using send_at by (auto simp: conn_Emit_def split: sum.splits)

lemma send_or_undo_at:
  "server_at n s \<Longrightarrow> (\<And>s. server_at n s \<Longrightarrow> server_at n (undo s)) \<Longrightarrow> server_at n (snd (send_or_undo se p b undo s))"
  using send_at [of n s se p b] by (cases "send se p b s"; cases "fst (send se p b s)") (auto simp: send_or_undo_def)

lemma ack_key [simp]:
  "conn_key (ackSeq_update f cn) = conn_key cn" "conn_key (acks_update g cn) = conn_key cn"
  "conn_key (binaryAcks_update k cn) = conn_key cn"
  by (simp_all add: conn_key_def)

lemma EmitWithAck_at: "server_at n s \<Longrightarrow> server_at n (snd (EmitWithAck c e h args s))"
proof -
  assume s: "server_at n s"
  let ?seq = "ackSeq (conn_heap s ! c) + 1"
  let ?s1 = "upd_conn c (ackSeq_update (\<lambda>_. ?seq)) s"
  let ?undo = "\<lambda>s. upd_conn c (acks_update (AList.delete ?seq)) s"
  have s1: "server_at n ?s1" by (rule server_at_upd_conn [OF s]) simp
  have s2: "server_at n (upd_conn c (acks_update (AList.update ?seq h)) ?s1)" by (rule server_at_upd_conn [OF s1]) simp
  have "server_at n (?undo t)" if "server_at n t" for t by (rule server_at_upd_conn [OF that]) simp
  then have "server_at n (snd (send_or_undo se p b ?undo (upd_conn c (acks_update (AList.update ?seq h)) ?s1)))" for se p b
    by (rule send_or_undo_at [OF s2])
  then show ?thesis using s s1
    by (cases "BuildEventPacket (c_ns (conn_heap s ! c)) e None args") (simp_all add: EmitWithAck_def Let_def case_prod_beta)
qed

lemma EmitWithBinaryAck_at: "server_at n s \<Longrightarrow> server_at n (snd (EmitWithBinaryAck c e h args s))"
proof -
  assume s: "server_at n s"
  let ?seq = "ackSeq (conn_heap s ! c) + 1"
  let ?s1 = "upd_conn c (\<lambda>cn. cn\<lparr>ackSeq := ?seq, binaryAcks := AList.update ?seq h (binaryAcks cn)\<rparr>) s"
  let ?undo = "\<lambda>s. upd_conn c (binaryAcks_update (AList.delete ?seq)) s"
  have s1: "server_at n ?s1" by (rule server_at_upd_conn [OF s]) (simp add: conn_key_def)
  have "server_at n (?undo t)" if "server_at n t" for t by (rule server_at_upd_conn [OF that]) simp
  then have "server_at n (snd (send_or_undo se p b ?undo ?s1))" for se p b by (rule send_or_undo_at [OF s1])
  then show ?thesis using s
    by (cases "BuildEventPacket (c_ns (conn_heap s ! c)) e None args") (simp_all add: EmitWithBinaryAck_def Let_def case_prod_beta)
qed

lemma server_at_fields:
  "server_at n s \<Longrightarrow> server_at n (s\<lparr>tr := t\<rparr>)" "server_at n s \<Longrightarrow> server_at n (s\<lparr>s_closed := b\<rparr>)"
  by (simp_all add: server_at_def server_ok_frame)

lemma server_Close_at: "handlers_keep user \<Longrightarrow> server_at n s \<Longrightarrow> server_at n (server_Close user s)"
proof -
  assume u: "handlers_keep user" and s: "server_at n s"
  have "server_at n (fold (\<lambda>se. teardownSession user se r) ks (s\<lparr>s_closed := True\<rparr>))" for r ks
    by (rule fold_at [OF teardownSession_at [OF u] server_at_fields(2) [OF s]])
  then show ?thesis using s by (auto simp: server_Close_def Let_def intro: server_at_fields(1))
qed

lemma ToRoom_at: "server_at n s \<Longrightarrow> server_at n (ToRoom ns room e skip args s)"
  by (auto simp: ToRoom_def Send_def intro!: fold_at conn_Emit_at split: option.splits)

lemma send_unseen_at:
  "server_at n (snd (seen, s)) \<Longrightarrow> server_at n (snd (fold (send_unseen (\<lambda>m. conn_Emit (impl m)) e args) ms (seen, s)))"
  by (induction ms arbitrary: seen s) (auto simp: send_unseen_def conn_Emit_at)

lemma ToNamespace_at:
  assumes s: "server_at n s" shows "server_at n (ToNamespace ns e args s)"
proof -
  have "server_at n (snd (fold (\<lambda>a. fold (send_unseen (\<lambda>m. conn_Emit (impl m)) e args) (snapshot (heap mg ! a))) as st))"
    if "server_at n (snd st)" for as st and mg :: "nat manager"
    using that
  proof (induction as arbitrary: st)
    case (Cons a as)
    then show ?case using send_unseen_at [of n "fst st" "snd st"] by simp
  qed simp
  then show ?thesis using s by (auto simp: ToNamespace_def SendAll_def split: option.splits)
qed

lemma SetContext_at: "server_at n s \<Longrightarrow> server_at n (SetContext c v s)"
  unfolding SetContext_def by (erule server_at_upd_conn) (simp add: conn_key_def)

lemma ns_op_at:
  "server_at n s \<Longrightarrow> c < length (conn_heap s) \<Longrightarrow> server_at n (conn_Join room c s)"
  "server_at n s \<Longrightarrow> server_at n (conn_Leave room c s)"
  "server_at n s \<Longrightarrow> server_at n (ClearRoom ns room s)"
  by (simp_all add: server_at_def conn_Join_ok conn_Leave_ok ClearRoom_ok)
    (simp_all add: conn_Join_def conn_Leave_def ClearRoom_def Let_def)

lemma api_step_at:
  assumes u: "handlers_keep user" and s: "server_at n s" and a: "api_conns a \<subseteq> {..<length (conn_heap s)}"
  shows "server_at n (api_step user a s)"
proof (cases a)
  case (ApiJoinRoom ns room c)
  then show ?thesis using s a by (cases c) (simp_all add: JoinRoom_def ns_op_at)
next
  case (ApiLeaveRoom ns room c)
  then show ?thesis using s by (cases c) (simp_all add: LeaveRoom_def ns_op_at)
next
  case (ApiLeaveAllRooms ns c)
  then show ?thesis using s by (cases c) (simp_all add: LeaveAllRooms_def leaveAll_at)
qed (use s a u in \<open>simp_all add: ns_op_at SetContext_at conn_Emit_at EmitWithAck_at EmitWithBinaryAck_at ToRoom_at ToNamespace_at
  conn_Close_at server_Close_at OnConnect_def OnDisconnect_def OnError_def OnEvent_def OnBinaryEvent_def set_handler_at\<close>)

subsection \<open>Every step\<close>

lemma accept_session_at:
  assumes s: "server_at n s" shows "server_at n (snd (accept_session tc s))"
proof -
  let ?t = "snd (accept_session tc s)"
  have "session_conn se ns s = Some c" if "session_conn se ns ?t = Some c" for se ns c
    using that by (auto simp: accept_session_def Let_def session_conn_def split: if_splits)
  note less = this
  have same: "conn_heap ?t = conn_heap s" "namespaces ?t = namespaces s" "tasks ?t = tasks s" "s_opts ?t = s_opts s"
    by (simp_all add: accept_session_def Let_def)
  have ok: "server_ok s" "n \<le> length (conn_heap s)" using s by (simp_all add: server_at_def)
  have "server_ok ?t" by (rule server_ok_cong [OF ok(1) _ same(2-4) less]) (simp add: same(1))
  then show ?thesis using ok(2) same(1) by (simp add: server_at_def)
qed

lemma serve_pass_at: "server_at n s \<Longrightarrow> server_at n (snd (serve_pass pick s))"
  using accept_session_at [OF server_at_fields(1)]
  by (auto simp: serve_pass_def case_prod_beta server_at_fields(1) split: option.splits sum.splits prod.splits)

lemma run_task_at:
  "handlers_keep user \<Longrightarrow> server_at n s \<Longrightarrow> server_at n (finish_task k (task_body user t s))"
  by (intro finish_task_at task_body_at)

lemma machine_step_ok:
  assumes u: "handlers_keep user" and ok: "machine_ok st"
  shows "case machine_step user e st of Return st' \<Rightarrow> machine_ok st' | Fail x \<Rightarrow> True | GoPanic m \<Rightarrow> m \<noteq> ''nil pointer dereference''"
proof -
  obtain s rds where st: "st = (s, rds)" by (cases st)
  let ?n = "length (conn_heap s)"
  have s: "server_at ?n s" and r: "readers_ok ?n rds" using machine_okD ok st by blast+
  have upd: "machine_ok (t, rds[k := rd])" if "reader_ok ?n (Return (rd, t))" for k rd t
    using that r by (intro machine_okI [of ?n] readers_ok_update) auto
  show ?thesis
  proof (cases e)
    case (EServe pick)
    have "readers_ok ?n (rds @ [new_reader])" using r by (auto simp: readers_ok_def new_reader_def)
    moreover obtain res t where t: "serve_pass pick s = (res, t)" by fastforce
    moreover have "server_at ?n t" using serve_pass_at [OF s, of pick] t by simp
    ultimately show ?thesis using EServe st r by (auto simp: machine_okI split: option.splits sum.splits)
  next
    case (EMessage k d m)
    show ?thesis
    proof (cases "k < length rds \<and> \<not> exited (rds ! k) \<and> waiting (rds ! k) = None")
      case True
      then have h: "reader_ok ?n (handle_message user d k m (rds ! k) s)" by (intro handle_message_ok [OF u s]) simp
      show ?thesis
      proof (cases "handle_message user d k m (rds ! k) s")
        case (Return x)
        obtain rd t where x: "x = (rd, t)" by (cases x)
        have "machine_ok (t, rds[k := rd])" using upd [of rd t k] h Return x by simp
        then show ?thesis using True EMessage st Return x by simp
      next
        case (Fail x)
        then show ?thesis using True EMessage st by simp
      next
        case (GoPanic msg)
        then show ?thesis using True EMessage st h by (simp add: reader_ok_def)
      qed
    qed (use EMessage st ok in auto)
  next
    case (EResume k pick)
    show ?thesis
    proof (cases "k < length rds \<and> \<not> exited (rds ! k)")
      case True
      obtain rd t where x: "resume pick k (rds ! k) s = (rd, t)" by fastforce
      have "waiting (rds ! k) = Some t' \<Longrightarrow> task_conn t' < ?n" for t' using r True by (auto simp: readers_ok_def)
      from resume_ok [of s "rds ! k" pick k, OF s this] have "machine_ok (t, rds[k := rd])"
        unfolding x by (intro upd)
      then show ?thesis using True EResume st x by simp
    qed (use EResume st ok in auto)
  next
    case (ERunTask k)
    then show ?thesis using st s r machine_okI [OF s r] machine_okI [OF run_task_at [OF u s] r] by simp
  next
    case (EApi a)
    then show ?thesis using st machine_okI [OF s r] machine_okI [OF api_step_at [OF u s] r] by simp
  next
    case (ETransport f)
    then show ?thesis using st machine_okI [OF server_at_fields(1) [OF s] r] by simp
  qed
qed

lemma live_step_ok: "handlers_keep user \<Longrightarrow> machine_ok st \<Longrightarrow> machine_ok (live_step user e st)"
  using machine_step_ok [of user st e] by (auto simp: live_step_def split: outcome.splits)

lemma machine_ok_New: "machine_ok (machine_New op)"
proof -
  have "server_ok (server_New op :: 'a server)"
    by (auto simp: server_ok_def sess_ok_def rooms_ok_def joined_ok_def sem_ok_def server_New_def session_conn_def
        NewServer_def defaults_def Let_def)
  then show ?thesis by (simp add: machine_ok_def machine_New_def readers_ok_def)
qed

text \<open>
  An application: handlers that keep the invariant. The machine with any such application stays
  inside the invariant for ever.
\<close>

locale application =
  fixes user :: "'h handlers"
  assumes keeps: "handlers_keep user"

sublocale application \<subseteq> alive: invariant_machine "machine_New op" "live_step user" machine_ok for op
  by unfold_locales (rule machine_ok_New, erule live_step_ok [OF keeps])

context application begin

lemma reachable: "fold (live_step user) es (machine_New op) = (s, rds) \<Longrightarrow> machine_ok (s, rds)"
  using alive.inv_run [where op = op and es = es] by simp

lemma reachable_server: "fold (live_step user) es (machine_New op) = (s, rds) \<Longrightarrow> server_ok s"
  using reachable by (fastforce simp: machine_ok_def)

lemma reachable_no_nil:
  "machine_step user e (fold (live_step user) es (machine_New op)) \<noteq> GoPanic ''nil pointer dereference''"
  using machine_step_ok [OF keeps alive.inv_run [where op = op and es = es], of e] by (auto split: outcome.splits)

end

text \<open>The handlers of a small chat: they use the API on the connection they are called for.\<close>

datatype chat = Greeter | Bouncer | Talk | Farewell

fun chat_user :: "chat handlers" where
  "chat_user Greeter (ConnectCall c) s =
     (None, if c < length (conn_heap s) then snd (conn_Emit c ''welcome'' [GString ''hi''] (conn_Join ''lobby'' c s)) else s)"
| "chat_user Bouncer (ConnectCall c) s = (Some (ErrorString ''no''), s)"
| "chat_user Talk (EventCall c args) s = (None, ToRoom ''/'' ''lobby'' ''message'' (Some c) [GString (concat args)] s)"
| "chat_user Farewell (DisconnectCall c reason) s = (None, ToNamespace ''/'' ''left'' [GString reason] s)"
| "chat_user _ _ s = (None, s)"

lemma chat_user_keeps: "handlers_keep chat_user"
  unfolding handlers_keep_def
proof (intro allI impI)
  fix n h cl and s :: "chat server" assume "server_at n s"
  then show "server_at n (snd (chat_user h cl s))"
    by (induction h cl s rule: chat_user.induct) (auto intro: ns_op_at conn_Emit_at ToRoom_at ToNamespace_at)
qed

interpretation chat: application chat_user
  by unfold_locales (rule chat_user_keeps)

lemma members_agree:
  assumes "server_ok s" "c \<in> set (RoomMembers ns room s)"
  shows "c < length (conn_heap s) \<and> NormalizeNS (c_ns (conn_heap s ! c)) = NormalizeNS ns \<and>
    room \<in> set (joined (conn_heap s ! c)) \<and> distinct (joined (conn_heap s ! c)) \<and> length (joined (conn_heap s ! c)) \<le> 100"
proof -
  obtain n where n: "find_ns ns s = Some n" using assms(2) by (cases "find_ns ns s") (auto simp: RoomMembers_def)
  then obtain m where m: "m \<in> set (Members room (ns_rooms n))" "c = impl m" using assms(2) by (auto simp: RoomMembers_def)
  have mg: "manager_ok (ns_rooms n)" and o: "\<And>r i m. occupants (ns_rooms n) r i = Some m \<Longrightarrow> member_ok (NormalizeNS ns) s r i m"
    using assms(1) n by (auto simp: server_ok_def rooms_ok_def find_ns_def)
  have "occupants (ns_rooms n) room (member_ID m) = Some m" using Members_occupants [OF mg] m(1) by blast
  note mo = member_okD [OF o [OF this]]
  have "conn_heap s ! c \<in> set (conn_heap s)" using mo(2) m(2) by simp
  then show ?thesis using assms(1) mo m(2) by (auto simp: server_ok_def joined_ok_def MaxRoomsPerConn_def)
qed

subsection \<open>Properties\<close>

text \<open>C17. The server never uses a missing namespace: whatever sessions, messages, handler runs and API calls
  come in whatever order, no step from a reachable state dereferences a nil namespace; every
  connection a session knows is one of its own, filed under its namespace, which exists.\<close>

theorem namespaces_never_nil:
  assumes "handlers_keep user" "fold (live_step user) es (machine_New op) = (s, rds)"
  shows "machine_step user e (s, rds) \<noteq> GoPanic ''nil pointer dereference'' \<and>
    (\<forall>se ns c. session_conn se ns s = Some c \<longrightarrow>
      c_ns (conn_heap s ! c) = ns \<and> session (conn_heap s ! c) = se \<and> find_ns ns s \<noteq> None)"
proof -
  have app: "application user" by (rule application.intro [OF assms(1)])
  have "sess_ok s" using application.reachable_server [OF app assms(2)] by (simp add: server_ok_def)
  then show ?thesis using application.reachable_no_nil [OF app, of e es op] assms(2) by (auto simp: sess_ok_def)
qed

text \<open>C5. Handlers are bounded: in every reachable state a connection runs at most \<open>MaxEventConcurrency\<close>
  event handlers at a time, and its semaphore holds exactly their number, so slots are neither lost
  nor freed twice.\<close>

theorem handlers_bounded:
  assumes "handlers_keep user" "fold (live_step user) es (machine_New op) = (s, rds)" "c < length (conn_heap s)"
  shows "eventSem (conn_heap s ! c) = Some (length (filter (\<lambda>t. task_conn t = c) (tasks s))) \<and>
    int (length (filter (\<lambda>t. task_conn t = c) (tasks s))) \<le> MaxEventConcurrency (s_opts s)"
  using application.reachable_server [OF application.intro [OF assms(1)] assms(2)] assms(3)
  by (simp add: server_ok_def sem_ok_def tasks_of_def)


end
