(* ===== verification/Sio_Send.thy ===== *)
theory Sio_Send
  imports Sio_Machine
begin

section \<open>server: what the peer is sent\<close>

text \<open>
  The contract between \<open>engineSession.send\<close> and the transport: a successful write appends the
  encoding of the message to what the peer is sent, a failed one appends nothing. The transport's
  \<open>sessionConn\<close> keeps it on both kinds of link; over it, an emitted event reaches the peer as one
  text message and its byte slices, in order.
\<close>

subsection \<open>The contract\<close>

locale message_sink =
  fixes put_text put_binary :: "string \<Rightarrow> 's \<Rightarrow> error option \<times> 's"
    and ready :: "'s \<Rightarrow> bool"
    and sent :: "'s \<Rightarrow> 'm list"
    and enc :: "'s \<Rightarrow> byte \<times> string \<Rightarrow> 'm list"
  assumes text_sent: "ready s \<Longrightarrow> put_text p s = (r, t) \<Longrightarrow>
      ready t \<and> enc t = enc s \<and> sent t = sent s @ (if r = None then enc s (OpText, p) else [])"
    and binary_sent: "ready s \<Longrightarrow> put_binary p s = (r, t) \<Longrightarrow>
      ready t \<and> enc t = enc s \<and> sent t = sent s @ (if r = None then enc s (OpBinary, p) else [])"
begin

lemma buffers_sent:
  "ready s \<Longrightarrow> write_buffers put_binary bs s = (r, t) \<Longrightarrow>
   \<exists>n. ready t \<and> enc t = enc s \<and> sent t = sent s @ concat (map (\<lambda>b. enc s (OpBinary, b)) (take n bs)) \<and>
     (r = None \<longrightarrow> n = length bs)"
proof (induction bs arbitrary: s)
  case Nil
  then show ?case by simp
next
  case (Cons b bs)
  obtain r1 s1 where p: "put_binary b s = (r1, s1)" by fastforce
  note b1 = binary_sent [OF Cons.prems(1) p]
  show ?case
  proof (cases r1)
    case (Some e)
    then show ?thesis using Cons.prems(2) p b1 by (intro exI [of _ 0]) auto
  next
    case None
    then have "write_buffers put_binary bs s1 = (r, t)" using Cons.prems(2) p by simp
    then obtain n where "ready t \<and> enc t = enc s1 \<and> sent t = sent s1 @ concat (map (\<lambda>b. enc s1 (OpBinary, b)) (take n bs)) \<and>
        (r = None \<longrightarrow> n = length bs)" using Cons.IH b1 by blast
    then show ?thesis using b1 None by (intro exI [of _ "Suc n"]) simp
  qed
qed

lemma message_sent:
  assumes "ready s" "put_text p s = (None, s1)" "write_buffers put_binary bs s1 = (None, t)"
  shows "sent t = sent s @ enc s (OpText, p) @ concat (map (\<lambda>b. enc s (OpBinary, b)) bs)"
  using text_sent [OF assms(1,2)] buffers_sent [of s1, OF _ assms(3)] by auto

end

subsection \<open>The transport keeps it\<close>

definition link_ready :: "nat \<Rightarrow> 'r engine \<Rightarrow> bool" where
  "link_ready a s \<longleftrightarrow>
     (case current (sess_heap s ! a) of PollLink b \<Rightarrow> b < length (poll_heap s) | WSLink b \<Rightarrow> b < length (ws_heap s))"

text \<open>Packets queued for polling, or bytes flushed to the socket.\<close>

definition link_sent :: "nat \<Rightarrow> 'r engine \<Rightarrow> (string + byte) list" where
  "link_sent a s =
     (case current (sess_heap s ! a) of
        PollLink b \<Rightarrow> map Inl (sendCh (poll_heap s ! b))
      | WSLink b \<Rightarrow> map Inr (outgoing (ws_heap s ! b)))"

definition link_enc :: "nat \<Rightarrow> 'r engine \<Rightarrow> byte \<times> string \<Rightarrow> (string + byte) list" where
  "link_enc a s m =
     (case m of (op, p) \<Rightarrow>
       (case current (sess_heap s ! a) of
          PollLink _ \<Rightarrow> [Inl (if op = OpBinary then CHR ''b'' # b64_encode p else p)]
        | WSLink _ \<Rightarrow> (case writeFrame op (bytes_of p) of Inl _ \<Rightarrow> [] | Inr bs \<Rightarrow> map Inr bs)))"

lemma poll_WriteText_result:
  "poll_WriteText p c = (r, c') \<Longrightarrow> sendCh c' = sendCh c @ (if r = None then [p] else [])"
  by (auto simp: poll_WriteText_def Let_def poll_Close_def dest!: toss_recvCh split: if_splits prod.splits)

lemma write_message_result:
  "write_message op p c = (r, c') \<Longrightarrow>
   outgoing c' = outgoing c @ (if r = None then (case writeFrame op (bytes_of p) of Inl _ \<Rightarrow> [] | Inr bs \<Rightarrow> bs) else [])"
  by (auto simp: write_message_def flush_def split: if_splits sum.splits)

interpretation link: message_sink "session_WriteText a" "session_WriteBinary a" "link_ready a" "link_sent a" "link_enc a"
  for a :: nat
proof unfold_locales
  fix s t :: "'r engine" and p r assume ready: "link_ready a s"
  show "link_ready a t \<and> link_enc a t = link_enc a s \<and>
      link_sent a t = link_sent a s @ (if r = None then link_enc a s (OpText, p) else [])"
    if "session_WriteText a p s = (r, t)"
  proof (cases "current (sess_heap s ! a)")
    case (PollLink b)
    then show ?thesis using that ready
      by (auto simp: session_WriteText_def link_ready_def link_sent_def link_enc_def fun_eq_iff
          dest!: poll_WriteText_result split: prod.splits)
  next
    case (WSLink b)
    then show ?thesis using that ready
      by (auto simp: session_WriteText_def WriteText_def link_ready_def link_sent_def link_enc_def fun_eq_iff
          dest!: write_message_result split: prod.splits sum.splits)
  qed
  show "link_ready a t \<and> link_enc a t = link_enc a s \<and>
      link_sent a t = link_sent a s @ (if r = None then link_enc a s (OpBinary, p) else [])"
    if "session_WriteBinary a p s = (r, t)"
  proof (cases "current (sess_heap s ! a)")
    case (PollLink b)
    then show ?thesis using that ready
      by (auto simp: session_WriteBinary_def poll_WriteBinary_def link_ready_def link_sent_def link_enc_def fun_eq_iff
          dest!: poll_WriteText_result split: prod.splits)
  next
    case (WSLink b)
    then show ?thesis using that ready
      by (auto simp: session_WriteBinary_def WriteBinary_def link_ready_def link_sent_def link_enc_def fun_eq_iff
          dest!: write_message_result split: prod.splits sum.splits)
  qed
qed

subsection \<open>Sending and reading back\<close>

abbreviation sess_tr :: "nat \<Rightarrow> 'h server \<Rightarrow> nat" where
  "sess_tr se s \<equiv> es_tr (es_heap s ! se)"

lemma send_sent:
  assumes "link_ready (sess_tr se s) (tr s)" "send se p bufs s = (None, t)"
  shows "\<exists>raw. Encode (Some p) = Inr raw \<and>
    link_sent (sess_tr se s) (tr t) = link_sent (sess_tr se s) (tr s) @ link_enc (sess_tr se s) (tr s) (OpText, eioMessage # raw) @
      concat (map (\<lambda>b. link_enc (sess_tr se s) (tr s) (OpBinary, b)) bufs)"
proof -
  obtain raw where raw: "Encode (Some p) = Inr raw" using assms(2) by (auto simp: send_def split: sum.splits)
  obtain e t1 where w: "session_WriteText (sess_tr se s) (eioMessage # raw) (tr s) = (e, t1)" by fastforce
  obtain e2 t2 where b: "write_buffers (session_WriteBinary (sess_tr se s)) bufs t1 = (e2, t2)" by fastforce
  have "e = None \<and> e2 = None \<and> tr t = t2"
    using assms(2) raw w b by (auto simp: send_def split: if_splits option.splits)
  then show ?thesis using link.message_sent [OF assms(1)] raw w b by auto
qed

text \<open>Reading the attachments of a pending packet.\<close>

lemma reader_collects:
  assumes "pending rd = Some (p, acc)" "bs \<noteq> []" "int (length acc + length bs) = Attachments p"
    and "waiting rd = None" "\<not> exited rd"
  shows "handle_messages user se (map (\<lambda>b. (d, OpBinary, b, None)) bs) rd s =
    (case deliver user d se p (acc @ bs) (rd\<lparr>pending := None\<rparr>) s of
       Return (rd, s) \<Rightarrow> Return ([], rd, s) | Fail e \<Rightarrow> Fail e | GoPanic m \<Rightarrow> GoPanic m)"
  using assms
proof (induction bs arbitrary: rd acc)
  case (Cons b bs)
  show ?case
  proof (cases bs)
    case Nil
    then show ?thesis using Cons.prems
      by (cases d) (auto simp: handle_message_def split: outcome.splits prod.splits)
  next
    case (Cons b' bs')
    have "int (length (acc @ [b])) \<noteq> Attachments p" using Cons.prems(3) Cons by simp
    then have "handle_message user d se (OpBinary, b, None) rd s = Return (rd\<lparr>pending := Some (p, acc @ [b])\<rparr>, s)"
      using Cons.prems(1) by (simp add: handle_message_def)
    then show ?thesis
      using Cons.IH [of "rd\<lparr>pending := Some (p, acc @ [b])\<rparr>" "acc @ [b]"] Cons.prems Cons by simp
  qed
qed simp

lemma reader_starts_pending:
  assumes "Decode raw = Inr p" "IsBinary (Type p)" "Attachments p \<le> MaxAttachments" "connectedAny rd" "raw \<noteq> []"
  shows "handle_message user d se (OpText, raw, None) rd s = Return (rd\<lparr>pending := Some (p, [])\<rparr>, s)"
  using assms by (cases rd) (simp add: handle_message_def Let_def)

subsection \<open>Properties\<close>

text \<open>C3. What \<open>Emit\<close> puts on the wire can be read back: when emitting an event with byte slices succeeds,
  the peer is sent exactly one text message, with the prefix of an Engine.IO message, and then every
  slice as a binary message, in order; the text decodes to a packet that announces their number, has
  the event's name, and from which the slices restore every argument.\<close>

theorem emit_end_to_end:
  assumes "Valid event" "event \<noteq> []" "list_all sendable args"
    and "1 \<le> length bufs" "length bufs \<le> 1024" "bufs = concat (map leaves args)"
    and "gdepth (GSlice (Some args)) \<le> maxNestingDepth" "ns_ok (c_ns (conn_heap s ! c))" "trimmed (c_ns (conn_heap s ! c))"
    and "a = sess_tr (session (conn_heap s ! c)) s" "link_ready a (tr s)" "conn_Emit c event args s = (None, t)"
  shows "\<exists>p raw. link_sent a (tr t) = link_sent a (tr s) @ link_enc a (tr s) (OpText, eioMessage # raw) @
      concat (map (\<lambda>b. link_enc a (tr s) (OpBinary, b)) bufs) \<and>
    (Decode raw = Inr p \<or> length raw > maxPacket) \<and> Attachments p = int (length bufs) \<and>
    EventName (Data p) = Inr event \<and> Reconstruct (Data p) bufs = Return (RArr (RStr event # map view args))"
proof -
  obtain p where p: "BuildEventPacket (c_ns (conn_heap s ! c)) event None args = Inr (p, bufs)" "encodable p"
    "Attachments p = int (length bufs)" "EventName (Data p) = Inr event"
    "Reconstruct (Data p) bufs = Return (RArr (RStr event # map view args))"
    using binary_event_packet [OF assms(1-9), of None] by auto
  have "send (session (conn_heap s ! c)) p bufs s = (None, t)" using assms(12) p(1) by (simp add: conn_Emit_def)
  from send_sent [OF _ this] assms(10,11) obtain raw where raw: "Encode (Some p) = Inr raw"
    "link_sent a (tr t) = link_sent a (tr s) @ link_enc a (tr s) (OpText, eioMessage # raw) @
      concat (map (\<lambda>b. link_enc a (tr s) (OpBinary, b)) bufs)" by auto
  have "raw = wire p" using raw(1) Encode_encodable [OF p(2)] by simp
  then have "Decode raw = Inr p \<or> length raw > maxPacket" using Decode_wire [OF p(2)] by (cases "length raw \<le> maxPacket") auto
  then show ?thesis using raw(2) p(3-5) by blast
qed

text \<open>C2. A binary event is delivered: when a connected client sends the packet of an event with at most 64
  byte slices and then the slices, the reader starts the handler registered for the event exactly
  once, with the name and every argument restored and the id of the packet.\<close>

theorem binary_event_received:
  assumes "Valid event" "event \<noteq> []" "list_all sendable args"
    and "1 \<le> length bufs" "int (length bufs) \<le> MaxAttachments" "bufs = concat (map leaves args)"
    and "gdepth (GSlice (Some args)) \<le> maxNestingDepth" "ns_ok ns" "trimmed ns"
    and "case ident of None \<Rightarrow> True | Some i \<Rightarrow> 0 \<le> i \<and> i \<le> max_int64"
    and "BuildEventPacket ns event ident args = Inr (p, bufs)" "Encode (Some p) = Inr raw" "length raw \<le> maxPacket"
    and "session_conn se ns s = Some c" "find_ns ns s = Some n" "map_of (binaryEvents n) event = Some h"
    and "slot_free c s" "\<not> sc_closed (sess_heap (tr s) ! sess_tr se s)"
    and "connectedAny rd" "pending rd = None" "waiting rd = None" "\<not> exited rd"
  shows "handle_messages user se ((d, OpText, raw, None) # map (\<lambda>b. (d, OpBinary, b, None)) bufs) rd s =
    Return ([], rd, start_task (BinaryTask c h (RStr event # map view args) ident) s)"
proof -
  have le: "length bufs \<le> 1024" using assms(5) by (simp add: MaxAttachments_def)
  have p: "encodable p" "Type p = TypeBinaryEvent" "Namespace p = ns" "ID p = ident"
    "Attachments p = int (length bufs)" "EventName (Data p) = Inr event"
    "Reconstruct (Data p) bufs = Return (RArr (RStr event # map view args))"
    using binary_event_packet [OF assms(1-4) le assms(6-10)] assms(11) by auto
  have raw: "raw = wire p" using assms(12) Encode_encodable [OF p(1)] by simp
  then have dec: "Decode raw = Inr p" using Decode_wire [OF p(1)] assms(13) by simp
  then have "raw \<noteq> []" by (auto simp: Decode_def)
  then have m1: "handle_message user d se (OpText, raw, None) rd s = Return (rd\<lparr>pending := Some (p, [])\<rparr>, s)"
    using dec p(2,5) assms(5,19) by (intro reader_starts_pending) (simp_all add: IsBinary_def)
  let ?rd = "rd\<lparr>pending := Some (p, [])\<rparr>"
  let ?t = "BinaryTask c h (RStr event # map view args) ident"
  have "dispatchPacket user (fst d) se p bufs s = Start ?t"
    using p assms(14-16) by (simp add: dispatchPacket_def dispatchEvent_def getEvent_def)
  moreover have "resume (snd d) se (rd\<lparr>waiting := Some ?t\<rparr>) s = (rd, start_task ?t s)"
    using assms(17,18,21) by (cases rd) (simp add: resume_def)
  moreover have "?rd\<lparr>pending := None, waiting := Some ?t\<rparr> = rd\<lparr>waiting := Some ?t\<rparr>" using assms(20) by (cases rd) simp
  ultimately have "deliver user d se p bufs (?rd\<lparr>pending := None\<rparr>) s = Return (rd, start_task ?t s)"
    by (simp add: deliver_def)
  moreover have "bufs \<noteq> []" using assms(4) by auto
  ultimately have "handle_messages user se (map (\<lambda>b. (d, OpBinary, b, None)) bufs) ?rd s = Return ([], rd, start_task ?t s)"
    using reader_collects [where rd = ?rd and p = p and acc = "[]" and bs = bufs and user = user and se = se and d = d and s = s]
      p(5) assms(21,22) by auto
  then show ?thesis using m1 assms(21,22) by simp
qed

subsection \<open>Witnesses\<close>

text \<open>A server with one polling session, connected to the namespace \<open>/\<close>.\<close>

definition demo_conn :: "chat conn" where
  "demo_conn = \<lparr>c_id = ''c1'', c_ns = ''/'', session = 0, c_closed = False, closeOnce = False, ctx = None, joined = [],
     ackSeq = 0, acks = [], binaryAcks = [], eventSem = Some 0\<rparr>"

definition demo_server :: "chat server" where
  "demo_server = (server_New None)\<lparr>tr := polling_engine, es_heap := [\<lparr>es_tr = 0, es_closed = False\<rparr>],
     conn_heap := [demo_conn], sessions := [(0, [(''/'', 0)])], conns := [(''c1'', 0)], connCount := 1,
     namespaces := [(''/'', (newNamespace ''/'')\<lparr>binaryEvents := [(''image'', Talk)]\<rparr>)]\<rparr>"

lemma demo_server_simps:
  "tr demo_server = polling_engine" "es_heap demo_server = [\<lparr>es_tr = 0, es_closed = False\<rparr>]"
  "conn_heap demo_server = [demo_conn]" "sessions demo_server = [(0, [(''/'', 0)])]"
  "namespaces demo_server = [(''/'', (newNamespace ''/'')\<lparr>binaryEvents := [(''image'', Talk)]\<rparr>)]"
  "MaxEventConcurrency (s_opts demo_server) = 32" "tasks demo_server = []" "conns demo_server = [(''c1'', 0)]"
  "connCount demo_server = 1"
  by (simp_all add: demo_server_def server_New_def NewServer_def defaults_def zero_options_def Let_def)

lemma root_ns: "ns_ok ''/''" "trimmed ''/''" "NormalizeNS ''/'' = ''/''"
  by code_simp+

lemma demo_find_ns: "find_ns ''/'' demo_server = Some ((newNamespace ''/'')\<lparr>binaryEvents := [(''image'', Talk)]\<rparr>)"
  by (simp add: find_ns_def root_ns(3) demo_server_simps)

lemma polling_engine_link:
  "sess_heap polling_engine = [\<lparr>current = PollLink 0, sc_closed = False, sc_ip = ''10.0.0.1'', sc_sid = ''s1''\<rparr>]"
  "poll_heap polling_engine = [(newPollConn [])\<lparr>sendCh := [''4queued'']\<rparr>]"
  by (simp_all add: polling_engine_def)

lemma demo_ready: "link_ready 0 polling_engine" "link_sent 0 polling_engine = [Inl ''4queued'']"
  by (simp_all add: link_ready_def link_sent_def polling_engine_link)

lemma image_packet:
  assumes "case ident of None \<Rightarrow> True | Some i \<Rightarrow> 0 \<le> i \<and> i \<le> max_int64"
  shows "\<exists>p. BuildEventPacket ''/'' ''image'' ident image_args = Inr (p, [[CHR 0x89, CHR 0x50, CHR 0x00], ''x'']) \<and> encodable p"
proof -
  have "gdepth (GSlice (Some image_args)) \<le> maxNestingDepth" unfolding image_args_depth maxNestingDepth_def by simp
  then show ?thesis
    using binary_event_packet [OF image_args_sendable(2) _ image_args_sendable(1) _ _ image_args_leaves [symmetric] _ root_ns(1,2) assms]
    by fastforce
qed

lemma demo_emit: "\<exists>t. conn_Emit 0 ''image'' image_args demo_server = (None, t)"
proof -
  obtain p where p: "BuildEventPacket ''/'' ''image'' None image_args = Inr (p, [[CHR 0x89, CHR 0x50, CHR 0x00], ''x''])" "encodable p"
    using image_packet [of None] by auto
  show ?thesis
    using p(1) Encode_encodable [OF p(2)]
    by (simp add: conn_Emit_def demo_server_simps demo_conn_def send_def session_WriteText_def session_WriteBinary_def
        polling_engine_link poll_WriteBinary_def poll_WriteText_def newPollConn_def chan_cap_def)
qed

theorem emit_end_to_end_witness:
  "\<exists>t (p :: packet) raw. conn_Emit 0 ''image'' image_args demo_server = (None, t) \<and>
     link_sent 0 (tr t) = [Inl ''4queued'', Inl (eioMessage # raw)] @
       concat (map (\<lambda>b. link_enc 0 (polling_engine :: request engine) (OpBinary, b)) [[CHR 0x89, CHR 0x50, CHR 0x00], ''x'']) \<and>
     EventName (Data p) = Inr ''image'' \<and> Attachments p = 2"
proof -
  obtain t where t: "conn_Emit 0 ''image'' image_args demo_server = (None, t)" using demo_emit by blast
  have a: "ns_ok (c_ns (conn_heap demo_server ! 0))" "trimmed (c_ns (conn_heap demo_server ! 0))"
    "0 = sess_tr (session (conn_heap demo_server ! 0)) demo_server" "link_ready 0 (tr demo_server)"
    using root_ns demo_ready by (simp_all add: demo_server_simps demo_conn_def)
  have g: "gdepth (GSlice (Some image_args)) \<le> maxNestingDepth" unfolding image_args_depth maxNestingDepth_def by simp
  have n: "''image'' \<noteq> []" "1 \<le> length [[CHR 0x89, CHR 0x50, CHR 0x00], ''x'']"
    "length [[CHR 0x89, CHR 0x50, CHR 0x00], ''x''] \<le> 1024" by simp_all
  from emit_end_to_end [OF image_args_sendable(2) n(1) image_args_sendable(1) n(2,3) image_args_leaves [symmetric] g a t]
  show ?thesis
  proof (elim exE conjE, goal_cases)
    case (1 p raw)
    have "link_sent 0 (tr t) = [Inl ''4queued'', Inl (eioMessage # raw)] @
       concat (map (\<lambda>b. link_enc 0 (polling_engine :: request engine) (OpBinary, b)) [[CHR 0x89, CHR 0x50, CHR 0x00], ''x''])"
      using 1(1) demo_ready by (simp add: demo_server_simps link_enc_def polling_engine_link)
    moreover have "Attachments p = 2" using 1(3) by simp
    ultimately show ?case using t 1(4) by blast
  qed
qed

lemma small_packet:
  "\<exists>p. BuildEventPacket ''/'' ''image'' (Some 7) [GBytes ''x''] = Inr (p, [''x'']) \<and> Encode (Some p) = Inr (wire p) \<and>
     length (wire p) \<le> maxPacket"
proof -
  have "map_sum id (\<lambda>(p, b). (b, length (wire p))) (BuildEventPacket ''/'' ''image'' (Some 7) [GBytes ''x'']) = Inr ([''x''], 43)"
    by code_simp
  then obtain p where p: "BuildEventPacket ''/'' ''image'' (Some 7) [GBytes ''x''] = Inr (p, [''x''])" "length (wire p) = 43"
    by (cases "BuildEventPacket ''/'' ''image'' (Some 7) [GBytes ''x'']") auto
  have "(case Some (7 :: int) of None \<Rightarrow> True | Some i \<Rightarrow> 0 \<le> i \<and> i \<le> max_int64)" by (simp add: max_int64_def)
  note c = this
  have g: "gdepth (GSlice (Some [GBytes ''x''])) \<le> maxNestingDepth" by (simp add: maxNestingDepth_def)
  have "\<exists>q. BuildEventPacket ''/'' ''image'' (Some 7) [GBytes ''x''] = Inr (q, [''x'']) \<and> encodable q \<and> Type q = TypeBinaryEvent \<and>
      Namespace q = ''/'' \<and> ID q = Some 7 \<and> Attachments q = int (length [''x'']) \<and> EventName (Data q) = Inr ''image'' \<and>
      Reconstruct (Data q) [''x''] = Return (RArr (RStr ''image'' # map view [GBytes ''x'']))"
    by (rule binary_event_packet [OF image_args_sendable(2) _ _ _ _ _ g root_ns(1,2) c]) simp_all
  then obtain q where "BuildEventPacket ''/'' ''image'' (Some 7) [GBytes ''x''] = Inr (q, [''x''])" "encodable q" by blast
  then have "encodable p" using p(1) by simp
  then show ?thesis using p Encode_encodable by (auto simp: maxPacket_def)
qed

definition ready_reader :: "chat reader" where
  "ready_reader = new_reader\<lparr>connectedAny := True\<rparr>"

theorem binary_event_received_witness:
  "\<exists>raw. handle_messages chat_user 0 [(([], True), OpText, raw, None), (([], True), OpBinary, ''x'', None)] ready_reader demo_server =
     Return ([], ready_reader, start_task (BinaryTask 0 Talk [RStr ''image'', RBytes ''x''] (Some 7)) demo_server)"
proof -
  obtain p where p: "BuildEventPacket ''/'' ''image'' (Some 7) [GBytes ''x''] = Inr (p, [''x''])" "Encode (Some p) = Inr (wire p)"
    "length (wire p) \<le> maxPacket" using small_packet by blast
  have d: "slot_free 0 demo_server" "\<not> sc_closed (sess_heap (tr demo_server) ! sess_tr 0 demo_server)"
    "session_conn 0 ''/'' demo_server = Some 0"
    by (simp_all add: slot_free_def demo_server_simps demo_conn_def polling_engine_link session_conn_def)
  have "handle_messages chat_user 0 ((([], True), OpText, wire p, None) # map (\<lambda>b. (([], True), OpBinary, b, None)) [''x''])
      ready_reader demo_server =
    Return ([], ready_reader, start_task (BinaryTask 0 Talk (RStr ''image'' # map view [GBytes ''x'']) (Some 7)) demo_server)"
    by (rule binary_event_received [OF image_args_sendable(2) _ _ _ _ _ _ root_ns(1,2) _ p d(3) demo_find_ns _ d(1,2)])
      (simp_all add: MaxAttachments_def maxNestingDepth_def max_int64_def ready_reader_def new_reader_def)
  then show ?thesis by (auto simp del: handle_messages.simps)
qed

end
