(* ===== verification/Sio_Run.thy ===== *)
theory Sio_Run
  imports Sio_Send
begin

section \<open>server: a run of the machine\<close>

text \<open>
  A small run from the empty server, computed step by step: a polling session is accepted, its client
  connects to the namespace \<open>/\<close>; then the application lets it join a room, or the client sends an
  event that asks for an acknowledgement. The properties of reachable states hold there.
\<close>

definition connect_root :: packet where
  "connect_root = \<lparr>Type = TypeConnect, Namespace = ''/'', ID = None, Data = [], Attachments = 0\<rparr>"

definition asking_event :: packet where
  "asking_event = \<lparr>Type = TypeEvent, Namespace = ''/'', ID = Some 1, Data = ''[\"a\"]'', Attachments = 0\<rparr>"

lemma Decode_connect_root: "Decode ''0'' = Inr connect_root"
proof -
  have "encodable connect_root" "wire connect_root = ''0''" by code_simp+
  then show ?thesis using Decode_wire [of connect_root] by (simp add: maxPacket_def)
qed

lemma Decode_asking_event: "Decode ''21[\"a\"]'' = Inr asking_event"
proof -
  have "encodable asking_event" "wire asking_event = ''21[\"a\"]''" by code_simp+
  then show ?thesis using Decode_wire [of asking_event] by (simp add: maxPacket_def)
qed

lemma asking_event_data: "EventName ''[\"a\"]'' = Inr ''a''" "EventArgs ''[\"a\"]'' = Inr []"
  by code_simp+

lemma Encode_reply: "Encode (Some (connect_reply ''/'' ''c1'')) = Inr ''0{\"sid\":\"c1\"}''"
  by code_simp

lemma packet_kinds: "TypeConnect \<noteq> TypeEvent" "\<not> IsBinary TypeConnect" "\<not> IsBinary TypeEvent"
  by code_simp+

abbreviation run_connect :: "chat event list" where
  "run_connect \<equiv>
     [ETransport (\<lambda>_. polling_engine\<lparr>connCh := [0]\<rparr>), EServe True, EMessage 0 (''c1'', True) (OpText, ''0'', None)]"

abbreviation run_event :: "chat event" where
  "run_event \<equiv> EMessage 0 ([], True) (OpText, ''21[\"a\"]'', None)"

lemmas run_defs =
  server_New_def NewServer_def defaults_def zero_options_def live_step_def machine_New_def Let_def
  accept_session_def serve_pass_def Accept_def new_reader_def handle_message_def deliver_def dispatchPacket_def packet_kinds
  of_outcome_def find_ns_def root_ns session_conn_def

lemmas connect_defs =
  Decode_connect_root connect_root_def connectNamespace_def ensureNamespace_def newNamespace_def
  register_def newConn_def greet_def send_def Encode_reply session_WriteText_def polling_engine_link
  poll_WriteText_def newPollConn_def chan_cap_def

lemmas event_defs =
  Decode_asking_event asking_event_def asking_event_data dispatchEvent_def getEvent_def resume_def slot_free_def
  start_task_def

text \<open>The state after the client has connected, and the two steps from there.\<close>

definition connected_at :: "chat server \<Rightarrow> bool" where
  "connected_at s \<longleftrightarrow>
     conn_heap s = [newConn ''c1'' ''/'' 0 (server_New None)] \<and> namespaces s = [(''/'', newNamespace ''/'')] \<and>
     sessions s = [(0, [(''/'', 0)])] \<and> tasks s = [] \<and> MaxEventConcurrency (s_opts s) = 32 \<and>
     es_heap s = [\<lparr>es_tr = 0, es_closed = False\<rparr>] \<and> \<not> sc_closed (sess_heap (tr s) ! 0)"

lemma run_connected:
  "\<exists>s. fold (live_step chat_user) run_connect (machine_New None) = (s, [new_reader\<lparr>connectedAny := True\<rparr>]) \<and> connected_at s"
  by (simp add: run_defs connect_defs connected_at_def)

lemma run_joined:
  assumes "connected_at s"
  shows "\<exists>t. live_step chat_user (EApi (ApiJoin ''lobby'' 0)) (s, rds) = (t, rds) \<and> RoomMembers ''/'' ''lobby'' t = [0] \<and>
    length (conn_heap t) = 1 \<and> session_conn 0 ''/'' t = Some 0"
  using assms
  by (simp add: connected_at_def run_defs conn_Join_def newConn_def newNamespace_def upd_ns_def as_member_def
      RoomMembers_def Join_def Join_lookup_def room_add_def New_def newRoom_def Members_def snapshot_def add_def MaxRoomsPerConn_def)

lemma run_event_started:
  assumes "connected_at s"
  shows "\<exists>t. live_step chat_user run_event (s, [new_reader\<lparr>connectedAny := True\<rparr>]) = (t, [new_reader\<lparr>connectedAny := True\<rparr>]) \<and>
    tasks t = [EventTask 0 None [] (Some 1)] \<and> length (conn_heap t) = 1 \<and> eventSem (conn_heap t ! 0) = Some 1"
  using assms
  by (simp add: connected_at_def run_defs newConn_def newNamespace_def event_defs)

subsection \<open>Witnesses\<close>

theorem namespaces_never_nil_witness:
  "\<exists>s rds. fold (live_step chat_user) run_connect (machine_New None) = (s, rds) \<and>
     machine_step chat_user run_event (s, rds) \<noteq> GoPanic ''nil pointer dereference'' \<and>
     session_conn 0 ''/'' s = Some 0 \<and> session (conn_heap s ! 0) = 0 \<and> find_ns ''/'' s \<noteq> None"
proof -
  obtain s rds where s: "fold (live_step chat_user) run_connect (machine_New None) = (s, rds)" "connected_at s"
    using run_connected by blast
  have "session_conn 0 ''/'' s = Some 0" using s(2) by (simp add: connected_at_def session_conn_def)
  then show ?thesis using namespaces_never_nil [OF chat_user_keeps s(1), of run_event] s(1) by blast
qed

theorem handlers_bounded_witness:
  "\<exists>s rds. fold (live_step chat_user) (run_connect @ [run_event]) (machine_New None) = (s, rds) \<and>
     tasks s = [EventTask 0 None [] (Some 1)] \<and> eventSem (conn_heap s ! 0) = Some 1 \<and>
     1 \<le> MaxEventConcurrency (s_opts s)"
proof -
  obtain s where s: "fold (live_step chat_user) run_connect (machine_New None) = (s, [new_reader\<lparr>connectedAny := True\<rparr>])"
    "connected_at s" using run_connected by blast
  obtain t where t: "live_step chat_user run_event (s, [new_reader\<lparr>connectedAny := True\<rparr>]) = (t, [new_reader\<lparr>connectedAny := True\<rparr>])"
    "tasks t = [EventTask 0 None [] (Some 1)]" "length (conn_heap t) = 1" using run_event_started [OF s(2)] by blast
  have r: "fold (live_step chat_user) (run_connect @ [run_event]) (machine_New None) = (t, [new_reader\<lparr>connectedAny := True\<rparr>])"
    using s(1) t(1) by (simp only: fold_append comp_apply fold.simps id_apply)
  have "eventSem (conn_heap t ! 0) = Some 1 \<and> 1 \<le> MaxEventConcurrency (s_opts t)"
    using handlers_bounded [OF chat_user_keeps r, of 0] t(2,3) by simp
  then show ?thesis using r t(2) by blast
qed


end
