(* ===== verification/Sio_Props.thy ===== *)
theory Sio_Props
  imports Sio_Run
begin

section \<open>server: what connections live through\<close>

text \<open>
  The life of a session and of its connections: the first packet, CONNECT, acknowledgements,
  disconnection, and teardown. Where a property is about the tables of the server, the handlers it
  meets are \<open>quiet\<close>: they return without touching the server, so that what is left is what the server did.
\<close>

subsection \<open>Quiet handlers and removal\<close>

definition quiet :: "'h handlers \<Rightarrow> bool" where
  "quiet user \<longleftrightarrow> (\<forall>h cl s. snd (user h cl s) = s)"

lemma quiet_run [simp]: "quiet user \<Longrightarrow> run_handler user fn cl s = s"
  by (simp add: run_handler_def quiet_def split: option.splits)

lemma leaveAll_simps [simp]:
  "sessions (leaveAll c s) = sessions s" "conns (leaveAll c s) = conns s" "connCount (leaveAll c s) = connCount s"
  "es_heap (leaveAll c s) = es_heap s" "tr (leaveAll c s) = tr s"
  by (simp_all add: leaveAll_def)

lemma leaveAll_nth:
  "conn_heap (leaveAll c s) ! a =
     (if a = c \<and> a < length (conn_heap s) then joined_update (\<lambda>_. []) (conn_heap s ! a) else conn_heap s ! a)"
  by (simp add: leaveAll_def nth_update)

lemma leaveAll_fields [simp]:
  "c_id (conn_heap (leaveAll c s) ! a) = c_id (conn_heap s ! a)" "c_ns (conn_heap (leaveAll c s) ! a) = c_ns (conn_heap s ! a)"
  "session (conn_heap (leaveAll c s) ! a) = session (conn_heap s ! a)"
  "c_closed (conn_heap (leaveAll c s) ! a) = c_closed (conn_heap s ! a)"
  "closeOnce (conn_heap (leaveAll c s) ! a) = closeOnce (conn_heap s ! a)"
  unfolding leaveAll_nth by simp_all

lemma forget_quiet:
  assumes "quiet user"
  shows "forget user c reason s =
    (leaveAll c s)\<lparr>conns := AList.delete (c_id (conn_heap s ! c)) (conns s), connCount := connCount s - 1\<rparr>"
  using assms by (simp add: forget_def Let_def split: option.splits)

text \<open>What the loop of \<open>teardownSession\<close> does to the tables.\<close>

abbreviation tear :: "'h handlers \<Rightarrow> string \<Rightarrow> string \<times> nat \<Rightarrow> 'h server \<Rightarrow> 'h server" where
  "tear user reason \<equiv> (\<lambda>(_, c) s. forget user c reason (upd_conn c (c_closed_update (\<lambda>_. True)) s))"

lemma tear_step:
  fixes reason ns :: string
  assumes "quiet user" "c < length (conn_heap s)"
  defines "t \<equiv> tear user reason (ns, c) s"
  shows "sessions t = sessions s" "es_heap t = es_heap s" "tr t = tr s" "connCount t = connCount s - 1"
    "length (conn_heap t) = length (conn_heap s)" "conns t = AList.delete (c_id (conn_heap s ! c)) (conns s)"
    "c_id (conn_heap t ! a) = c_id (conn_heap s ! a)"
    "c_closed (conn_heap t ! a) = (a = c \<or> c_closed (conn_heap s ! a))"
    "joined (conn_heap t ! a) = (if a = c then [] else joined (conn_heap s ! a))"
  using assms(2) unfolding t_def by (simp_all add: forget_quiet [OF assms(1)] leaveAll_nth nth_update)

lemma tear_all:
  assumes "quiet user" "snd ` set m \<subseteq> {..<length (conn_heap s)}"
  shows "sessions (fold (tear user reason) m s) = sessions s \<and> es_heap (fold (tear user reason) m s) = es_heap s \<and>
    tr (fold (tear user reason) m s) = tr s \<and> connCount (fold (tear user reason) m s) = connCount s - int (length m) \<and>
    length (conn_heap (fold (tear user reason) m s)) = length (conn_heap s) \<and>
    (\<forall>i. map_of (conns (fold (tear user reason) m s)) i =
       (if \<exists>c\<in>snd ` set m. c_id (conn_heap s ! c) = i then None else map_of (conns s) i)) \<and>
    (\<forall>a. c_id (conn_heap (fold (tear user reason) m s) ! a) = c_id (conn_heap s ! a) \<and>
       c_closed (conn_heap (fold (tear user reason) m s) ! a) = (a \<in> snd ` set m \<or> c_closed (conn_heap s ! a)) \<and>
       joined (conn_heap (fold (tear user reason) m s) ! a) = (if a \<in> snd ` set m then [] else joined (conn_heap s ! a)))"
  using assms(2)
proof (induction m arbitrary: s)
  case (Cons x m)
  obtain ns c where x: "x = (ns, c)" by (cases x)
  let ?t = "tear user reason (ns, c) s"
  have "c < length (conn_heap s)" using Cons.prems x by simp
  note t = tear_step [OF assms(1) this, where reason = reason and ns = ns]
  have "snd ` set m \<subseteq> {..<length (conn_heap ?t)}" unfolding t(5) using Cons.prems by simp
  from Cons.IH [OF this] show ?case
    unfolding x fold_Cons comp_apply t by (auto simp: x)
qed simp

lemma es_close_simps [simp]:
  "sessions (es_close se s) = sessions s" "conns (es_close se s) = conns s" "connCount (es_close se s) = connCount s"
  "conn_heap (es_close se s) = conn_heap s" "namespaces (es_close se s) = namespaces s" "tasks (es_close se s) = tasks s"
  by (simp_all add: es_close_def)

lemma es_close_closes:
  assumes "se < length (es_heap s)" "\<not> es_closed (es_heap s ! se)" "es_tr (es_heap s ! se) < length (sess_heap (tr s))"
  shows "es_closed (es_heap (es_close se s) ! se) \<and> sc_closed (sess_heap (tr (es_close se s)) ! es_tr (es_heap s ! se))"
  using assms by (simp add: es_close_def session_Close_heap)

lemma quiet_keeps: "quiet user \<Longrightarrow> handlers_keep user"
  by (simp add: quiet_def handlers_keep_def)

subsection \<open>Connecting\<close>

lemma send_same:
  assumes "es_heap u = es_heap s" "tr u = tr s"
  shows "send se p b u = (fst (send se p b s), u\<lparr>tr := tr (snd (send se p b s))\<rparr>)"
proof -
  have "u = u\<lparr>tr := tr s\<rparr>" using assms(2) by simp
  then show ?thesis using assms
    by (auto simp: send_def split: sum.splits option.splits prod.splits)
qed

text \<open>A packet without byte slices: all of it is sent, or nothing.\<close>

lemma send_text:
  assumes "link_ready (sess_tr se s) (tr s)" "send se p [] s = (e, t)"
  shows "link_ready (sess_tr se s) (tr t) \<and> link_enc (sess_tr se s) (tr t) = link_enc (sess_tr se s) (tr s) \<and>
    (\<exists>rest. link_sent (sess_tr se s) (tr t) = link_sent (sess_tr se s) (tr s) @ rest \<and>
      (rest = [] \<or> (\<exists>raw. Encode (Some p) = Inr raw \<and> rest = link_enc (sess_tr se s) (tr s) (OpText, eioMessage # raw))))"
proof (cases "Encode (Some p)")
  case (Inr raw)
  obtain e1 t1 where w: "session_WriteText (sess_tr se s) (eioMessage # raw) (tr s) = (e1, t1)" by fastforce
  have "tr t = tr s \<or> tr t = t1" using assms(2) Inr w by (auto simp: send_def split: if_splits option.splits)
  then show ?thesis using link.text_sent [OF assms(1) w] assms(1) Inr by auto
qed (use assms in \<open>auto simp: send_def\<close>)

lemma ensureNamespace_simps [simp]:
  "es_heap (snd (ensureNamespace ns s)) = es_heap s" "tr (snd (ensureNamespace ns s)) = tr s"
  "conns (snd (ensureNamespace ns s)) = conns s" "connCount (snd (ensureNamespace ns s)) = connCount s"
  "s_opts (snd (ensureNamespace ns s)) = s_opts s"
  by (simp_all add: ensureNamespace_def Let_def split: option.splits)

text \<open>The tables after \<open>register\<close> has entered a connection.\<close>

lemma register_tables:
  assumes "session_conn se (Namespace p) s = None" "map_of (sessions s) se = Some m"
  shows "\<exists>t. register i se p s = Return (Some (length (conn_heap s)), t) \<and>
    (\<forall>x y. session_conn x y t = (if x = se \<and> y = Namespace p then Some (length (conn_heap s)) else session_conn x y s)) \<and>
    (\<exists>cn. conn_heap t = conn_heap s @ [cn] \<and> c_id cn = i \<and> c_ns cn = Namespace p \<and> session cn = se) \<and>
    map_of (conns t) = (map_of (conns s))(i \<mapsto> length (conn_heap s)) \<and> connCount t = connCount s + 1 \<and>
    namespaces t = namespaces s \<and> es_heap t = es_heap s \<and> tr t = tr s"
  using assms by (auto simp: register_def Let_def session_conn_def newConn_def)

subsection \<open>Properties\<close>

text \<open>C26. The first packet of a session must be a CONNECT: on anything else (a binary message, bytes that do
  not decode, or a packet of another type) the reader returns, the session is taken out of the table
  and its transport closed, while no connection is made and no handler is called.\<close>

theorem first_packet_must_connect:
  assumes "\<not> connectedAny rd" "pending rd = None" "map_of (sessions s) se = Some []"
    and "op = OpBinary \<or> raw \<noteq> [] \<and> (\<forall>p. Decode raw = Inr p \<longrightarrow> Type p \<noteq> TypeConnect)"
    and "se < length (es_heap s)" "\<not> es_closed (es_heap s ! se)" "sess_tr se s < length (sess_heap (tr s))"
  shows "\<exists>t. handle_message user d se (op, raw, None) rd s = Return (rd\<lparr>exited := True\<rparr>, t) \<and>
    map_of (sessions t) se = None \<and> sc_closed (sess_heap (tr t) ! sess_tr se s) \<and>
    conn_heap t = conn_heap s \<and> conns t = conns s \<and> connCount t = connCount s \<and> namespaces t = namespaces s \<and> tasks t = tasks s"
proof -
  have "handle_message user d se (op, raw, None) rd s = Return (leave_reader user se rd s)"
    using assms(1,2,4) by (auto simp: handle_message_def split: sum.splits)
  moreover have "leave_reader user se rd s = (rd\<lparr>exited := True\<rparr>, es_close se (s\<lparr>sessions := AList.delete se (sessions s)\<rparr>))"
    using assms(3) by (simp add: leave_reader_def teardownSession_def)
  ultimately show ?thesis
    using es_close_closes [of se "s\<lparr>sessions := AList.delete se (sessions s)\<rparr>"] assms(5-7) by simp
qed

text \<open>Up to the reply: what is left to do is the \<open>OnConnect\<close> handler of the namespace.\<close>

lemma connect_replied:
  assumes "Type p = TypeConnect" "find_ns (Namespace p) s \<noteq> None \<or> Namespace p = ''/''"
    and "session_conn se (Namespace p) s = None" "map_of (sessions s) se = Some m"
    and "link_ready (sess_tr se s) (tr s)" "fst (send se (connect_reply (Namespace p) i) [] s) = None"
  shows "\<exists>t raw. dispatchPacket user i se p buffers s =
      Done (case onConnect (the (find_ns (Namespace p) t)) of
        None \<Rightarrow> t
      | Some h \<Rightarrow>
          (case user h (ConnectCall (length (conn_heap s))) t of
             (None, v) \<Rightarrow> v
           | (Some _, v) \<Rightarrow> removeConn user (length (conn_heap s)) ''rejected'' (sendConnectError se (Namespace p) ''Not authorized'' v))) \<and>
    find_ns (Namespace p) t \<noteq> None \<and>
    (\<forall>x y. session_conn x y t = (if x = se \<and> y = Namespace p then Some (length (conn_heap s)) else session_conn x y s)) \<and>
    (\<exists>cn. conn_heap t = conn_heap s @ [cn] \<and> c_id cn = i \<and> c_ns cn = Namespace p \<and> session cn = se) \<and>
    map_of (conns t) = (map_of (conns s))(i \<mapsto> length (conn_heap s)) \<and> connCount t = connCount s + 1 \<and>
    es_heap t = es_heap s \<and> (\<forall>n. find_ns (Namespace p) s = Some n \<longrightarrow> find_ns (Namespace p) t = Some n) \<and>
    link_ready (sess_tr se s) (tr t) \<and> link_enc (sess_tr se s) (tr t) = link_enc (sess_tr se s) (tr s) \<and>
    Encode (Some (connect_reply (Namespace p) i)) = Inr raw \<and>
    link_sent (sess_tr se s) (tr t) =
      link_sent (sess_tr se s) (tr s) @ link_enc (sess_tr se s) (tr s) (OpText, eioMessage # raw)"
proof -
  let ?e = "snd (ensureNamespace (Namespace p) s)" and ?a = "length (conn_heap s)"
  have "session_conn se (Namespace p) ?e = None" "map_of (sessions ?e) se = Some m"
    using assms(3,4) by (simp_all add: session_conn_def)
  from register_tables [OF this, of i] obtain u where u: "register i se p ?e = Return (Some ?a, u)"
    "\<forall>x y. session_conn x y u = (if x = se \<and> y = Namespace p then Some ?a else session_conn x y s)"
    "\<exists>cn. conn_heap u = conn_heap s @ [cn] \<and> c_id cn = i \<and> c_ns cn = Namespace p \<and> session cn = se"
    "map_of (conns u) = (map_of (conns s))(i \<mapsto> ?a)" "connCount u = connCount s + 1"
    "namespaces u = namespaces ?e" "es_heap u = es_heap s" "tr u = tr s" by (auto simp: session_conn_def)
  obtain t' where t': "send se (connect_reply (Namespace p) i) [] s = (None, t')"
    using assms(6) by (cases "send se (connect_reply (Namespace p) i) [] s") simp
  let ?t = "u\<lparr>tr := tr t'\<rparr>"
  have snt: "send se (connect_reply (Namespace p) i) [] u = (None, ?t)" using send_same [OF u(7,8)] t' by simp
  from send_sent [OF assms(5) t'] obtain raw where raw: "Encode (Some (connect_reply (Namespace p) i)) = Inr raw"
    "link_sent (sess_tr se s) (tr t') = link_sent (sess_tr se s) (tr s) @ link_enc (sess_tr se s) (tr s) (OpText, eioMessage # raw)"
    by auto
  have k: "find_ns (Namespace p) ?t = Some n" if "find_ns (Namespace p) s = Some n" for n
    using that u(6) by (simp add: find_ns_def ensureNamespace_def Let_def)
  have l: "link_ready (sess_tr se s) (tr t') \<and> link_enc (sess_tr se s) (tr t') = link_enc (sess_tr se s) (tr s)"
    using send_text [OF assms(5) t'] by simp
  have f: "find_ns (Namespace p) ?t \<noteq> None" using find_ensured [of "Namespace p" s] u(6) by (simp add: find_ns_def)
  have "dispatchPacket user i se p buffers s = Done (greet user se (Namespace p) i ?a u)"
    using assms(1,2) u(1) by (auto simp: dispatchPacket_def connectNamespace_def of_outcome_def Let_def)
  then have "dispatchPacket user i se p buffers s = Done (case onConnect (the (find_ns (Namespace p) ?t)) of None \<Rightarrow> ?t
      | Some h \<Rightarrow> (case user h (ConnectCall ?a) ?t of (None, v) \<Rightarrow> v
        | (Some _, v) \<Rightarrow> removeConn user ?a ''rejected'' (sendConnectError se (Namespace p) ''Not authorized'' v)))"
    using f by (auto simp: greet_def snt)
  then show ?thesis using u raw f k l by (intro exI [of _ ?t] exI [of _ raw]) (simp add: session_conn_def)
qed

subsection \<open>Properties of CONNECT\<close>

text \<open>C12. Connecting to a namespace: for a known namespace, or the root, a CONNECT enters one new connection,
  filed under its session, namespace and id, raises the counter by one, leaves every other connection
  and session alone and sends the peer exactly the reply; when the \<open>OnConnect\<close> handler accepts, that
  is all, and a second CONNECT for the namespace changes nothing.\<close>

theorem connect_accepted:
  assumes "quiet user" "Type p = TypeConnect" "find_ns (Namespace p) s \<noteq> None \<or> Namespace p = ''/''"
    and "session_conn se (Namespace p) s = None" "map_of (sessions s) se = Some m"
    and "link_ready (sess_tr se s) (tr s)" "fst (send se (connect_reply (Namespace p) i) [] s) = None"
    and "\<And>h u. fst (user h (ConnectCall (length (conn_heap s))) u) = None"
  shows "\<exists>t raw. dispatchPacket user i se p buffers s = Done t \<and>
    (\<forall>x y. session_conn x y t = (if x = se \<and> y = Namespace p then Some (length (conn_heap s)) else session_conn x y s)) \<and>
    (\<exists>cn. conn_heap t = conn_heap s @ [cn] \<and> c_id cn = i \<and> c_ns cn = Namespace p \<and> session cn = se) \<and>
    map_of (conns t) = (map_of (conns s))(i \<mapsto> length (conn_heap s)) \<and> server_Count t = server_Count s + 1 \<and>
    Encode (Some (connect_reply (Namespace p) i)) = Inr raw \<and>
    link_sent (sess_tr se s) (tr t) =
      link_sent (sess_tr se s) (tr s) @ link_enc (sess_tr se s) (tr s) (OpText, eioMessage # raw) \<and>
    dispatchPacket user j se p buffers t = Done t"
proof -
  from connect_replied [OF assms(2-7), of user buffers] obtain t raw where t:
    "dispatchPacket user i se p buffers s = Done (case onConnect (the (find_ns (Namespace p) t)) of None \<Rightarrow> t
      | Some h \<Rightarrow> (case user h (ConnectCall (length (conn_heap s))) t of (None, v) \<Rightarrow> v
        | (Some _, v) \<Rightarrow> removeConn user (length (conn_heap s)) ''rejected'' (sendConnectError se (Namespace p) ''Not authorized'' v)))"
    "find_ns (Namespace p) t \<noteq> None"
    "\<forall>x y. session_conn x y t = (if x = se \<and> y = Namespace p then Some (length (conn_heap s)) else session_conn x y s)"
    "\<exists>cn. conn_heap t = conn_heap s @ [cn] \<and> c_id cn = i \<and> c_ns cn = Namespace p \<and> session cn = se"
    "map_of (conns t) = (map_of (conns s))(i \<mapsto> length (conn_heap s))" "connCount t = connCount s + 1"
    "Encode (Some (connect_reply (Namespace p) i)) = Inr raw"
    "link_sent (sess_tr se s) (tr t) =
      link_sent (sess_tr se s) (tr s) @ link_enc (sess_tr se s) (tr s) (OpText, eioMessage # raw)" by blast
  have "user h (ConnectCall (length (conn_heap s))) v = (None, v)" for h v
    using assms(1,8) by (simp add: quiet_def prod_eq_iff)
  then have d: "dispatchPacket user i se p buffers s = Done t" using t(1) by (simp split: option.splits)
  have "snd (ensureNamespace (Namespace p) t) = t" using t(2) by (auto simp: ensureNamespace_def find_ns_def Let_def)
  then have "dispatchPacket user j se p buffers t = Done t"
    using assms(2) t(2,3) by (auto simp: dispatchPacket_def connectNamespace_def of_outcome_def register_def Let_def)
  then show ?thesis using d t(3-8) by (intro exI [of _ t] exI [of _ raw]) (simp add: server_Count_def)
qed


text \<open>A CONNECT to a namespace that nobody has registered changes no table: the peer is sent at most the
  CONNECT_ERROR.\<close>

theorem connect_refused:
  assumes "Type p = TypeConnect" "find_ns (Namespace p) s = None" "Namespace p \<noteq> ''/''" "link_ready (sess_tr se s) (tr s)"
  shows "\<exists>t rest. dispatchPacket user i se p buffers s = Done (s\<lparr>tr := t\<rparr>) \<and>
    link_sent (sess_tr se s) t = link_sent (sess_tr se s) (tr s) @ rest \<and>
    (rest = [] \<or> (\<exists>err. Encode (Some (connect_error (Namespace p) ''Invalid namespace'')) = Inr err \<and>
      rest = link_enc (sess_tr se s) (tr s) (OpText, eioMessage # err)))"
proof -
  obtain e t where t: "send se (connect_error (Namespace p) ''Invalid namespace'') [] s = (e, t)" by fastforce
  have "t = s\<lparr>tr := tr t\<rparr>" using send_frame [of se "connect_error (Namespace p) ''Invalid namespace''" "[]" s] t by auto
  moreover have "dispatchPacket user i se p buffers s = Done t"
    using assms(1-3) t by (simp add: dispatchPacket_def connectNamespace_def of_outcome_def sendConnectError_def)
  ultimately show ?thesis using send_text [OF assms(4) t] by metis
qed

text \<open>C18. Teardown is complete: once a session has been torn down, its entry and its transport are gone, the
  counter is lowered by the number of its connections, and each of them is closed, out of the table
  of connections and out of every room.\<close>

theorem teardown_complete:
  assumes "quiet user" "server_ok s" "map_of (sessions s) se = Some m" "distinct (map fst m)"
    and "se < length (es_heap s)" "\<not> es_closed (es_heap s ! se)" "sess_tr se s < length (sess_heap (tr s))"
    and "t = teardownSession user se reason s"
  shows "map_of (sessions t) se = None \<and> es_closed (es_heap t ! se) \<and> sc_closed (sess_heap (tr t) ! sess_tr se s) \<and>
    server_Count t = server_Count s - int (length m) \<and>
    (\<forall>ns c. session_conn se ns s = Some c \<longrightarrow>
      c_closed (conn_heap t ! c) \<and> map_of (conns t) (c_id (conn_heap t ! c)) = None \<and> (\<forall>ns room. c \<notin> set (RoomMembers ns room t)))"
proof -
  let ?s = "s\<lparr>sessions := AList.delete se (sessions s)\<rparr>"
  let ?f = "fold (tear user reason) m ?s"
  have mem: "session_conn se ns s = Some c \<longleftrightarrow> (ns, c) \<in> set m" for ns c
    using assms(3,4) by (simp add: session_conn_def)
  have "c < length (conn_heap s)" if "(ns, c) \<in> set m" for ns c
    using assms(2) that mem [of ns c] unfolding server_ok_def sess_ok_def by blast
  then have "snd ` set m \<subseteq> {..<length (conn_heap ?s)}" by auto
  note f = tear_all [OF assms(1) this, of reason]
  have t: "t = es_close se ?f" using assms(3,8) by (simp add: teardownSession_def)
  have closed: "es_closed (es_heap t ! se) \<and> sc_closed (sess_heap (tr t) ! sess_tr se s)"
    using es_close_closes [of se ?f] f assms(5-7) by (simp add: t)
  have at: "server_at 0 s" using assms(2) by (simp add: server_at_def)
  have "server_ok t" using teardownSession_at [OF quiet_keeps [OF assms(1)] at, of se reason] assms(8) by (simp add: server_at_def)
  note ok = this
  have gone: "joined (conn_heap t ! c) = []" "c_closed (conn_heap t ! c)" "map_of (conns t) (c_id (conn_heap t ! c)) = None"
    if "(ns, c) \<in> set m" for ns c
  proof -
    have "c \<in> snd ` set m" using that by (rule image_eqI [rotated]) simp
    then show "joined (conn_heap t ! c) = []" "c_closed (conn_heap t ! c)" "map_of (conns t) (c_id (conn_heap t ! c)) = None"
      using f by (simp_all add: t) blast
  qed
  have rooms: "c \<notin> set (RoomMembers ns room t)" if "(ns', c) \<in> set m" for ns' c ns room
    using members_agree [OF ok, of c ns room] gone(1) [OF that] by auto
  have "map_of (sessions t) se = None" "server_Count t = server_Count s - int (length m)"
    using f by (simp_all add: t server_Count_def)
  then show ?thesis using closed gone(2,3) rooms by (simp only: mem) blast
qed

text \<open>C36. A CONNECT that is dispatched after its session has been torn down (by \<open>Server.Close\<close>, while the reader
  still holds the message) assigns to a nil map: the process panics.\<close>

theorem connect_after_teardown_panics:
  assumes "Type p = TypeConnect" "Namespace p = ''/'' \<or> find_ns (Namespace p) t \<noteq> None"
    and "t = teardownSession user se reason s" "quiet user"
  shows "dispatchPacket user i se p buffers t = Panics ''assignment to entry in nil map''"
proof -
  have "sessions (fold (tear user reason) m u) = sessions u" for m u
  proof (induction m arbitrary: u)
    case (Cons x m)
    then show ?case by (cases x) (simp add: forget_quiet [OF assms(4)])
  qed simp
  then have "map_of (sessions t) se = None" by (simp add: assms(3) teardownSession_def Let_def)
  then show ?thesis using assms(1,2)
    by (auto simp: dispatchPacket_def connectNamespace_def register_def session_conn_def of_outcome_def Let_def)
qed

text \<open>C38. Disconnecting and closing counts a connection twice: after the client's DISCONNECT for a namespace,
  the application's \<open>Close\<close> of that connection lowers the counter once more.\<close>

theorem double_decrement:
  assumes "quiet user" "session_conn se ns s = Some c" "\<not> closeOnce (conn_heap s ! c)"
  shows "server_Count (snd (conn_Close user c (disconnectNamespace user se ns reason s))) = server_Count s - 2"
proof -
  obtain m where m: "map_of (sessions s) se = Some m" "map_of m ns = Some c"
    using assms(2) by (auto simp: session_conn_def split: option.splits)
  let ?s = "disconnectNamespace user se ns reason s"
  have d: "connCount ?s = connCount s - 1" "\<not> closeOnce (conn_heap ?s ! c)"
    using m assms(3) by (simp_all add: disconnectNamespace_def forget_quiet [OF assms(1)])
  have "connCount (removeConn user c r u) = connCount u - 1" for r u
    by (simp add: removeConn_def Let_def forget_quiet [OF assms(1)] split: option.splits)
  then show ?thesis using d by (simp add: conn_Close_def server_Count_def Let_def case_prod_beta)
qed

subsection \<open>Acknowledgements and slots\<close>

lemma int_below: "n \<le> 2 ^ 63 - 1 \<Longrightarrow> int n < 2 ^ 63"
  by simp

lemma ack_id:
  fixes w :: "64 word" assumes "unat w \<le> 2 ^ 63 - 1"
  shows "sint w = int (unat w)" "word_of_int (int (unat w)) = w"
proof -
  have u: "uint w = int (unat w)" by (rule uint_nat)
  have "sint w = signed_take_bit 63 (uint w)" by (simp add: sint_uint)
  also have "\<dots> = int (unat w)" unfolding u
    by (rule signed_take_bit_int_eq_self [OF order.trans [of _ 0] int_below [OF assms]]) simp_all
  finally show "sint w = int (unat w)" .
  show "word_of_int (int (unat w)) = w" unfolding u [symmetric] by (rule word_of_int_uint)
qed

lemma delete_twice: "AList.delete k \<circ> AList.delete k = AList.delete k"
  by (simp add: fun_eq_iff delete_idem)

text \<open>C20. An acknowledgement is delivered once: when \<open>EmitWithAck\<close> succeeds, the packet sent carries an id
  below \<open>2 ^ 63\<close>, the first ack with this id runs the callback on its arguments, exactly once, and any
  further ack with the id changes nothing.\<close>

theorem ack_fires_once:
  assumes "EmitWithAck c event h args s = (None, t)" "c < length (conn_heap s)" "\<not> IsBinary (Type p)"
    and "i = int (unat (ackSeq (conn_heap s ! c) + 1))"
  shows "\<exists>u. i < 2 ^ 63 \<and> (\<exists>q b raw. BuildEventPacket (c_ns (conn_heap s ! c)) event None args = Inr (q, b) \<and>
      Encode (Some (q\<lparr>ID := Some i\<rparr>)) = Inr raw) \<and>
    fireAck user c i p bufs t = Return (snd (user h (AckCall (EventArgs (Data p))) u)) \<and>
    (\<forall>user q b. \<not> IsBinary (Type q) \<longrightarrow> fireAck user c i q b u = Return u)"
proof -
  let ?seq = "ackSeq (conn_heap s ! c) + 1"
  let ?s = "upd_conn c (acks_update (AList.update ?seq h)) (upd_conn c (ackSeq_update (\<lambda>_. ?seq)) s)"
  obtain q b where q: "BuildEventPacket (c_ns (conn_heap s ! c)) event None args = Inr (q, b)"
    using assms(1) by (auto simp: EmitWithAck_def split: sum.splits)
  have le: "unat ?seq \<le> 2 ^ 63 - 1" using assms(1) q by (simp add: EmitWithAck_def Let_def split: if_splits)
  note i = ack_id [OF le]
  have k: "word_of_int i = ?seq" using i(2) assms(4) by simp
  have snt: "send (session (conn_heap s ! c)) (q\<lparr>ID := Some i\<rparr>) b ?s = (None, t)"
    using assms(1,2) q le i(1) by (auto simp: EmitWithAck_def Let_def send_or_undo_def assms(4) split: prod.splits option.splits)
  then have "conn_heap t = conn_heap ?s" using send_simps(1) by (metis snd_conv)
  then have a: "map_of (acks (conn_heap t ! c)) ?seq = Some h" "c < length (conn_heap t)" using assms(2) by simp_all
  let ?u = "upd_conn c (acks_update (AList.delete ?seq)) t"
  have "fireAck user c i p bufs t = Return (snd (user h (AckCall (EventArgs (Data p))) ?u))"
    using assms(3) a by (simp add: fireAck_def run_handler_def k)
  moreover have "fireAck user c i q b ?u = Return ?u" if "\<not> IsBinary (Type q)" for user :: "'a handlers" and q b
    using that a(2) by (simp add: fireAck_def run_handler_def delete_twice Let_def k)
  moreover have "\<exists>raw. Encode (Some (q\<lparr>ID := Some i\<rparr>)) = Inr raw" using snt by (auto simp: send_def split: sum.splits)
  moreover have "i < 2 ^ 63" using int_below [OF le] assms(4) by simp
  ultimately show ?thesis using q by blast
qed

text \<open>C37. The callback of a text ack misses the first value: \<open>fireAck\<close> reads the payload with \<open>EventArgs\<close>, which
  skips the place where an event has its name; and an ack without values is an error.\<close>

theorem ack_drops_first:
  assumes "BuildAckData (v # vs) = Inr d" "\<forall>w\<in>set (v # vs). \<forall>j. to_json w = Some j \<longrightarrow> wf_json j \<and> depth j < maxNestingDepth"
    and "map_of (acks (conn_heap s ! c)) (word_of_int i) = Some h" "\<not> IsBinary (Type p)"
    and "t = upd_conn c (acks_update (AList.delete (word_of_int i))) s"
  shows "\<exists>bs e. fireAck user c i (p\<lparr>Data := d\<rparr>) bufs s = Return (snd (user h (AckCall (Inr bs)) t)) \<and> map Inr bs = map Marshal vs \<and>
    BuildAckData [] = Inr ''[]'' \<and> fireAck user c i (p\<lparr>Data := ''[]''\<rparr>) bufs s = Return (snd (user h (AckCall (Inl e)) t))"
proof -
  obtain js where js: "list_all2 (\<lambda>v j. to_json v = Some j) (v # vs) js" "d = print (JArr js)"
    using assms(1) by (auto simp: BuildAckData_def Marshal_def to_json_slice simp del: to_json.simps split: option.splits)
  have wf: "wf_json j \<and> depth j < maxNestingDepth" if j: "j \<in> set js" for j
  proof -
    obtain k where k: "k < length js" "js ! k = j" using j by (auto simp: in_set_conv_nth)
    have "to_json ((v # vs) ! k) = Some j" using list_all2_nthD2 [OF js(1) k(1)] k(2) by simp
    moreover have "(v # vs) ! k \<in> set (v # vs)" using list_all2_lengthD [OF js(1)] k(1) by (intro nth_mem) simp
    ultimately show ?thesis using assms(2) by blast
  qed
  have r: "unmarshal_raws d = Some (map print js)" unfolding js(2)
    using wf by (intro unmarshal_raws_print) (auto simp: list_all_iff Suc_le_eq maxNestingDepth_def intro!: foldr_max_less)
  have m: "map Inr (map print js) = map Marshal (v # vs)"
    using js(1) by (induction rule: list_all2_induct) (auto simp: Marshal_def)
  then have "EventArgs d = Inr (map print (tl js)) \<and> map Inr (map print (tl js)) = map Marshal vs"
    using r by (cases js) (auto simp: EventArgs_def)
  moreover obtain e where "EventArgs ''[]'' = Inl e"
  proof -
    have "unmarshal_raws ''[]'' = Some []" by code_simp
    then show ?thesis using that by (simp add: EventArgs_def)
  qed
  ultimately show ?thesis using assms(3-5)
    by (intro exI [of _ "map print (tl js)"] exI [of _ e]) (simp add: fireAck_def run_handler_def BuildAckData_def)
qed

lemma emitAck_simps [simp]:
  "conn_heap (snd (emitAck c i args s)) = conn_heap s" "tasks (snd (emitAck c i args s)) = tasks s"
  "s_opts (snd (emitAck c i args s)) = s_opts s"
  by (simp_all add: emitAck_def split: sum.splits)

lemma task_body_quiet:
  assumes "quiet user"
  shows "conn_heap (task_body user t s) = conn_heap s \<and> tasks (task_body user t s) = tasks s \<and> s_opts (task_body user t s) = s_opts s"
  using assms by (auto simp: task_body_def quiet_def run_handler_def split: task.splits option.splits)

lemma resume_free:
  assumes "waiting rd = Some t" "slot_free (task_conn t) s"
  shows "resume True k rd s = (rd\<lparr>waiting := None\<rparr>, start_task t s)"
  using assms by (simp add: resume_def Let_def)

lemma task_holds_slot:
  assumes "server_ok s" "c < length (conn_heap s)" "\<not> slot_free c s"
  shows "\<exists>j<length (tasks s). task_conn (tasks s ! j) = c"
proof -
  have "eventSem (conn_heap s ! c) = Some (tasks_of c s)" "0 < MaxEventConcurrency (s_opts s)"
    using assms(1,2) by (auto simp: server_ok_def sem_ok_def)
  then have "tasks_of c s \<noteq> 0" using assms(3) by (auto simp: slot_free_def)
  then show ?thesis by (auto simp: tasks_of_def filter_empty_conv in_set_conv_nth)
qed

lemma finished_frees:
  assumes "server_ok s" "j < length (tasks s)" "task_conn (tasks s ! j) = c"
    and "conn_heap u = conn_heap s" "tasks u = tasks s" "s_opts u = s_opts s"
  shows "slot_free c (finish_task j u)"
proof -
  have c: "c < length (conn_heap s)" using assms(1-3) by (auto simp: server_ok_def sem_ok_def)
  then have "eventSem (conn_heap s ! c) = Some (tasks_of c s)" "int (tasks_of c s) \<le> MaxEventConcurrency (s_opts s)"
    using assms(1) by (auto simp: server_ok_def sem_ok_def)
  moreover have "tasks_of c s \<noteq> 0" using assms(2,3) by (auto simp: tasks_of_def filter_empty_conv)
  ultimately show ?thesis using assms(2-6) c by (simp add: finish_task_def slot_free_def)
qed

text \<open>C19. A reader that waits for a slot does not wait for ever: in every reachable state either a slot of the
  connection is free or one of its handlers is running, and when that handler has returned, the
  reader goes on and its own task is started.\<close>

theorem waiting_reader_resumes:
  assumes "quiet user" "fold (live_step user) es (machine_New op) = (s, rds)"
    and "k < length rds" "\<not> exited (rds ! k)" "waiting (rds ! k) = Some t"
  shows "\<exists>j s' rds'. (slot_free (task_conn t) s \<or> j < length (tasks s) \<and> task_conn (tasks s ! j) = task_conn t) \<and>
    fold (live_step user) [ERunTask j, EResume k True] (s, rds) = (s', rds') \<and> waiting (rds' ! k) = None \<and> t \<in> set (tasks s')"
proof -
  have "application user" using quiet_keeps [OF assms(1)] by (rule application.intro)
  from application.reachable [OF this assms(2)] have "machine_ok (s, rds)" .
  then have ok: "server_ok s" "task_conn t < length (conn_heap s)"
    using assms(3,5) by (auto simp: machine_ok_def readers_ok_def)
  have resumed: "live_step user (EResume k True) (u, rds) = (start_task t u, rds[k := (rds ! k)\<lparr>waiting := None\<rparr>])"
    if "slot_free (task_conn t) u" for u
    using assms(3-5) resume_free [OF assms(5) that] by (simp add: live_step_def)
  have started: "t \<in> set (tasks (start_task t u))" for u by (simp add: start_task_def Let_def)
  show ?thesis
  proof (cases "slot_free (task_conn t) s")
    case True
    have "live_step user (ERunTask (length (tasks s))) (s, rds) = (s, rds)" by (simp add: live_step_def)
    then show ?thesis using True resumed [OF True] started [of s] assms(3)
      by (intro exI [of _ "length (tasks s)"] exI [of _ "start_task t s"] exI [of _ "rds[k := (rds ! k)\<lparr>waiting := None\<rparr>]"]) simp
  next
    case False
    then obtain j where j: "j < length (tasks s)" "task_conn (tasks s ! j) = task_conn t"
      using task_holds_slot [OF ok] by blast
    let ?u = "finish_task j (task_body user (tasks s ! j) s)"
    have "slot_free (task_conn t) ?u" using task_body_quiet [OF assms(1)] by (intro finished_frees [OF ok(1) j]) simp_all
    note r = resumed [OF this]
    have "live_step user (ERunTask j) (s, rds) = (?u, rds)" using j(1) by (simp add: live_step_def)
    then show ?thesis using j r started [of ?u] assms(3)
      by (intro exI [of _ j] exI [of _ "start_task t ?u"] exI [of _ "rds[k := (rds ! k)\<lparr>waiting := None\<rparr>]"]) simp
  qed
qed

subsection \<open>Witnesses\<close>

definition silent :: "chat handlers" where
  "silent = (\<lambda>_ _ s. (None, s))"

definition rejecting :: "chat handlers" where
  "rejecting = (\<lambda>_ cl s. (case cl of ConnectCall _ \<Rightarrow> Some (ErrorString ''no'') | _ \<Rightarrow> None, s))"

lemma quiet_users: "quiet silent" "quiet rejecting"
  by (simp_all add: quiet_def silent_def rejecting_def)

text \<open>The server before its client has connected.\<close>

definition fresh_server :: "chat server" where
  "fresh_server = demo_server\<lparr>sessions := [(0, [])], conn_heap := [], conns := [], connCount := 0,
     namespaces := [(''/'', (newNamespace ''/'')\<lparr>onConnect := Some Bouncer\<rparr>)]\<rparr>"

lemma fresh_server_simps:
  "tr fresh_server = polling_engine" "es_heap fresh_server = [\<lparr>es_tr = 0, es_closed = False\<rparr>]"
  "conn_heap fresh_server = []" "sessions fresh_server = [(0, [])]" "connCount fresh_server = 0" "conns fresh_server = []"
  "find_ns ''/'' fresh_server = Some ((newNamespace ''/'')\<lparr>onConnect := Some Bouncer\<rparr>)"
  by (simp_all add: fresh_server_def demo_server_simps find_ns_def root_ns)

lemma fresh_reply: "fst (send 0 (connect_reply ''/'' ''c1'') [] fresh_server) = None"
  by (simp add: send_def Encode_reply fresh_server_simps session_WriteText_def polling_engine_link poll_WriteText_def
      newPollConn_def chan_cap_def)

lemma root_packets: "Type connect_root = TypeConnect" "Namespace connect_root = ''/''" "Type asking_event \<noteq> TypeConnect"
  by code_simp+

lemma demo_server_ok: "server_ok demo_server"
proof -
  have "sess_ok demo_server"
    by (auto simp: sess_ok_def session_conn_def demo_server_simps demo_conn_def demo_find_ns split: if_splits)
  moreover have "rooms_ok demo_server"
    using manager_ok_New by (auto simp: rooms_ok_def demo_server_simps newNamespace_def occupants_def New_def split: if_splits)
  moreover have "joined_ok demo_server" by (simp add: joined_ok_def demo_server_simps demo_conn_def)
  moreover have "sem_ok demo_server" by (simp add: sem_ok_def demo_server_simps demo_conn_def tasks_of_def)
  ultimately show ?thesis by (simp add: server_ok_def)
qed

theorem first_packet_must_connect_witness:
  "\<exists>t. handle_message silent (''c1'', True) 0 (OpText, ''21[\"a\"]'', None) new_reader fresh_server =
     Return (new_reader\<lparr>exited := True\<rparr>, t) \<and> map_of (sessions t) 0 = None \<and> conn_heap t = []"
proof -
  have d: "OpText = OpBinary \<or> ''21[\"a\"]'' \<noteq> [] \<and> (\<forall>p. Decode ''21[\"a\"]'' = Inr p \<longrightarrow> Type p \<noteq> TypeConnect)"
    using root_packets(3) by (simp add: Decode_asking_event)
  show ?thesis
    using first_packet_must_connect [OF _ _ _ d, of new_reader fresh_server 0 silent "(''c1'', True)"]
    by (auto simp: new_reader_def fresh_server_simps polling_engine_link)
qed

theorem connect_accepted_witness:
  "\<exists>t. dispatchPacket silent ''c1'' 0 connect_root [] fresh_server = Done t \<and> session_conn 0 ''/'' t = Some 0 \<and>
     server_Count t = 1 \<and> dispatchPacket silent ''c2'' 0 connect_root [] t = Done t"
proof -
  have h: "find_ns (Namespace connect_root) fresh_server \<noteq> None \<or> Namespace connect_root = ''/''"
    "session_conn 0 (Namespace connect_root) fresh_server = None" "map_of (sessions fresh_server) 0 = Some []"
    "link_ready (sess_tr 0 fresh_server) (tr fresh_server)"
    "fst (send 0 (connect_reply (Namespace connect_root) ''c1'') [] fresh_server) = None"
    using demo_ready fresh_reply by (simp_all add: root_packets session_conn_def fresh_server_simps)
  have "fst (silent h (ConnectCall (length (conn_heap fresh_server))) u) = None" for h u by (simp add: silent_def)
  from connect_accepted [OF quiet_users(1) root_packets(1) h this, of "[]" "''c2''"]
  obtain t where "dispatchPacket silent ''c1'' 0 connect_root [] fresh_server = Done t"
    "\<forall>x y. session_conn x y t = (if x = 0 \<and> y = Namespace connect_root then Some (length (conn_heap fresh_server))
       else session_conn x y fresh_server)" "server_Count t = server_Count fresh_server + 1"
    "dispatchPacket silent ''c2'' 0 connect_root [] t = Done t" by blast
  then show ?thesis by (intro exI [of _ t]) (simp add: root_packets fresh_server_simps server_Count_def)
qed


theorem connect_refused_witness:
  "\<exists>t. dispatchPacket silent ''c1'' 0 (connect_root\<lparr>Namespace := ''/x''\<rparr>) [] fresh_server = Done (fresh_server\<lparr>tr := t\<rparr>)"
proof -
  have "NormalizeNS ''/x'' = ''/x''" by code_simp
  then have "find_ns ''/x'' fresh_server = None" by (simp add: find_ns_def fresh_server_def)
  then show ?thesis
    using connect_refused [of "connect_root\<lparr>Namespace := ''/x''\<rparr>" fresh_server 0 silent "''c1''" "[]"] demo_ready
    by (auto simp: root_packets fresh_server_simps)
qed

theorem teardown_complete_witness:
  "let t = teardownSession silent 0 ''transport closed'' demo_server in
     map_of (sessions t) 0 = None \<and> server_Count t = 0 \<and> c_closed (conn_heap t ! 0)"
proof -
  have "session_conn 0 ''/'' demo_server = Some 0" by (simp add: session_conn_def demo_server_simps)
  then show ?thesis
    using teardown_complete [OF quiet_users(1) demo_server_ok, of 0 "[(''/'', 0)]" _ "''transport closed''"]
    by (auto simp: Let_def demo_server_simps polling_engine_link server_Count_def)
qed

theorem connect_after_teardown_panics_witness:
  "dispatchPacket silent ''c2'' 0 connect_root [] (teardownSession silent 0 ''server closed'' demo_server) =
     Panics ''assignment to entry in nil map''"
  by (rule connect_after_teardown_panics [OF root_packets(1) _ refl quiet_users(1)]) (simp add: root_packets)

theorem double_decrement_witness:
  "server_Count demo_server = 1 \<and>
   server_Count (snd (conn_Close silent 0 (disconnectNamespace silent 0 ''/'' ''client disconnect'' demo_server))) = - 1"
  using double_decrement [OF quiet_users(1), of 0 "''/''" demo_server 0 "''client disconnect''"]
  by (simp add: session_conn_def demo_server_simps demo_conn_def server_Count_def)

theorem ack_fires_once_witness:
  "\<exists>t u. EmitWithAck 0 ''a'' Talk [] demo_server = (None, t) \<and>
     fireAck silent 0 1 asking_event [] t = Return (snd (silent Talk (AckCall (Inr [])) u)) \<and>
     fireAck silent 0 1 asking_event [] u = Return u"
proof -
  have e: "BuildEventPacket ''/'' ''a'' None [] =
      Inr (\<lparr>Type = TypeEvent, Namespace = ''/'', ID = None, Data = ''[\"a\"]'', Attachments = 0\<rparr>, [])"
    "Encode (Some asking_event) = Inr ''21[\"a\"]''" "\<not> IsBinary (Type asking_event)" "EventArgs (Data asking_event) = Inr []"
    by code_simp+
  then have "\<exists>t. EmitWithAck 0 ''a'' Talk [] demo_server = (None, t)"
    by (simp add: EmitWithAck_def demo_server_simps demo_conn_def Let_def send_or_undo_def send_def asking_event_def
        session_WriteText_def polling_engine_link poll_WriteText_def newPollConn_def chan_cap_def)
  then obtain t where t: "EmitWithAck 0 ''a'' Talk [] demo_server = (None, t)" by blast
  have "0 < length (conn_heap demo_server)" "1 = int (unat (ackSeq (conn_heap demo_server ! 0) + 1))"
    by (simp_all add: demo_server_simps demo_conn_def)
  from ack_fires_once [OF t this(1) e(3) this(2), of silent "[]"] obtain u where
    "fireAck silent 0 1 asking_event [] t = Return (snd (silent Talk (AckCall (EventArgs (Data asking_event))) u))"
    "fireAck silent 0 1 asking_event [] u = Return u" using e(3) by auto
  then show ?thesis using t e(4) by auto
qed

theorem ack_drops_first_witness:
  "\<exists>d t. BuildAckData [GInt 4, GNil] = Inr d \<and>
     fireAck silent 0 1 (asking_event\<lparr>Data := d\<rparr>) [] (upd_conn 0 (\<lambda>cn. cn\<lparr>acks := [(1, Talk)]\<rparr>) demo_server) =
       Return (snd (silent Talk (AckCall (Inr [''null''])) t))"
proof -
  let ?s = "upd_conn 0 (\<lambda>cn. cn\<lparr>acks := [(1, Talk)]\<rparr>) demo_server"
  obtain d where d: "BuildAckData [GInt 4, GNil] = Inr d" by (simp add: BuildAckData_def Marshal_def)
  have n: "wf_num (Itoa 4)" "print JNull = ''null''" "\<not> IsBinary (Type asking_event)" by code_simp+
  have w: "\<forall>v\<in>set [GInt 4, GNil]. \<forall>j. to_json v = Some j \<longrightarrow> wf_json j \<and> depth j < maxNestingDepth"
    using n(1) by (simp add: maxNestingDepth_def)
  have a: "map_of (acks (conn_heap ?s ! 0)) (word_of_int 1) = Some Talk" by (simp add: demo_server_simps)
  from ack_drops_first [OF d w a n(3) refl, where user = silent and bufs = "[]"] obtain bs t where
    "fireAck silent 0 1 (asking_event\<lparr>Data := d\<rparr>) [] ?s = Return (snd (silent Talk (AckCall (Inr bs)) t))"
    "map Inr bs = map Marshal [GNil]" by blast
  then show ?thesis using d n(2) by (auto simp: Marshal_def)
qed

text \<open>A server that lets a connection run one handler at a time, and a client that sends two events.\<close>

definition one_slot :: "request options" where
  "one_slot = zero_options\<lparr>MaxEventConcurrency := 1\<rparr>"

abbreviation busy_run :: "chat event list" where
  "busy_run \<equiv> run_connect @ [run_event, run_event]"

lemma busy:
  "\<exists>s. fold (live_step silent) busy_run (machine_New (Some one_slot)) =
     (s, [new_reader\<lparr>connectedAny := True, waiting := Some (EventTask 0 None [] (Some 1))\<rparr>]) \<and>
   tasks s = [EventTask 0 None [] (Some 1)]"
  by (simp add: one_slot_def run_defs connect_defs event_defs)

theorem waiting_reader_resumes_witness:
  "\<exists>s rds s' rds'. fold (live_step silent) busy_run (machine_New (Some one_slot)) = (s, rds) \<and>
     waiting (rds ! 0) = Some (EventTask 0 None [] (Some 1)) \<and>
     (\<exists>j. fold (live_step silent) [ERunTask j, EResume 0 True] (s, rds) = (s', rds')) \<and> waiting (rds' ! 0) = None"
proof -
  obtain s where s: "fold (live_step silent) busy_run (machine_New (Some one_slot)) =
     (s, [new_reader\<lparr>connectedAny := True, waiting := Some (EventTask 0 None [] (Some 1))\<rparr>])" using busy by blast
  show ?thesis
    using waiting_reader_resumes [OF quiet_users(1) s, of 0 "EventTask 0 None [] (Some 1)"] s
    by (fastforce simp: new_reader_def)
qed

end
