(* ===== verification/Transports.thy ===== *)
theory Transports
  imports Sio_Props
begin

section \<open>transport and server: reading a session\<close>

text \<open>
  What \<open>handleSession\<close> reads from a session, whatever carries it: a message sent over a WebSocket, in
  masked fragments with pings and pongs between them, and the same message posted to a polling session
  come out of \<open>sessionConn.ReadMessage\<close> alike; and a peer that sends finitely many bytes lets the loop end.
  In the other direction: what is written to a polling session is handed to its client, one message per GET.
\<close>

subsection \<open>What a client sends\<close>

text \<open>A message of the application: a text that is not empty and valid UTF-8, or bytes.\<close>

definition app_message :: "byte \<times> string \<Rightarrow> bool" where
  "app_message m \<longleftrightarrow> (case m of (op, p) \<Rightarrow> op = OpText \<and> p \<noteq> [] \<and> Valid p \<or> op = OpBinary)"

definition ws_content :: "byte \<times> string \<Rightarrow> string" where
  "ws_content m = (case m of (op, p) \<Rightarrow> if op = OpBinary then p else eioMessage # p)"

text \<open>The bytes \<open>bs\<close> carry \<open>m\<close> in masked frames, cut up and interleaved with control frames in any way.\<close>

definition ws_carries :: "nat \<Rightarrow> byte \<times> string \<Rightarrow> byte list \<Rightarrow> bool" where
  "ws_carries maxp m bs \<longleftrightarrow>
     length (ws_content m) \<le> maxp \<and>
     (\<exists>ps q kfs. text_of (chunks ps @ q) = ws_content m \<and> map snd kfs = message_frames (fst m) ps q \<and>
       list_all (\<lambda>(k, fr). frame_ok maxp fr) kfs \<and> bs = concat (map (\<lambda>(k, fr). client_frame k fr) kfs))"

text \<open>The packets \<open>ps\<close> carry \<open>m\<close>: the last one holds it, the others are pongs, noops or empty.\<close>

definition poll_carries :: "byte \<times> string \<Rightarrow> string list \<Rightarrow> bool" where
  "poll_carries m ps \<longleftrightarrow> (\<exists>hs. ps = hs @ [poll_wire m] \<and> list_all idle_packet hs)"

subsection \<open>Reading several messages\<close>

fun read_session :: "nat \<Rightarrow> nat \<Rightarrow> 'r engine \<Rightarrow> (byte \<times> string) list option" where
  "read_session 0 a s = Some []"
| "read_session (Suc n) a s =
     (case session_read_pass id a s of
        (Some (op, p, None), _, t) \<Rightarrow> map_option (Cons (op, p)) (read_session n a t)
      | _ \<Rightarrow> None)"

lemma answer_maxPayload [simp]: "maxPayload (answer ps c) = maxPayload c"
  by (induction ps c rule: answer.induct) auto

lemma ws_carries_read:
  assumes "ws_carries (maxPayload c) m bs" "app_message m" "incoming c = bs @ rest"
  shows "\<exists>c'. ReadMessage c = ((fst m, snd m, None), c') \<and> incoming c' = rest \<and> maxPayload c' = maxPayload c"
proof -
  obtain ps q kfs where k: "text_of (chunks ps @ q) = ws_content m" "map snd kfs = message_frames (fst m) ps q"
    "list_all (\<lambda>(k, fr). frame_ok (maxPayload c) fr) kfs" "bs = concat (map (\<lambda>(k, fr). client_frame k fr) kfs)"
    "length (ws_content m) \<le> maxPayload c"
    using assms(1) unfolding ws_carries_def by blast
  have "fst m = OpText \<and> ws_content m = eioMessage # snd m \<and> snd m \<noteq> [] \<and> Valid (snd m) \<or> fst m = OpBinary \<and> ws_content m = snd m"
    using assms(2) by (cases m) (auto simp: app_message_def ws_content_def)
  from ReadMessage_reassembles [OF this k(1,5,2,3)] assms(3) k(4) show ?thesis by auto
qed

lemma read_session_ws:
  assumes "list_all app_message ms" "list_all2 (ws_carries (maxPayload (ws_heap s ! b))) ms bss"
    and "current (sess_heap s ! a) = WSLink b" "b < length (ws_heap s)" "incoming (ws_heap s ! b) = concat bss @ rest"
  shows "read_session (length ms) a s = Some ms"
  using assms
proof (induction ms arbitrary: s bss)
  case (Cons m ms)
  let ?c = "ws_heap s ! b"
  obtain bs bss' where bss: "bss = bs # bss'" "ws_carries (maxPayload ?c) m bs" "list_all2 (ws_carries (maxPayload ?c)) ms bss'"
    using Cons.prems(2) by (cases bss) auto
  obtain c' where c': "ReadMessage ?c = ((fst m, snd m, None), c')" "incoming c' = concat bss' @ rest" "maxPayload c' = maxPayload ?c"
    using ws_carries_read [OF bss(2), of "concat bss' @ rest"] Cons.prems(1,5) bss(1) by auto
  let ?t = "s\<lparr>ws_heap := (ws_heap s)[b := c']\<rparr>"
  have "session_read_pass id a s = (Some (fst m, snd m, None), False, ?t)"
    using Cons.prems(3) c'(1) by (simp add: session_read_pass_def link_ReadMessage_def Let_def)
  moreover have "read_session (length ms) a ?t = Some ms"
    using Cons.prems c' bss by (intro Cons.IH [of ?t bss']) auto
  ultimately show ?case by (cases m) simp
qed simp

lemma read_session_poll:
  assumes "list_all app_message ms" "list_all2 poll_carries ms pss"
    and "current (sess_heap s ! a) = PollLink b" "b < length (poll_heap s)" "\<not> poll_closed (poll_heap s ! b)"
    and "recvCh (poll_heap s ! b) = concat pss @ rest"
  shows "read_session (length ms) a s = Some ms"
  using assms
proof (induction ms arbitrary: s pss)
  case (Cons m ms)
  let ?c = "poll_heap s ! b"
  obtain ps pss' where pss: "pss = ps # pss'" "poll_carries m ps" "list_all2 poll_carries ms pss'"
    using Cons.prems(2) by (cases pss) auto
  obtain hs where hs: "ps = hs @ [poll_wire (fst m, snd m)]" "list_all idle_packet hs" using pss(2) by (auto simp: poll_carries_def)
  have op: "fst m = OpText \<or> fst m = OpBinary" using Cons.prems(1) by (cases m) (auto simp: app_message_def)
  obtain c' where c': "poll_ReadMessage ?c = (Some (fst m, snd m, None), c')" "recvCh c' = concat pss' @ rest" "\<not> poll_closed c'"
    using poll_ReadMessage_message [OF Cons.prems(5) hs(2) op, of "snd m" "concat pss' @ rest"] Cons.prems(6) pss(1) hs(1) by auto
  let ?t = "s\<lparr>poll_heap := (poll_heap s)[b := c']\<rparr>"
  have "session_read_pass id a s = (Some (fst m, snd m, None), False, ?t)"
    using Cons.prems(3) c'(1) by (simp add: session_read_pass_def link_ReadMessage_def Let_def)
  moreover have "read_session (length ms) a ?t = Some ms"
    using Cons.prems c' pss by (intro Cons.IH [of pss' ?t]) auto
  ultimately show ?case by (cases m) simp
qed simp

subsection \<open>Reading to the end\<close>

text \<open>Everything \<open>ReadMessage\<close> returns on a WebSocket whose peer sends the bytes at hand and no more.\<close>

function drain :: "wsconn \<Rightarrow> received list" where
  "drain c =
     (case ReadMessage c of
        ((op, p, None), c') \<Rightarrow> (op, p, None) # drain c'
      | (res, _) \<Rightarrow> [res])"
  by pat_completeness auto
termination
  by (relation "measure (\<lambda>c. length (incoming c))") (auto dest: ReadMessage_consumes sym)

declare drain.simps [simp del]

lemma drain_bounded:
  "drain c \<noteq> [] \<and> snd (snd (last (drain c))) \<noteq> None \<and> length (drain c) \<le> Suc (length (incoming c))"
proof (induction c rule: drain.induct)
  case (1 c)
  obtain op p err c' where r: "ReadMessage c = ((op, p, err), c')" by (metis prod_cases3 surj_pair)
  show ?case
  proof (cases err)
    case None
    then have "drain c = (op, p, None) # drain c'" using r by (simp add: drain.simps [of c])
    moreover have "length (incoming c') < length (incoming c)" using r None ReadMessage_consumes by blast
    moreover have "drain c' \<noteq> [] \<and> snd (snd (last (drain c'))) \<noteq> None \<and> length (drain c') \<le> Suc (length (incoming c'))"
      using "1.IH" [OF r [symmetric] refl refl None] .
    ultimately show ?thesis by simp
  next
    case (Some e)
    then show ?thesis using r by (simp add: drain.simps [of c])
  qed
qed

lemma handle_message_returns: "handle_message user d se m rd s \<noteq> Fail e"
  by (auto simp: handle_message_def deliver_def Let_def split: prod.splits option.splits sum.splits dispatched.splits)

lemma handle_message_error:
  "snd (snd m) \<noteq> None \<Longrightarrow> handle_message user d se m rd s = Return (leave_reader user se rd s)"
  by (cases m) (simp add: handle_message_def)

text \<open>A reader leaves the loop only through the deferred teardown.\<close>

lemma handle_message_leaves:
  assumes "handle_message user d se m rd s = Return (rd', t)" "\<not> exited rd" "exited rd'"
  shows "\<exists>u. t = teardownSession user se ''transport closed'' u"
proof -
  have r: "exited (fst (resume pick se rd s)) = exited rd" for pick and rd :: "'a reader" and s
    by (simp add: resume_def Let_def split: option.split)
  have "deliver user d se p b rd1 s = Return (rd', t) \<Longrightarrow> exited rd1" for p b rd1
    using assms(3) r [of "snd d" "rd1\<lparr>waiting := w\<rparr>" s for w]
    by (auto simp: deliver_def split: dispatched.splits) (metis fst_conv reader.select_convs(4) reader.update_convs(3))
  then show ?thesis using assms
    by (fastforce simp: handle_message_def leave_reader_def Let_def split: prod.splits option.splits sum.splits if_splits)
qed

text \<open>The loop of \<open>handleSession\<close> over results that end in an error.\<close>

lemma handle_messages_ends:
  assumes "handlers_keep user" "server_at (length (conn_heap s)) s" "length ds = length ms" "ms \<noteq> []" "snd (snd (last ms)) \<noteq> None"
    and "exited rd \<longrightarrow> (\<exists>u. s = teardownSession user se ''transport closed'' u)"
  shows "case handle_messages user se (zip ds ms) rd s of
      Return (rest, rd', t) \<Rightarrow> (exited rd' \<or> waiting rd' \<noteq> None) \<and> server_ok t \<and>
        (exited rd' \<longrightarrow> (\<exists>u. t = teardownSession user se ''transport closed'' u))
    | Fail e \<Rightarrow> False
    | GoPanic m \<Rightarrow> m \<noteq> ''nil pointer dereference''"
  using assms(3,1,2,4-6)
proof (induction ds ms arbitrary: rd s rule: list_induct2)
  case (Cons d ds m ms)
  show ?case
  proof (cases "exited rd \<or> waiting rd \<noteq> None")
    case True
    then show ?thesis using Cons.prems by (simp add: server_at_def)
  next
    case False
    then have go: "\<not> exited rd" "waiting rd = None" by simp_all
    have ok: "reader_ok (length (conn_heap s)) (handle_message user d se m rd s)"
      by (rule handle_message_ok [OF Cons.prems(1,2) go(2)])
    show ?thesis
    proof (cases "handle_message user d se m rd s")
      case (Return r)
      obtain rd1 s1 where r: "r = (rd1, s1)" by (cases r)
      have at: "server_at (length (conn_heap s1)) s1" using ok Return r by (simp add: server_at_def)
      have left: "exited rd1 \<longrightarrow> (\<exists>u. s1 = teardownSession user se ''transport closed'' u)"
        using handle_message_leaves [of user d se m rd s rd1 s1] Return r go(1) by blast
      have step: "handle_messages user se (zip (d # ds) (m # ms)) rd s = handle_messages user se (zip ds ms) rd1 s1"
        using go Return r by simp
      show ?thesis
      proof (cases "ms = []")
        case True
        then have "exited rd1" using Cons.prems(4) handle_message_error [of m user d se rd s] Return r by (simp add: leave_reader_def)
        then show ?thesis using step left at True Cons.hyps by (simp add: server_at_def)
      next
        case False
        then show ?thesis unfolding step using Cons.IH [OF Cons.prems(1) at _ _ left] Cons.prems(4) by simp
      qed
    next
      case (Fail e)
      then show ?thesis using handle_message_returns by blast
    next
      case (GoPanic msg)
      then show ?thesis using go ok by (simp add: reader_ok_def)
    qed
  qed
qed simp

subsection \<open>Writing to a polling client\<close>

text \<open>Messages written to a session one after the other, and the body in which each is polled.\<close>

fun write_all :: "nat \<Rightarrow> (byte \<times> string) list \<Rightarrow> 'r engine \<Rightarrow> 'r engine" where
  "write_all c [] s = s"
| "write_all c ((op, p) # ms) s =
     write_all c ms (snd (if op = OpBinary then session_WriteBinary c p s else session_WriteText c p s))"

definition poll_body :: "byte \<times> string \<Rightarrow> string" where
  "poll_body m = (case m of (op, p) \<Rightarrow> if op = OpBinary then CHR ''b'' # b64_encode p else p)"

text \<open>A client that polls \<open>n\<close> times, each GET being answered with a packet before the next is made.\<close>

fun poll_gets :: "nat \<Rightarrow> request \<Rightarrow> request engine \<Rightarrow> (string list \<times> request engine) option" where
  "poll_gets 0 r s = Some ([], s)"
| "poll_gets (Suc n) r s =
     (case servePoll [] [] r empty_response s of
        (AwaitsPacket a, w, t) \<Rightarrow>
          (case get_finish TakePacket a w t of
             None \<Rightarrow> None
           | Some (w, t) \<Rightarrow> map_option (\<lambda>(bs, u). (resp_body w # bs, u)) (poll_gets n r t))
      | _ \<Rightarrow> None)"

lemma write_all_queues:
  assumes "current (sess_heap s ! c) = PollLink a" "a < length (poll_heap s)" "\<not> poll_closed (poll_heap s ! a)"
    and "length (sendCh (poll_heap s ! a)) + length ms \<le> chan_cap"
  shows "write_all c ms s = update_poll a ((poll_heap s ! a)\<lparr>sendCh := sendCh (poll_heap s ! a) @ map poll_body ms\<rparr>) s"
  using assms
proof (induction ms arbitrary: s)
  case (Cons m ms)
  obtain op p where m: "m = (op, p)" by (cases m)
  let ?q = "poll_heap s ! a"
  let ?t = "update_poll a (?q\<lparr>sendCh := sendCh ?q @ [poll_body m]\<rparr>) s"
  have "write_all c (m # ms) s = write_all c ms ?t"
    using Cons.prems
    by (auto simp: m poll_body_def session_WriteText_def session_WriteBinary_def poll_WriteBinary_def poll_WriteText_def Let_def)
  then show ?case using Cons.IH [of ?t] Cons.prems by simp
qed simp

lemma poll_get_begins:
  assumes "Method r \<noteq> ''POST''" "Query r ''sid'' \<noteq> []" "map_of (pollSess s) (Query r ''sid'') = Some a" "\<not> getInFlight (poll_heap s ! a)"
  shows "\<exists>w. servePoll [] [] r empty_response s = (AwaitsPacket a, w, update_poll a ((poll_heap s ! a)\<lparr>getInFlight := True\<rparr>) s) \<and>
    resp_body w = []"
  using assms by (simp add: servePoll_def get_begin_def Let_def set_header_def empty_response_def)

lemma sendCh_same: "sendCh q = ps \<Longrightarrow> q\<lparr>sendCh := ps\<rparr> = (q :: pollconn)"
  by (cases q) simp

lemma poll_gets_queue:
  assumes "Method r \<noteq> ''POST''" "Query r ''sid'' \<noteq> []" "map_of (pollSess s) (Query r ''sid'') = Some a" "a < length (poll_heap s)"
    and "\<not> getInFlight (poll_heap s ! a)" "sendCh (poll_heap s ! a) = ps @ qs"
  shows "poll_gets (length ps) r s = Some (ps, update_poll a ((poll_heap s ! a)\<lparr>sendCh := qs\<rparr>) s)"
  using assms
proof (induction ps arbitrary: s)
  case Nil
  then show ?case by (simp add: sendCh_same)
next
  case (Cons p ps)
  let ?q = "poll_heap s ! a"
  let ?t = "update_poll a (?q\<lparr>sendCh := ps @ qs\<rparr>) s"
  obtain w where w: "servePoll [] [] r empty_response s = (AwaitsPacket a, w, update_poll a (?q\<lparr>getInFlight := True\<rparr>) s)"
    "resp_body w = []" using poll_get_begins [OF Cons.prems(1-3,5)] by blast
  have "get_finish TakePacket a w (update_poll a (?q\<lparr>getInFlight := True\<rparr>) s) = Some (write_body p w, ?t)"
    using Cons.prems(4-6) by (cases ?q) (simp add: get_finish_def Let_def)
  then show ?case using Cons.IH [of ?t] Cons.prems w by (simp add: write_body_def)
qed

subsection \<open>Properties\<close>

text \<open>C8. The two transports are equivalent for what the application sends: let the same messages go to one
  session over a WebSocket, in masked fragments with control frames between them, and to another by
  posting, with pongs, noops and empty packets between them. Then both sessions read exactly
  these messages, in order.\<close>

theorem transports_equivalent:
  assumes "list_all app_message ms"
    and "current (sess_heap s ! a) = WSLink b" "b < length (ws_heap s)"
    and "list_all2 (ws_carries (maxPayload (ws_heap s ! b))) ms bss" "incoming (ws_heap s ! b) = concat bss @ rest"
    and "current (sess_heap t ! c) = PollLink d" "d < length (poll_heap t)" "\<not> poll_closed (poll_heap t ! d)"
    and "list_all2 poll_carries ms pss" "recvCh (poll_heap t ! d) = concat pss @ queued"
  shows "read_session (length ms) a s = read_session (length ms) c t \<and> read_session (length ms) a s = Some ms"
  using read_session_ws [OF assms(1,4,2,3,5)] read_session_poll [OF assms(1,9,6-8,10)] by simp

text \<open>C25. A polling client gets everything that is written, in order and one message per GET, texts as they are and
  binary in base64; then its next GET waits, and is answered with whatever text is written next.\<close>

theorem polled_in_order:
  assumes "current (sess_heap s ! c) = PollLink a" "a < length (poll_heap s)" "map_of (pollSess s) (Query r ''sid'') = Some a"
    and "\<not> poll_closed (poll_heap s ! a)" "\<not> getInFlight (poll_heap s ! a)" "sendCh (poll_heap s ! a) = []"
    and "length ms \<le> chan_cap" "Method r \<noteq> ''POST''" "Query r ''sid'' \<noteq> []"
  shows "\<exists>t w u. poll_gets (length ms) r (write_all c ms s) = Some (map poll_body ms, t) \<and> sendCh (poll_heap t ! a) = [] \<and>
    servePoll [] [] r empty_response t = (AwaitsPacket a, w, u) \<and>
    get_finish TakePacket a w u = None \<and> get_finish SessionClosed a w u = None \<and>
    (\<forall>p. \<exists>u' w' v. session_WriteText c p u = (None, u') \<and> get_finish TakePacket a w u' = Some (w', v) \<and>
       resp_body w' = p \<and> sendCh (poll_heap v ! a) = [] \<and> \<not> getInFlight (poll_heap v ! a))"
proof -
  let ?q = "poll_heap s ! a" and ?s = "write_all c ms s"
  let ?u = "update_poll a (?q\<lparr>getInFlight := True\<rparr>) s"
  have s: "?s = update_poll a (?q\<lparr>sendCh := map poll_body ms\<rparr>) s"
    using write_all_queues [OF assms(1,2,4), of ms] assms(6,7) by simp
  have "poll_gets (length (map poll_body ms)) r ?s = Some (map poll_body ms, update_poll a ((poll_heap ?s ! a)\<lparr>sendCh := []\<rparr>) ?s)"
    by (rule poll_gets_queue) (use assms in \<open>simp_all add: s\<close>)
  moreover have "update_poll a ((poll_heap ?s ! a)\<lparr>sendCh := []\<rparr>) ?s = s"
    using assms(2,6) by (simp add: s sendCh_same)
  ultimately have got: "poll_gets (length ms) r ?s = Some (map poll_body ms, s)" by simp
  obtain w where w: "servePoll [] [] r empty_response s = (AwaitsPacket a, w, ?u)" "resp_body w = []"
    using poll_get_begins [OF assms(8,9,3,5)] by blast
  have idle: "get_finish TakePacket a w ?u = None" "get_finish SessionClosed a w ?u = None"
    using assms(2,4,6) by (simp_all add: get_finish_def Let_def)
  have "\<exists>u' w' v. session_WriteText c p ?u = (None, u') \<and> get_finish TakePacket a w u' = Some (w', v) \<and>
      resp_body w' = p \<and> sendCh (poll_heap v ! a) = [] \<and> \<not> getInFlight (poll_heap v ! a)" for p
  proof -
    let ?v = "update_poll a (?q\<lparr>getInFlight := True, sendCh := [p]\<rparr>) s"
    have "session_WriteText c p ?u = (None, ?v)"
      using assms(1,2,4,6) by (simp add: session_WriteText_def poll_WriteText_def Let_def chan_cap_def)
    moreover have "get_finish TakePacket a w ?v =
        Some (write_body p w, update_poll a (?q\<lparr>sendCh := [], getInFlight := False\<rparr>) ?v)"
      using assms(2) by (simp add: get_finish_def Let_def)
    ultimately show ?thesis using assms(2) w(2)
      by (intro exI [of _ ?v] exI [of _ "write_body p w"] exI [of _ "update_poll a (?q\<lparr>sendCh := [], getInFlight := False\<rparr>) ?v"])
        (simp add: write_body_def)
  qed
  then show ?thesis using got w(1) idle assms(6) by blast
qed


subsection \<open>Witnesses\<close>

definition fragment_engine :: "request engine" where
  "fragment_engine = polling_engine\<lparr>
     sess_heap := [\<lparr>current = WSLink 0, sc_closed = False, sc_ip = ''10.0.0.1'', sc_sid = ''s1''\<rparr>], ws_heap := [sample_conn]\<rparr>"

definition posted_engine :: "request engine" where
  "posted_engine = polling_engine\<lparr>poll_heap := [(newPollConn [])\<lparr>recvCh := [[eioPong], ''4hi'']\<rparr>]\<rparr>"

theorem transports_equivalent_witness:
  "read_session 1 0 fragment_engine = read_session 1 0 posted_engine \<and> read_session 1 0 posted_engine = Some [(OpText, ''hi'')]"
proof -
  have "ws_carries (maxPayload sample_conn) (OpText, ''hi'') (incoming sample_conn)"
    unfolding ws_carries_def
    by (intro conjI exI [of _ "[Chunk [0x34, 0x68], Ping [0x07]]"] exI [of _ "[0x69]"]
        exI [of _ "map (\<lambda>f. (sample_key, f)) fragments"])
      (simp_all add: text_of_def char_codes sample_conn_def newWSConn_def frame_ok_def opcode_ok_def word_le_nat_alt
        fragments_def ws_content_def)
  moreover have "poll_carries (OpText, ''hi'') [[eioPong], ''4hi'']"
    unfolding poll_carries_def by (intro exI [of _ "[[eioPong]]"]) (simp add: poll_wire_def idle_packet_def)
  moreover have "current (sess_heap fragment_engine ! 0) = WSLink 0" "0 < length (ws_heap fragment_engine)"
    "ws_heap fragment_engine ! 0 = sample_conn" "current (sess_heap posted_engine ! 0) = PollLink 0"
    "0 < length (poll_heap posted_engine)" "\<not> poll_closed (poll_heap posted_engine ! 0)"
    "recvCh (poll_heap posted_engine ! 0) = [[eioPong], ''4hi'']"
    by (simp_all add: fragment_engine_def posted_engine_def polling_engine_link newPollConn_def)
  moreover have "app_message (OpText, ''hi'')" by (simp add: app_message_def Valid_hi)
  ultimately have "read_session (length [(OpText, ''hi'')]) 0 fragment_engine = read_session (length [(OpText, ''hi'')]) 0 posted_engine \<and>
      read_session (length [(OpText, ''hi'')]) 0 fragment_engine = Some [(OpText, ''hi'')]"
    by (intro transports_equivalent [where b = 0 and d = 0 and bss = "[incoming sample_conn]" and rest = "[]" and
          pss = "[[[eioPong], ''4hi'']]" and queued = "[]"]) simp_all
  then show ?thesis by (metis One_nat_def length_Cons list.size(3))
qed

theorem polled_in_order_witness:
  "\<exists>t. poll_gets 2 (poll_request ''GET'') (write_all 0 [(OpText, ''4hi''), (OpBinary, [CHR 0x00])] (posted_engine\<lparr>poll_heap := [newPollConn []]\<rparr>)) =
     Some ([''4hi'', CHR ''b'' # b64_encode [CHR 0x00]], t)"
proof -
  let ?s = "posted_engine\<lparr>poll_heap := [newPollConn []]\<rparr>" and ?ms = "[(OpText, ''4hi''), (OpBinary, [CHR 0x00])]"
  have "current (sess_heap ?s ! 0) = PollLink 0" "map_of (pollSess ?s) (Query (poll_request ''GET'') ''sid'') = Some 0"
    using polling_engine_simps(1) by (simp_all add: posted_engine_def polling_engine_link poll_request_def)
  then obtain t where "poll_gets (length ?ms) (poll_request ''GET'') (write_all 0 ?ms ?s) = Some (map poll_body ?ms, t)"
    using polled_in_order [of ?s 0 0 "poll_request ''GET''" ?ms]
    by (auto simp: posted_engine_def newPollConn_def chan_cap_def poll_request_def)
  moreover have "map poll_body ?ms = [''4hi'', CHR ''b'' # b64_encode [CHR 0x00]]" by (simp add: poll_body_def)
  ultimately show ?thesis by (metis length_Cons list.size(3) numeral_2_eq_2)
qed


end
