(* ===== verification/Facade.thy ===== *)
theory Facade
  imports Sio_Machine
begin

section \<open>gsocketio: the package an application imports\<close>

text \<open>
  The model of \<open>gsocketio.go\<close>: a \<open>Server\<close> around the one of the package \<open>server\<close>, each of whose methods
  calls the method of the same name. An application's calls on it are those of the machine
  on the server inside.
\<close>

definition server_ServeHTTP ::
    "(string \<Rightarrow> string) \<Rightarrow> hijack \<Rightarrow> string \<Rightarrow> bool list \<Rightarrow> request \<Rightarrow> 'h server \<Rightarrow> http_state \<times> response \<times> 'h server" where
  "server_ServeHTTP sha1 hj sid cs r s =
     (let (st, w, t) = ServeHTTP sha1 hj sid cs r (tr s) in (st, w, s\<lparr>tr := t\<rparr>))"

record 'h facade =
  inner :: "'h server"

definition facade_New :: "request options option \<Rightarrow> 'h facade" where
  "facade_New op = \<lparr>inner = server_New op\<rparr>"

definition on_inner :: "('h server \<Rightarrow> 'h server) \<Rightarrow> 'h facade \<Rightarrow> 'h facade" where
  "on_inner f s = s\<lparr>inner := f (inner s)\<rparr>"

definition facade_ServeHTTP ::
    "(string \<Rightarrow> string) \<Rightarrow> hijack \<Rightarrow> string \<Rightarrow> bool list \<Rightarrow> request \<Rightarrow> 'h facade \<Rightarrow> http_state \<times> response \<times> 'h facade" where
  "facade_ServeHTTP sha1 hj sid cs r s =
     (let (st, w, t) = server_ServeHTTP sha1 hj sid cs r (inner s) in (st, w, s\<lparr>inner := t\<rparr>))"

definition facade_Serve :: "bool \<Rightarrow> 'h facade \<Rightarrow> (error + nat) option \<times> 'h facade" where
  "facade_Serve pick s = (let (x, t) = serve_pass pick (inner s) in (x, s\<lparr>inner := t\<rparr>))"

definition facade_Close :: "'h handlers \<Rightarrow> 'h facade \<Rightarrow> 'h facade" where
  "facade_Close user = on_inner (server_Close user)"

definition facade_Count :: "'h facade \<Rightarrow> int" where
  "facade_Count s = server_Count (inner s)"

definition facade_OnConnect :: "string \<Rightarrow> 'h \<Rightarrow> 'h facade \<Rightarrow> 'h facade" where
  "facade_OnConnect ns h = on_inner (OnConnect ns h)"

definition facade_OnDisconnect :: "string \<Rightarrow> 'h \<Rightarrow> 'h facade \<Rightarrow> 'h facade" where
  "facade_OnDisconnect ns h = on_inner (OnDisconnect ns h)"

definition facade_OnError :: "string \<Rightarrow> 'h \<Rightarrow> 'h facade \<Rightarrow> 'h facade" where
  "facade_OnError ns h = on_inner (OnError ns h)"

definition facade_OnEvent :: "string \<Rightarrow> string \<Rightarrow> 'h \<Rightarrow> 'h facade \<Rightarrow> 'h facade" where
  "facade_OnEvent ns event h = on_inner (OnEvent ns event h)"

definition facade_OnBinaryEvent :: "string \<Rightarrow> string \<Rightarrow> 'h \<Rightarrow> 'h facade \<Rightarrow> 'h facade" where
  "facade_OnBinaryEvent ns event h = on_inner (OnBinaryEvent ns event h)"

definition facade_JoinRoom :: "string \<Rightarrow> string \<Rightarrow> nat option \<Rightarrow> 'h facade \<Rightarrow> 'h facade" where
  "facade_JoinRoom ns room c = on_inner (JoinRoom ns room c)"

definition facade_LeaveRoom :: "string \<Rightarrow> string \<Rightarrow> nat option \<Rightarrow> 'h facade \<Rightarrow> 'h facade" where
  "facade_LeaveRoom ns room c = on_inner (LeaveRoom ns room c)"

definition facade_LeaveAllRooms :: "string \<Rightarrow> nat option \<Rightarrow> 'h facade \<Rightarrow> 'h facade" where
  "facade_LeaveAllRooms ns c = on_inner (LeaveAllRooms ns c)"

definition facade_ClearRoom :: "string \<Rightarrow> string \<Rightarrow> 'h facade \<Rightarrow> 'h facade" where
  "facade_ClearRoom ns room = on_inner (ClearRoom ns room)"

definition facade_RoomLen :: "string \<Rightarrow> string \<Rightarrow> 'h facade \<Rightarrow> nat" where
  "facade_RoomLen ns room s = RoomLen ns room (inner s)"

definition facade_Rooms :: "string \<Rightarrow> 'h facade \<Rightarrow> string list" where
  "facade_Rooms ns s = server_Rooms ns (inner s)"

definition facade_RoomMembers :: "string \<Rightarrow> string \<Rightarrow> 'h facade \<Rightarrow> nat list" where
  "facade_RoomMembers ns room s = RoomMembers ns room (inner s)"

definition facade_ForEachInRoom :: "string \<Rightarrow> string \<Rightarrow> (nat \<Rightarrow> 'h server \<Rightarrow> 'h server) \<Rightarrow> 'h facade \<Rightarrow> 'h facade" where
  "facade_ForEachInRoom ns room f = on_inner (ForEachInRoom ns room f)"

definition facade_ToRoom :: "string \<Rightarrow> string \<Rightarrow> string \<Rightarrow> nat option \<Rightarrow> gval list \<Rightarrow> 'h facade \<Rightarrow> 'h facade" where
  "facade_ToRoom ns room event skip args = on_inner (ToRoom ns room event skip args)"

definition facade_ToNamespace :: "string \<Rightarrow> string \<Rightarrow> gval list \<Rightarrow> 'h facade \<Rightarrow> 'h facade" where
  "facade_ToNamespace ns event args = on_inner (ToNamespace ns event args)"

text \<open>An application's call through the package: the methods of the facade, and those of \<open>Conn\<close>, which it passes on.\<close>

fun facade_step :: "'h handlers \<Rightarrow> 'h api \<Rightarrow> 'h facade \<Rightarrow> 'h facade" where
  "facade_step user (ApiOnConnect ns h) = facade_OnConnect ns h"
| "facade_step user (ApiOnDisconnect ns h) = facade_OnDisconnect ns h"
| "facade_step user (ApiOnError ns h) = facade_OnError ns h"
| "facade_step user (ApiOnEvent ns e h) = facade_OnEvent ns e h"
| "facade_step user (ApiOnBinaryEvent ns e h) = facade_OnBinaryEvent ns e h"
| "facade_step user (ApiJoinRoom ns room c) = facade_JoinRoom ns room c"
| "facade_step user (ApiLeaveRoom ns room c) = facade_LeaveRoom ns room c"
| "facade_step user (ApiLeaveAllRooms ns c) = facade_LeaveAllRooms ns c"
| "facade_step user (ApiClearRoom ns room) = facade_ClearRoom ns room"
| "facade_step user (ApiToRoom ns room e skip args) = facade_ToRoom ns room e skip args"
| "facade_step user (ApiToNamespace ns e args) = facade_ToNamespace ns e args"
| "facade_step user ApiClose = facade_Close user"
| "facade_step user a = on_inner (api_step user a)"

lemmas facade_defs =
  on_inner_def facade_OnConnect_def facade_OnDisconnect_def facade_OnError_def facade_OnEvent_def facade_OnBinaryEvent_def
  facade_JoinRoom_def facade_LeaveRoom_def facade_LeaveAllRooms_def facade_ClearRoom_def facade_ToRoom_def
  facade_ToNamespace_def facade_Close_def

lemma facade_step_inner: "inner (facade_step user a s) = api_step user a (inner s)"
  by (cases a) (simp_all add: facade_defs)

text \<open>Any sequence of calls through the package does to the server inside what the calls of the machine do.\<close>

lemma facade_refines: "inner (fold (facade_step user) calls (facade_New op)) = fold (api_step user) calls (server_New op)"
proof -
  have "inner (fold (facade_step user) calls s) = fold (api_step user) calls (inner s)" for s
    by (induction calls arbitrary: s) (simp_all add: facade_step_inner)
  then show ?thesis by (simp add: facade_New_def)
qed

end
