(* ===== verification/Sio_Broadcast.thy ===== *)
theory Sio_Broadcast
  imports Sio_Props
begin

section \<open>server: a broadcast reaches every member of the room\<close>

text \<open>
  \<open>ToRoom\<close> followed to the links of the members' sessions. A write to one session touches the object
  behind its link only, so the copies sent to different sessions do not disturb each other: every
  recipient whose link has room is sent the event exactly once, everyone else nothing.
\<close>

subsection \<open>The object behind a link\<close>

definition link_object :: "link \<Rightarrow> 'r engine \<Rightarrow> pollconn + wsconn" where
  "link_object l s = (case l of PollLink b \<Rightarrow> Inl (poll_heap s ! b) | WSLink b \<Rightarrow> Inr (ws_heap s ! b))"

abbreviation session_link :: "nat \<Rightarrow> 'r engine \<Rightarrow> link" where
  "session_link a s \<equiv> current (sess_heap s ! a)"

fun obj_sent :: "pollconn + wsconn \<Rightarrow> (string + byte) list" where
  "obj_sent (Inl c) = map Inl (sendCh c)"
| "obj_sent (Inr c) = map Inr (outgoing c)"

fun obj_enc :: "pollconn + wsconn \<Rightarrow> byte \<times> string \<Rightarrow> (string + byte) list" where
  "obj_enc (Inl c) (op, p) = [Inl (if op = OpBinary then CHR ''b'' # b64_encode p else p)]"
| "obj_enc (Inr c) (op, p) = (case writeFrame op (bytes_of p) of Inl _ \<Rightarrow> [] | Inr bs \<Rightarrow> map Inr bs)"

text \<open>The link can take the messages: it is open, the queue has room for them, and each is within the limit.\<close>

fun obj_takes :: "pollconn + wsconn \<Rightarrow> (byte \<times> string) list \<Rightarrow> bool" where
  "obj_takes (Inl c) ms \<longleftrightarrow> \<not> poll_closed c \<and> length (sendCh c) + length ms \<le> chan_cap"
| "obj_takes (Inr c) ms \<longleftrightarrow> \<not> raw_closed c \<and> (\<forall>(op, p)\<in>set ms. length p \<le> maxPayload c \<or> maxPayload c = 0)"

lemma link_sent_object: "link_sent a s = obj_sent (link_object (session_link a s) s)"
  by (simp add: link_sent_def link_object_def split: link.split)

lemma link_enc_object: "link_enc a s m = obj_enc (link_object (session_link a s) s) m"
  by (cases m) (simp add: link_enc_def link_object_def split: link.split)

lemma writeFrame_data: "\<exists>bs. writeFrame OpText p = Inr bs" "\<exists>bs. writeFrame OpBinary p = Inr bs"
  by (simp_all add: writeFrame_def Let_def word_le_nat_alt)

subsection \<open>Writing to one session\<close>

text \<open>What a step has put on a link: the encodings of the messages, on that link and on no other.\<close>

definition put_on :: "link \<Rightarrow> (byte \<times> string) list \<Rightarrow> (byte \<times> string) list \<Rightarrow> 'r engine \<Rightarrow> 'r engine \<Rightarrow> bool" where
  "put_on l ms rest s t \<longleftrightarrow>
     sess_heap t = sess_heap s \<and> length (poll_heap t) = length (poll_heap s) \<and> length (ws_heap t) = length (ws_heap s) \<and>
     (\<forall>k. k \<noteq> l \<longrightarrow> link_object k t = link_object k s) \<and>
     obj_sent (link_object l t) = obj_sent (link_object l s) @ concat (map (obj_enc (link_object l s)) ms) \<and>
     obj_enc (link_object l t) = obj_enc (link_object l s) \<and> obj_takes (link_object l t) rest"

lemma put_on_trans:
  "put_on l ms (ms' @ rest) s t \<Longrightarrow> put_on l ms' rest t u \<Longrightarrow> put_on l (ms @ ms') rest s u"
  by (auto simp: put_on_def)

lemma put_text:
  assumes "link_ready a s" "obj_takes (link_object (session_link a s) s) ((OpText, p) # rest)"
  shows "\<exists>t. session_WriteText a p s = (None, t) \<and> put_on (session_link a s) [(OpText, p)] rest s t"
proof (cases "session_link a s")
  case (PollLink b)
  then have "\<not> poll_closed (poll_heap s ! b)" "length (sendCh (poll_heap s ! b)) < chan_cap" "b < length (poll_heap s)"
    using assms by (simp_all add: link_object_def link_ready_def)
  then show ?thesis using PollLink assms(2)
    by (auto simp: session_WriteText_def poll_WriteText_def put_on_def link_object_def Let_def nth_update fun_eq_iff
        split: link.splits)
next
  case (WSLink b)
  obtain bs where bs: "writeFrame OpText (bytes_of p) = Inr bs" using writeFrame_data by blast
  have "\<not> raw_closed (ws_heap s ! b)" "length p \<le> maxPayload (ws_heap s ! b) \<or> maxPayload (ws_heap s ! b) = 0"
    "b < length (ws_heap s)"
    using assms WSLink by (simp_all add: link_object_def link_ready_def)
  then show ?thesis using WSLink assms(2) bs
    by (auto simp: session_WriteText_def WriteText_def write_message_def flush_def put_on_def link_object_def Let_def
        nth_update fun_eq_iff split: link.splits)
qed

lemma put_binary:
  assumes "link_ready a s" "obj_takes (link_object (session_link a s) s) ((OpBinary, p) # rest)"
  shows "\<exists>t. session_WriteBinary a p s = (None, t) \<and> put_on (session_link a s) [(OpBinary, p)] rest s t"
proof (cases "session_link a s")
  case (PollLink b)
  then have "\<not> poll_closed (poll_heap s ! b)" "length (sendCh (poll_heap s ! b)) < chan_cap" "b < length (poll_heap s)"
    using assms by (simp_all add: link_object_def link_ready_def)
  then show ?thesis using PollLink assms(2)
    by (auto simp: session_WriteBinary_def poll_WriteBinary_def poll_WriteText_def put_on_def link_object_def Let_def
        nth_update fun_eq_iff split: link.splits)
next
  case (WSLink b)
  obtain bs where bs: "writeFrame OpBinary (bytes_of p) = Inr bs" using writeFrame_data by blast
  have "\<not> raw_closed (ws_heap s ! b)" "length p \<le> maxPayload (ws_heap s ! b) \<or> maxPayload (ws_heap s ! b) = 0"
    "b < length (ws_heap s)"
    using assms WSLink by (simp_all add: link_object_def link_ready_def)
  then show ?thesis using WSLink assms(2) bs
    by (auto simp: session_WriteBinary_def WriteBinary_def write_message_def flush_def put_on_def link_object_def Let_def
        nth_update fun_eq_iff split: link.splits)
qed

lemma put_on_ready: "put_on l ms rest s t \<Longrightarrow> link_ready a s \<Longrightarrow> link_ready a t \<and> session_link a t = session_link a s"
  by (auto simp: put_on_def link_ready_def split: link.splits)

lemma put_buffers:
  assumes "link_ready a s" "obj_takes (link_object (session_link a s) s) (map (Pair OpBinary) bs)"
  shows "\<exists>t. write_buffers (session_WriteBinary a) bs s = (None, t) \<and>
    put_on (session_link a s) (map (Pair OpBinary) bs) [] s t"
  using assms
proof (induction bs arbitrary: s)
  case Nil
  then show ?case by (simp add: put_on_def)
next
  case (Cons b bs)
  obtain u where u: "session_WriteBinary a b s = (None, u)"
    "put_on (session_link a s) [(OpBinary, b)] (map (Pair OpBinary) bs) s u"
    using put_binary [of a s b "map (Pair OpBinary) bs"] Cons.prems by auto
  note r = put_on_ready [OF u(2) Cons.prems(1)]
  have "obj_takes (link_object (session_link a u) u) (map (Pair OpBinary) bs)" using u(2) r by (simp add: put_on_def)
  then obtain t where "write_buffers (session_WriteBinary a) bs u = (None, t)"
    "put_on (session_link a s) (map (Pair OpBinary) bs) [] u t" using Cons.IH [of u] r by auto
  then show ?case using u put_on_trans [of "session_link a s" "[(OpBinary, b)]" "map (Pair OpBinary) bs" "[]" s u t] by auto
qed

subsection \<open>Emitting on one connection\<close>

abbreviation conn_tr :: "nat \<Rightarrow> 'h server \<Rightarrow> nat" where
  "conn_tr c s \<equiv> sess_tr (session (conn_heap s ! c)) s"

abbreviation conn_link :: "nat \<Rightarrow> 'h server \<Rightarrow> link" where
  "conn_link c s \<equiv> session_link (conn_tr c s) (tr s)"

text \<open>The messages of an event for connection \<open>c\<close>; none when the packet cannot be built.\<close>

definition event_messages :: "nat \<Rightarrow> string \<Rightarrow> gval list \<Rightarrow> 'h server \<Rightarrow> (byte \<times> string) list" where
  "event_messages c event args s =
     (case BuildEventPacket (c_ns (conn_heap s ! c)) event None args of
        Inl _ \<Rightarrow> []
      | Inr (p, bufs) \<Rightarrow>
          (case Encode (Some p) of Inl _ \<Rightarrow> [] | Inr raw \<Rightarrow> (OpText, eioMessage # raw) # map (Pair OpBinary) bufs))"

text \<open>Connection \<open>c\<close> can be sent the event: it can be built, the session is open and the link takes it.\<close>

definition reachable_by :: "string \<Rightarrow> gval list \<Rightarrow> 'h server \<Rightarrow> nat \<Rightarrow> bool" where
  "reachable_by event args s c \<longleftrightarrow>
     event_messages c event args s \<noteq> [] \<and> \<not> es_closed (es_heap s ! session (conn_heap s ! c)) \<and>
     link_ready (conn_tr c s) (tr s) \<and> obj_takes (link_object (conn_link c s) (tr s)) (event_messages c event args s)"

lemma Emit_puts:
  assumes "reachable_by event args s c"
  shows "\<exists>t. conn_Emit c event args s = (None, s\<lparr>tr := t\<rparr>) \<and>
    put_on (conn_link c s) (event_messages c event args s) [] (tr s) t"
proof -
  let ?a = "conn_tr c s"
  obtain p bufs raw where b: "BuildEventPacket (c_ns (conn_heap s ! c)) event None args = Inr (p, bufs)" "Encode (Some p) = Inr raw"
    using assms by (auto simp: reachable_by_def event_messages_def split: sum.splits)
  then have ms: "event_messages c event args s = (OpText, eioMessage # raw) # map (Pair OpBinary) bufs"
    by (simp add: event_messages_def)
  obtain u where u: "session_WriteText ?a (eioMessage # raw) (tr s) = (None, u)"
    "put_on (conn_link c s) [(OpText, eioMessage # raw)] (map (Pair OpBinary) bufs) (tr s) u"
    using put_text [of ?a "tr s" "eioMessage # raw" "map (Pair OpBinary) bufs"] assms ms by (auto simp: reachable_by_def)
  have r: "link_ready ?a u \<and> session_link ?a u = conn_link c s"
    using put_on_ready [OF u(2)] assms by (simp add: reachable_by_def)
  have "obj_takes (link_object (session_link ?a u) u) (map (Pair OpBinary) bufs)" using u(2) r by (simp add: put_on_def)
  then obtain t where t: "write_buffers (session_WriteBinary ?a) bufs u = (None, t)"
    "put_on (conn_link c s) (map (Pair OpBinary) bufs) [] u t" using put_buffers [of ?a u bufs] r by auto
  have "put_on (conn_link c s) (event_messages c event args s) [] (tr s) t"
    using put_on_trans [of "conn_link c s" "[(OpText, eioMessage # raw)]" "map (Pair OpBinary) bufs" "[]" "tr s" u t] u(2) t(2) ms
    by simp
  then show ?thesis using b u(1) t(1) assms by (auto simp: conn_Emit_def send_def reachable_by_def)
qed

text \<open>The other connections are as reachable as before.\<close>

lemma reachable_by_other:
  assumes "reachable_by event args s c" "put_on l ms [] (tr s) t" "conn_link c s \<noteq> l"
  shows "reachable_by event args (s\<lparr>tr := t\<rparr>) c \<and> conn_link c (s\<lparr>tr := t\<rparr>) = conn_link c s"
  using assms put_on_ready [OF assms(2), of "conn_tr c s"]
  by (auto simp: reachable_by_def event_messages_def put_on_def)

abbreviation emit_all :: "string \<Rightarrow> gval list \<Rightarrow> nat list \<Rightarrow> 'h server \<Rightarrow> 'h server" where
  "emit_all event args cs s \<equiv> fold (\<lambda>c s. snd (conn_Emit c event args s)) cs s"

lemma emit_all_puts:
  assumes "list_all (reachable_by event args s) cs" "distinct (map (\<lambda>c. conn_link c s) cs)"
  shows "\<exists>t. emit_all event args cs s = s\<lparr>tr := t\<rparr> \<and> sess_heap t = sess_heap (tr s) \<and>
    (\<forall>c\<in>set cs. obj_sent (link_object (conn_link c s) t) = obj_sent (link_object (conn_link c s) (tr s)) @
       concat (map (obj_enc (link_object (conn_link c s) (tr s))) (event_messages c event args s))) \<and>
    (\<forall>l. l \<notin> (\<lambda>c. conn_link c s) ` set cs \<longrightarrow> link_object l t = link_object l (tr s))"
  using assms
proof (induction cs arbitrary: s)
  case Nil
  show ?case by (rule exI [of _ "tr s"]) simp
next
  case (Cons c cs)
  obtain u where u: "conn_Emit c event args s = (None, s\<lparr>tr := u\<rparr>)"
    "put_on (conn_link c s) (event_messages c event args s) [] (tr s) u"
    using Emit_puts [of event args s c] Cons.prems(1) by auto
  let ?s = "s\<lparr>tr := u\<rparr>"
  have same: "session_link a u = session_link a (tr s)" for a using u(2) by (simp add: put_on_def)
  have other: "link_object l u = link_object l (tr s)" if "l \<noteq> conn_link c s" for l using u(2) that by (simp add: put_on_def)
  have apart: "conn_link d s \<noteq> conn_link c s" if "d \<in> set cs" for d
    using Cons.prems(2) imageI [OF that, of "\<lambda>c. conn_link c s"] by auto
  have "reachable_by event args ?s d" if "d \<in> set cs" for d
    using reachable_by_other [of event args s d, OF _ u(2) apart [OF that]] Cons.prems(1) that by (simp add: list_all_iff)
  then have "list_all (reachable_by event args ?s) cs" by (simp add: list_all_iff)
  moreover have "distinct (map (\<lambda>c. conn_link c ?s) cs)" using Cons.prems(2) by (simp add: same)
  ultimately obtain t where t: "emit_all event args cs ?s = ?s\<lparr>tr := t\<rparr>" "sess_heap t = sess_heap u"
    "\<forall>d\<in>set cs. obj_sent (link_object (conn_link d ?s) t) = obj_sent (link_object (conn_link d ?s) u) @
       concat (map (obj_enc (link_object (conn_link d ?s) u)) (event_messages d event args ?s))"
    "\<forall>l. l \<notin> (\<lambda>c. conn_link c ?s) ` set cs \<longrightarrow> link_object l t = link_object l u"
    using Cons.IH [of ?s] by auto
  have msgs: "event_messages d event args ?s = event_messages d event args s" for d by (simp add: event_messages_def)
  have c: "conn_link c s \<notin> (\<lambda>c. conn_link c s) ` set cs" using Cons.prems(2) by auto
  have "emit_all event args (c # cs) s = s\<lparr>tr := t\<rparr>" using u(1) t(1) by simp
  moreover have "sess_heap t = sess_heap (tr s)" using t(2) u(2) by (simp add: put_on_def)
  moreover have "obj_sent (link_object (conn_link c s) t) = obj_sent (link_object (conn_link c s) (tr s)) @
       concat (map (obj_enc (link_object (conn_link c s) (tr s))) (event_messages c event args s))"
    using t(4) c u(2) by (simp add: same put_on_def)
  moreover have "obj_sent (link_object (conn_link d s) t) = obj_sent (link_object (conn_link d s) (tr s)) @
       concat (map (obj_enc (link_object (conn_link d s) (tr s))) (event_messages d event args s))" if "d \<in> set cs" for d
    using t(3) that other [OF apart [OF that]] by (simp add: same msgs)
  moreover have "link_object l t = link_object l (tr s)" if "l \<notin> (\<lambda>c. conn_link c s) ` set (c # cs)" for l
    using t(4) that other [of l] by (simp add: same)
  ultimately show ?case by (intro exI [of _ t]) simp
qed

subsection \<open>Broadcasting\<close>

text \<open>Everyone in the room except \<open>skip\<close>, by connection id as \<open>rooms.Send\<close> tells them apart.\<close>

definition recipients :: "string \<Rightarrow> string \<Rightarrow> nat option \<Rightarrow> 'h server \<Rightarrow> nat list" where
  "recipients ns room skip s =
     filter (\<lambda>c. case skip of None \<Rightarrow> True | Some k \<Rightarrow> c_id (conn_heap s ! c) \<noteq> c_id (conn_heap s ! k)) (RoomMembers ns room s)"

lemma ToRoom_emits:
  assumes "server_ok s"
  shows "ToRoom ns room event skip args s = emit_all event args (recipients ns room skip s) s"
proof (cases "find_ns ns s")
  case None
  then show ?thesis by (simp add: ToRoom_def recipients_def RoomMembers_def)
next
  case (Some n)
  let ?S = "case skip of None \<Rightarrow> {} | Some c \<Rightarrow> {c_id (conn_heap s ! c)}"
  have mg: "manager_ok (ns_rooms n)" and o: "\<And>r i m. occupants (ns_rooms n) r i = Some m \<Longrightarrow> member_ok (NormalizeNS ns) s r i m"
    using assms Some by (auto simp: server_ok_def rooms_ok_def find_ns_def)
  have "member_ID m = c_id (conn_heap s ! impl m)" if "m \<in> set (Members room (ns_rooms n))" for m
  proof -
    have "occupants (ns_rooms n) room (member_ID m) = Some m" using Members_occupants [OF mg] that by blast
    from member_okD(3) [OF o [OF this]] show ?thesis ..
  qed
  then have "filter (\<lambda>m. member_ID m \<notin> ?S) (Members room (ns_rooms n)) =
      filter (\<lambda>m. case skip of None \<Rightarrow> True | Some k \<Rightarrow> c_id (conn_heap s ! impl m) \<noteq> c_id (conn_heap s ! k)) (Members room (ns_rooms n))"
    by (intro filter_cong) (auto split: option.splits)
  then have "map impl (filter (\<lambda>m. member_ID m \<notin> ?S) (Members room (ns_rooms n))) = recipients ns room skip s"
    using Some by (simp add: recipients_def RoomMembers_def filter_map comp_def)
  then show ?thesis using Some
    by (simp add: ToRoom_def Send_def Send_filter fold_map comp_def flip: \<open>map impl _ = _\<close>)
qed

text \<open>What a broadcast to the connections \<open>cs\<close> does to the links, when it is one \<open>Emit\<close> after the other.\<close>

lemma emit_all_delivers:
  assumes "t = emit_all event args cs s" "list_all (reachable_by event args s) cs" "distinct (map (\<lambda>c. conn_link c s) cs)"
  shows "(\<forall>c\<in>set cs. link_sent (conn_tr c s) (tr t) =
        link_sent (conn_tr c s) (tr s) @ concat (map (link_enc (conn_tr c s) (tr s)) (event_messages c event args s))) \<and>
    (\<forall>a. session_link a (tr s) \<notin> (\<lambda>c. conn_link c s) ` set cs \<longrightarrow> link_sent a (tr t) = link_sent a (tr s)) \<and>
    conn_heap t = conn_heap s \<and> sessions t = sessions s \<and> namespaces t = namespaces s"
proof -
  obtain u where u: "t = s\<lparr>tr := u\<rparr>" "sess_heap u = sess_heap (tr s)"
    "\<forall>c\<in>set cs. obj_sent (link_object (conn_link c s) u) = obj_sent (link_object (conn_link c s) (tr s)) @
       concat (map (obj_enc (link_object (conn_link c s) (tr s))) (event_messages c event args s))"
    "\<forall>l. l \<notin> (\<lambda>c. conn_link c s) ` set cs \<longrightarrow> link_object l u = link_object l (tr s)"
    using emit_all_puts [OF assms(2,3)] assms(1) by blast
  have enc: "link_enc a (tr s) = obj_enc (link_object (session_link a (tr s)) (tr s))" for a
    by (simp add: fun_eq_iff link_enc_object)
  show ?thesis using u(2-4) by (simp add: u(1) link_sent_object enc)
qed

lemma ToRoom_delivers:
  assumes "server_ok s" "list_all (reachable_by event args s) (recipients ns room skip s)"
    and "distinct (map (\<lambda>c. conn_link c s) (recipients ns room skip s))" "t = ToRoom ns room event skip args s"
  shows "(\<forall>c\<in>set (recipients ns room skip s).
      link_sent (conn_tr c s) (tr t) =
        link_sent (conn_tr c s) (tr s) @ concat (map (link_enc (conn_tr c s) (tr s)) (event_messages c event args s))) \<and>
    (\<forall>a. session_link a (tr s) \<notin> (\<lambda>c. conn_link c s) ` set (recipients ns room skip s) \<longrightarrow>
      link_sent a (tr t) = link_sent a (tr s)) \<and>
    conn_heap t = conn_heap s \<and> sessions t = sessions s \<and> namespaces t = namespaces s"
  using assms(4) [unfolded ToRoom_emits [OF assms(1)]] assms(2,3) by (rule emit_all_delivers)

text \<open>\<open>ToNamespace\<close> goes to the connections of the namespace that are in a room of it, not to the others.\<close>

definition ns_recipients :: "string \<Rightarrow> 'h server \<Rightarrow> nat list" where
  "ns_recipients ns s = (case find_ns ns s of None \<Rightarrow> [] | Some n \<Rightarrow> map impl (firsts [] (all_members (ns_rooms n))))"

lemma ToNamespace_emits: "ToNamespace ns event args s = emit_all event args (ns_recipients ns s) s"
  by (simp add: ToNamespace_def ns_recipients_def SendAll_firsts fold_map comp_def split: option.split)

lemma ns_recipients_members:
  assumes "server_ok s"
  shows "(\<forall>c\<in>set (ns_recipients ns s). \<exists>room. c \<in> set (RoomMembers ns room s)) \<and>
    (\<forall>room. \<forall>c\<in>set (RoomMembers ns room s). \<exists>d\<in>set (ns_recipients ns s). c_id (conn_heap s ! d) = c_id (conn_heap s ! c))"
proof (cases "find_ns ns s")
  case None
  then show ?thesis by (simp add: ns_recipients_def RoomMembers_def)
next
  case (Some n)
  let ?ms = "firsts [] (all_members (ns_rooms n))"
  have mg: "manager_ok (ns_rooms n)" and o: "\<And>r i m. occupants (ns_rooms n) r i = Some m \<Longrightarrow> member_ok (NormalizeNS ns) s r i m"
    using assms Some by (auto simp: server_ok_def rooms_ok_def find_ns_def)
  have in_room: "m \<in> set (all_members (ns_rooms n)) \<longleftrightarrow> (\<exists>room. m \<in> set (Members room (ns_rooms n)))" for m
    using all_snapshots [OF mg] Members_occupants [OF mg] by blast
  have cid: "c_id (conn_heap s ! impl m) = member_ID m" if m: "m \<in> set (all_members (ns_rooms n))" for m
  proof -
    obtain r where "occupants (ns_rooms n) r (member_ID m) = Some m" using all_snapshots [OF mg] m by blast
    from member_okD(3) [OF o [OF this]] show ?thesis .
  qed
  have F: "set ?ms \<subseteq> set (all_members (ns_rooms n))" "member_ID ` set ?ms = member_ID ` set (all_members (ns_rooms n))"
    using firsts_props [of "[]" "all_members (ns_rooms n)"] by auto
  have "\<exists>room. impl m \<in> impl ` set (Members room (ns_rooms n))" if "m \<in> set ?ms" for m
    using that F(1) in_room by blast
  moreover have "\<exists>d\<in>impl ` set ?ms. c_id (conn_heap s ! d) = c_id (conn_heap s ! impl m)"
    if "m \<in> set (Members room (ns_rooms n))" for room m
  proof -
    have a: "m \<in> set (all_members (ns_rooms n))" using that in_room by blast
    then obtain k where k: "k \<in> set ?ms" "member_ID k = member_ID m" using F(2) by (metis imageE imageI)
    then have "c_id (conn_heap s ! impl k) = c_id (conn_heap s ! impl m)" using cid a F(1) by auto
    then show ?thesis using k(1) by blast
  qed
  ultimately show ?thesis using Some by (auto simp: ns_recipients_def RoomMembers_def)
qed

subsection \<open>Handlers\<close>

text \<open>
  What the handlers of an application share: one is called for a connection that exists, and for an
  address that is not on the heap the model's handler does nothing.
\<close>

definition on_heap :: "nat \<Rightarrow> ('h server \<Rightarrow> 'h server) \<Rightarrow> 'h server \<Rightarrow> 'h server" where
  "on_heap c f s = (if c < length (conn_heap s) then f s else s)"

lemma on_heap_at:
  "(c < length (conn_heap s) \<Longrightarrow> server_at n (f s)) \<Longrightarrow> server_at n s \<Longrightarrow> server_at n (on_heap c f s)"
  by (simp add: on_heap_def)

lemma finish_task_tr [simp]: "tr (finish_task k s) = tr s"
  by (simp add: finish_task_def)

text \<open>The goroutine of an event whose client asked for no acknowledgement runs the handler and nothing else.\<close>

lemma event_task_runs:
  assumes "server_ok s" "k < length (tasks s)" "tasks s ! k = EventTask c (Some h) args None"
  shows "c < length (conn_heap s) \<and>
    live_step user (ERunTask k) (s, rds) = (finish_task k (snd (user h (EventCall c args) s)), rds)"
proof
  have "task_conn (tasks s ! k) < length (conn_heap s)" using assms(1,2) by (simp add: server_ok_def sem_ok_def)
  then show "c < length (conn_heap s)" using assms(3) by simp
qed (use assms(2,3) in \<open>simp add: live_step_def task_body_def run_handler_def\<close>)

text \<open>
  An event that arrives: with a handler registered and a slot free, reading the message starts the
  goroutine of the handler and changes nothing else.
\<close>

lemma event_starts_task:
  assumes rd: "k < length rds" "\<not> exited (rds ! k)" "waiting (rds ! k) = None" "connectedAny (rds ! k)"
    and p: "Decode raw = Inr p" "Type p = TypeEvent" "EventName (Data p) = Inr name" "EventArgs (Data p) = Inr args"
    and c: "session_conn k (Namespace p) s = Some c" "slot_free c s" "\<not> sc_closed (sess_heap (tr s) ! sess_tr k s)"
    and h: "find_ns (Namespace p) s = Some n" "map_of (events n) name = Some h"
  shows "live_step user (EMessage k d (OpText, raw, None)) (s, rds) = (start_task (EventTask c (Some h) args (ID p)) s, rds)"
proof -
  have "raw \<noteq> []" using p(1) by (auto simp: Decode_def)
  have same: "(rds ! k)\<lparr>connectedAny := True, waiting := w\<rparr> = (rds ! k)\<lparr>waiting := w\<rparr>" "(rds ! k)\<lparr>waiting := None\<rparr> = rds ! k" for w
    using rd(3,4) by (cases "rds ! k"; simp)+
  have k: "\<not> IsBinary TypeEvent" "TypeEvent \<noteq> TypeConnect" "TypeEvent \<noteq> TypeDisconnect" "TypeEvent \<noteq> TypeBinaryEvent" by code_simp+
  have "dispatchPacket user (fst d) k p [] s = Start (EventTask c (Some h) args (ID p))"
    using p(2-4) c(1) h k by (simp add: dispatchPacket_def dispatchEvent_def getEvent_def Let_def)
  then have "handle_message user d k (OpText, raw, None) (rds ! k) s =
      Return (resume (snd d) k ((rds ! k)\<lparr>waiting := Some (EventTask c (Some h) args (ID p))\<rparr>) s)"
    using \<open>raw \<noteq> []\<close> rd(4) p(1,2) k by (simp add: handle_message_def deliver_def Let_def same)
  also have "\<dots> = Return (rds ! k, start_task (EventTask c (Some h) args (ID p)) s)"
    using c(2,3) by (simp add: resume_def Let_def same)
  finally show ?thesis using rd by (simp add: live_step_def)
qed

lemma start_task_same [simp]:
  "tr (start_task t s) = tr s" "namespaces (start_task t s) = namespaces s" "es_heap (start_task t s) = es_heap s"
  "tasks (start_task t s) = tasks s @ [t]" "find_ns ns (start_task t s) = find_ns ns s"
  "RoomMembers ns room (start_task t s) = RoomMembers ns room s"
  by (simp_all add: start_task_def Let_def find_ns_def RoomMembers_def)

lemma start_task_conn [simp]:
  "c_id (conn_heap (start_task t s) ! c) = c_id (conn_heap s ! c)" "c_ns (conn_heap (start_task t s) ! c) = c_ns (conn_heap s ! c)"
  "session (conn_heap (start_task t s) ! c) = session (conn_heap s ! c)"
  by (cases "c = task_conn t \<and> c < length (conn_heap s)"; auto simp: start_task_def Let_def nth_update)+

lemma start_task_recipients [simp]:
  "recipients ns room skip (start_task t s) = recipients ns room skip s"
  "ns_recipients ns (start_task t s) = ns_recipients ns s"
  "event_messages c event args (start_task t s) = event_messages c event args s"
  "reachable_by event args (start_task t s) = reachable_by event args s"
  by (simp_all add: recipients_def ns_recipients_def event_messages_def reachable_by_def fun_eq_iff split: option.split)

subsection \<open>Properties\<close>

text \<open>C4. A broadcast is delivered: when \<open>ToRoom\<close> is called and every recipient can be sent the event, each on
  a link of its own, every member of the room except the skipped one is sent the event exactly once,
  as the text message and byte slices \<open>Emit\<close> would send it, and no other session is sent anything.\<close>

theorem broadcast_delivers:
  assumes "server_ok s" "list_all (reachable_by event args s) (recipients ns room skip s)"
    and "distinct (map (\<lambda>c. conn_link c s) (recipients ns room skip s))" "t = ToRoom ns room event skip args s"
  shows "(\<forall>c\<in>set (recipients ns room skip s).
      link_sent (conn_tr c s) (tr t) =
        link_sent (conn_tr c s) (tr s) @ concat (map (link_enc (conn_tr c s) (tr s)) (event_messages c event args s))) \<and>
    (\<forall>a. session_link a (tr s) \<notin> (\<lambda>c. conn_link c s) ` set (recipients ns room skip s) \<longrightarrow>
      link_sent a (tr t) = link_sent a (tr s)) \<and>
    conn_heap t = conn_heap s \<and> sessions t = sessions s \<and> namespaces t = namespaces s"
  by (rule ToRoom_delivers [OF assms])

subsection \<open>Witnesses\<close>

text \<open>Two clients in one room, the first on polling and the second on a WebSocket.\<close>

definition duo_engine :: "request engine" where
  "duo_engine = polling_engine\<lparr>
     sess_heap := [\<lparr>current = PollLink 0, sc_closed = False, sc_ip = ''10.0.0.1'', sc_sid = ''s1''\<rparr>,
                   \<lparr>current = WSLink 0, sc_closed = False, sc_ip = ''10.0.0.2'', sc_sid = ''s2''\<rparr>],
     ws_heap := [newWSConn [] 100]\<rparr>"

definition duo_server :: "chat server" where
  "duo_server = demo_server\<lparr>tr := duo_engine, es_heap := [\<lparr>es_tr = 0, es_closed = False\<rparr>, \<lparr>es_tr = 1, es_closed = False\<rparr>],
     conn_heap := [demo_conn, demo_conn\<lparr>c_id := ''c2'', session := 1\<rparr>],
     sessions := [(0, [(''/'', 0)]), (1, [(''/'', 1)])], conns := [(''c1'', 0), (''c2'', 1)], connCount := 2\<rparr>"

lemma duo_server_simps:
  "tr duo_server = duo_engine" "es_heap duo_server = [\<lparr>es_tr = 0, es_closed = False\<rparr>, \<lparr>es_tr = 1, es_closed = False\<rparr>]"
  "conn_heap duo_server = [demo_conn, demo_conn\<lparr>c_id := ''c2'', session := 1\<rparr>]"
  "sessions duo_server = [(0, [(''/'', 0)]), (1, [(''/'', 1)])]"
  "namespaces duo_server = namespaces demo_server" "tasks duo_server = []" "MaxEventConcurrency (s_opts duo_server) = 32"
  by (simp_all add: duo_server_def demo_server_simps)

lemma duo_server_ok: "server_ok duo_server"
proof -
  have f: "find_ns ns duo_server = find_ns ns demo_server" for ns by (simp add: find_ns_def duo_server_simps)
  have "sess_ok duo_server"
    by (auto simp: sess_ok_def session_conn_def duo_server_simps demo_conn_def f demo_find_ns split: if_splits)
  moreover have "rooms_ok duo_server"
    using manager_ok_New
    by (auto simp: rooms_ok_def duo_server_simps demo_server_simps newNamespace_def occupants_def New_def split: if_splits)
  moreover have "joined_ok duo_server" by (simp add: joined_ok_def duo_server_simps demo_conn_def)
  moreover have "sem_ok duo_server"
    by (auto simp: sem_ok_def duo_server_simps demo_conn_def tasks_of_def less_Suc_eq)
  ultimately show ?thesis by (simp add: server_ok_def)
qed

definition lobby_server :: "chat server" where
  "lobby_server = conn_Join ''lobby'' 1 (conn_Join ''lobby'' 0 duo_server)"

lemma lobby_server_ok: "server_ok lobby_server"
  unfolding lobby_server_def
  by (intro conn_Join_ok duo_server_ok) (simp_all add: conn_Join_def Let_def duo_server_simps)

lemma lobby_server_simps:
  "tr lobby_server = duo_engine" "es_heap lobby_server = es_heap duo_server"
  "conn_heap lobby_server =
     [demo_conn\<lparr>joined := [''lobby'']\<rparr>, demo_conn\<lparr>c_id := ''c2'', session := 1, joined := [''lobby'']\<rparr>]"
  "set (RoomMembers ''/'' ''lobby'' lobby_server) = {0, 1}" "distinct (RoomMembers ''/'' ''lobby'' lobby_server)"
  by (simp_all add: lobby_server_def conn_Join_def Let_def duo_server_simps demo_server_simps demo_conn_def MaxRoomsPerConn_def
      upd_ns_def root_ns newNamespace_def as_member_def Join_def Join_lookup_def room_add_def New_def newRoom_def add_def
      RoomMembers_def find_ns_def Members_def snapshot_def)

lemma plain_event: "c_ns (conn_heap s ! c) = ''/'' \<Longrightarrow> event_messages c ''a'' [] s = [(OpText, ''42[\"a\"]'')]"
proof -
  have "BuildEventPacket ''/'' ''a'' None [] =
      Inr (\<lparr>Type = TypeEvent, Namespace = ''/'', ID = None, Data = ''[\"a\"]'', Attachments = 0\<rparr>, [])"
    "Encode (Some \<lparr>Type = TypeEvent, Namespace = ''/'', ID = None, Data = ''[\"a\"]'', Attachments = 0\<rparr>) = Inr ''2[\"a\"]''"
    by code_simp+
  then show "c_ns (conn_heap s ! c) = ''/'' \<Longrightarrow> ?thesis" by (simp add: event_messages_def)
qed

lemma duo_links:
  "session_link 0 duo_engine = PollLink 0" "session_link 1 duo_engine = WSLink 0"
  "link_ready 0 duo_engine" "link_ready 1 duo_engine"
  "link_object (PollLink 0) duo_engine = Inl ((newPollConn [])\<lparr>sendCh := [''4queued'']\<rparr>)"
  "link_object (WSLink 0) duo_engine = Inr (newWSConn [] 100)"
  by (simp_all add: duo_engine_def link_ready_def link_object_def polling_engine_link)

theorem broadcast_delivers_witness:
  "\<exists>t. ToRoom ''/'' ''lobby'' ''a'' None [] lobby_server = t \<and>
     link_sent 0 (tr t) = [Inl ''4queued'', Inl ''42[\"a\"]''] \<and>
     link_sent 1 (tr t) = link_enc 1 duo_engine (OpText, ''42[\"a\"]'')"
proof -
  let ?cs = "recipients ''/'' ''lobby'' None lobby_server"
  let ?t = "ToRoom ''/'' ''lobby'' ''a'' None [] lobby_server"
  have cs: "set ?cs = {0, 1}" "distinct ?cs" using lobby_server_simps(4,5) by (simp_all add: recipients_def)
  have m: "event_messages c ''a'' [] lobby_server = [(OpText, ''42[\"a\"]'')]" if "c \<in> {0, 1}" for c
    using that by (intro plain_event) (auto simp: lobby_server_simps demo_conn_def)
  have tr: "conn_tr 0 lobby_server = 0" "conn_tr 1 lobby_server = 1"
    by (simp_all add: lobby_server_simps demo_conn_def duo_server_simps)
  have "reachable_by ''a'' [] lobby_server c" if "c \<in> {0, 1}" for c
    using that m [OF that] duo_links
    by (auto simp: reachable_by_def lobby_server_simps demo_conn_def duo_server_simps newPollConn_def newWSConn_def chan_cap_def)
  then have r: "list_all (reachable_by ''a'' [] lobby_server) ?cs" using cs(1) by (simp add: list_all_iff)
  have "inj_on (\<lambda>c. conn_link c lobby_server) {0, 1}" using duo_links(1,2) tr by (auto simp: inj_on_def lobby_server_simps(1))
  then have d: "distinct (map (\<lambda>c. conn_link c lobby_server) ?cs)" using cs by (simp add: distinct_map)
  have "link_sent (conn_tr c lobby_server) (tr ?t) = link_sent (conn_tr c lobby_server) duo_engine @
      link_enc (conn_tr c lobby_server) duo_engine (OpText, ''42[\"a\"]'')" if "c \<in> {0, 1}" for c
  proof -
    have "c \<in> set ?cs" using that cs(1) by simp
    then have "link_sent (conn_tr c lobby_server) (tr ?t) = link_sent (conn_tr c lobby_server) (tr lobby_server) @
        concat (map (link_enc (conn_tr c lobby_server) (tr lobby_server)) (event_messages c ''a'' [] lobby_server))"
      using broadcast_delivers [OF lobby_server_ok r d refl] by blast
    then show ?thesis by (simp add: m [OF that] lobby_server_simps(1))
  qed
  from this [of 0] this [of 1]
  have "link_sent 0 (tr ?t) = link_sent 0 duo_engine @ link_enc 0 duo_engine (OpText, ''42[\"a\"]'')"
    "link_sent 1 (tr ?t) = link_sent 1 duo_engine @ link_enc 1 duo_engine (OpText, ''42[\"a\"]'')"
    unfolding tr by simp_all
  moreover have "link_sent 0 duo_engine = [Inl ''4queued'']" "link_sent 1 duo_engine = []"
    "link_enc 0 duo_engine (OpText, ''42[\"a\"]'') = [Inl ''42[\"a\"]'']"
    unfolding link_sent_object link_enc_object duo_links by (simp_all add: newPollConn_def newWSConn_def)
  ultimately show ?thesis by simp
qed

end
