(* ===== verification/Example_Chat.thy ===== *)
theory Example_Chat
  imports Sio_Broadcast
begin

section \<open>examples/chat: a chat server on top of the library\<close>

text \<open>
  The program \<open>examples/chat/main.go\<close>: its handlers, as the application's part of the server machine,
  and the calls by which \<open>main\<close> registers them. What the program logs and
  the HTML page are left out.
\<close>

subsection \<open>chatMessage\<close>

record chatMessage =
  cm_room :: string
  cm_text :: string
  cm_user :: string

text \<open>
  \<open>json.Unmarshal\<close> into a \<open>chatMessage\<close>: keys match the tags up to case, unknown keys are skipped,
  \<open>null\<close> changes nothing, and a value that is not a string is an error in the end.
\<close>

definition set_field :: "string \<times> json \<Rightarrow> chatMessage option \<Rightarrow> chatMessage option" where
  "set_field kv m =
     (case kv of (k, v) \<Rightarrow>
      if EqualFold k ''room'' \<or> EqualFold k ''text'' \<or> EqualFold k ''user'' then
        (case v of
           JStr t \<Rightarrow>
             map_option (\<lambda>m. if EqualFold k ''room'' then m\<lparr>cm_room := t\<rparr>
                             else if EqualFold k ''text'' then m\<lparr>cm_text := t\<rparr> else m\<lparr>cm_user := t\<rparr>) m
         | JNull \<Rightarrow> m
         | _ \<Rightarrow> None)
      else m)"

definition unmarshal_chat :: "string \<Rightarrow> chatMessage option" where
  "unmarshal_chat d =
     (let zero = \<lparr>cm_room = [], cm_text = [], cm_user = []\<rparr> in
      case parse d of
        Some JNull \<Rightarrow> Some zero
      | Some (JObj ms) \<Rightarrow> fold set_field ms (Some zero)
      | _ \<Rightarrow> None)"

definition chat_value :: "chatMessage \<Rightarrow> gval" where
  "chat_value m =
     GStruct [(SField True ''Room'' ''room'', GString (cm_room m)), (SField True ''Text'' ''text'', GString (cm_text m)),
              (SField True ''User'' ''user'', GString (cm_user m))]"

subsection \<open>The handlers\<close>

datatype chat_handler = ChatConnect | ChatDisconnect | ChatError | ChatMessage | ChatJoin | ChatLeave

definition emit_system :: "nat \<Rightarrow> string \<Rightarrow> 'h server \<Rightarrow> 'h server" where
  "emit_system c msg s = snd (conn_Emit c ''system'' [GString msg] s)"

definition chat_connect :: "nat \<Rightarrow> 'h server \<Rightarrow> 'h server" where
  "chat_connect c s =
     emit_system c (''Welcome! You are connected as '' @ c_id (conn_heap s ! c))
       (SetContext c (Some (RMap [(''name'', RStr ''Guest'')])) (conn_Join ''general'' c s))"

definition chat_message :: "nat \<Rightarrow> string list \<Rightarrow> 'h server \<Rightarrow> 'h server" where
  "chat_message c args s =
     (case args of
        [] \<Rightarrow> s
      | a # _ \<Rightarrow>
          (case unmarshal_chat a of
             None \<Rightarrow> s
           | Some msg \<Rightarrow>
               (let msg = (if cm_room msg = [] then msg\<lparr>cm_room := ''general''\<rparr> else msg)
                in ToRoom ''/'' (cm_room msg) ''chat'' (Some c) [chat_value msg] s)))"

text \<open>The room named by the first argument of \<open>join\<close> and \<open>leave\<close>.\<close>

definition named_room :: "string list \<Rightarrow> string option" where
  "named_room args =
     (case args of
        [] \<Rightarrow> None
      | a # _ \<Rightarrow> (case unmarshal_string a of None \<Rightarrow> None | Some room \<Rightarrow> if room = [] then None else Some room))"

definition chat_join :: "nat \<Rightarrow> string list \<Rightarrow> 'h server \<Rightarrow> 'h server" where
  "chat_join c args s =
     (case named_room args of
        None \<Rightarrow> s
      | Some room \<Rightarrow>
          (let s = conn_Join room c s in
           emit_system c (''You joined #'' @ room @ ''  (members: '' @ Itoa (int (RoomLen ''/'' room s)) @ '')'') s))"

definition chat_leave :: "nat \<Rightarrow> string list \<Rightarrow> 'h server \<Rightarrow> 'h server" where
  "chat_leave c args s =
     (case named_room args of
        None \<Rightarrow> s
      | Some room \<Rightarrow> emit_system c (''You left #'' @ room) (conn_Leave room c s))"

fun chat_app :: "chat_handler handlers" where
  "chat_app ChatConnect (ConnectCall c) s = (None, on_heap c (chat_connect c) s)"
| "chat_app ChatMessage (EventCall c args) s = (None, on_heap c (chat_message c args) s)"
| "chat_app ChatJoin (EventCall c args) s = (None, on_heap c (chat_join c args) s)"
| "chat_app ChatLeave (EventCall c args) s = (None, on_heap c (chat_leave c args) s)"
| "chat_app _ _ s = (None, s)"

definition chat_setup :: "chat_handler api list" where
  "chat_setup =
     [ApiOnConnect ''/'' ChatConnect, ApiOnDisconnect ''/'' ChatDisconnect, ApiOnError ''/'' ChatError,
      ApiOnEvent ''/'' ''chat'' ChatMessage, ApiOnEvent ''/'' ''join'' ChatJoin, ApiOnEvent ''/'' ''leave'' ChatLeave]"

text \<open>The server after the calls of \<open>main\<close>.\<close>

definition chat_main :: "chat_handler machine" where
  "chat_main = fold (live_step chat_app) (map EApi chat_setup) (machine_New None)"

subsection \<open>The application keeps the invariant\<close>

lemma emit_system_at: "server_at n s \<Longrightarrow> server_at n (emit_system c msg s)"
  by (simp add: emit_system_def conn_Emit_at)

lemma chat_app_keeps: "handlers_keep chat_app"
  unfolding handlers_keep_def
proof (intro allI impI)
  fix n h cl and s :: "chat_handler server" assume "server_at n s"
  then show "server_at n (snd (chat_app h cl s))"
    by (induction h cl s rule: chat_app.induct)
      (auto simp: chat_connect_def chat_message_def chat_join_def chat_leave_def Let_def
        intro!: on_heap_at emit_system_at SetContext_at ns_op_at ToRoom_at split: list.split option.split)
qed

interpretation chat_example: application chat_app
  by unfold_locales (rule chat_app_keeps)

lemma chat_reachable:
  assumes "fold (live_step chat_app) es chat_main = (s, rds)" shows "server_ok s"
proof -
  have "fold (live_step chat_app) (map EApi chat_setup @ es) (machine_New None) = (s, rds)"
    using assms by (simp add: chat_main_def)
  then show ?thesis by (rule chat_example.reachable_server)
qed

lemma not_recipient: "c \<notin> set (recipients ns room (Some c) s)"
  by (simp add: recipients_def)

subsection \<open>A message relayed\<close>

text \<open>The message with the room the handler fills in.\<close>

definition in_room :: "chatMessage \<Rightarrow> chatMessage" where
  "in_room msg = (if cm_room msg = [] then msg\<lparr>cm_room := ''general''\<rparr> else msg)"

lemma chat_task_relays:
  assumes ok: "server_ok s"
    and "k < length (tasks s)" "tasks s ! k = EventTask c (Some ChatMessage) (a # args) None" "unmarshal_chat a = Some msg"
    and "cs = recipients ''/'' (cm_room (in_room msg)) (Some c) s" "list_all (reachable_by ''chat'' [chat_value (in_room msg)] s) cs"
    and "distinct (map (\<lambda>d. conn_link d s) cs)"
  shows "\<exists>t. live_step chat_app (ERunTask k) (s, rds) = (t, rds) \<and> c \<notin> set cs \<and>
    (\<forall>d\<in>set cs. link_sent (conn_tr d s) (tr t) =
       link_sent (conn_tr d s) (tr s) @
       concat (map (link_enc (conn_tr d s) (tr s)) (event_messages d ''chat'' [chat_value (in_room msg)] s))) \<and>
    (\<forall>x. session_link x (tr s) \<notin> (\<lambda>d. conn_link d s) ` set cs \<longrightarrow> link_sent x (tr t) = link_sent x (tr s))"
proof -
  let ?u = "ToRoom ''/'' (cm_room (in_room msg)) ''chat'' (Some c) [chat_value (in_room msg)] s"
  note run = event_task_runs [OF ok assms(2,3), of chat_app rds]
  then have "snd (chat_app ChatMessage (EventCall c (a # args)) s) = ?u"
    using assms(4) by (simp add: on_heap_def chat_message_def in_room_def Let_def)
  then have "live_step chat_app (ERunTask k) (s, rds) = (finish_task k ?u, rds)" using run by simp
  then show ?thesis
    using ToRoom_delivers [OF ok assms(6,7) [unfolded assms(5)] refl] not_recipient assms(5)
    by (intro exI [of _ "finish_task k ?u"]) simp
qed

subsection \<open>Properties\<close>

text \<open>C15. The chat relays: in every reachable state of the chat server, when the reader of a connected client is
  given a \<open>chat\<close> event with a message, a slot is free, the handler of \<open>main\<close> is still registered and the
  other members of the message's room can be sent to, then a goroutine is started, and when it
  has run, each of them has been sent the message once, with the room filled in as \<open>general\<close> if it
  was empty; the sender and all sessions outside the room have been sent nothing.\<close>

theorem chat_message_relayed:
  assumes "fold (live_step chat_app) es chat_main = (s, rds)"
    and "k < length rds" "\<not> exited (rds ! k)" "waiting (rds ! k) = None" "connectedAny (rds ! k)"
    and "Decode raw = Inr p" "Type p = TypeEvent" "Namespace p = ''/''" "ID p = None"
    and "EventName (Data p) = Inr ''chat''" "EventArgs (Data p) = Inr (a # args)" "unmarshal_chat a = Some msg"
    and "session_conn k ''/'' s = Some c" "slot_free c s" "\<not> sc_closed (sess_heap (tr s) ! sess_tr k s)"
    and "find_ns ''/'' s = Some n" "map_of (events n) ''chat'' = Some ChatMessage"
    and "cs = recipients ''/'' (cm_room (in_room msg)) (Some c) s" "list_all (reachable_by ''chat'' [chat_value (in_room msg)] s) cs"
    and "distinct (map (\<lambda>d. conn_link d s) cs)"
  shows "\<exists>t. fold (live_step chat_app) [EMessage k d (OpText, raw, None), ERunTask (length (tasks s))] (s, rds) = (t, rds) \<and>
    c \<notin> set cs \<and>
    (\<forall>d\<in>set cs. link_sent (conn_tr d s) (tr t) =
       link_sent (conn_tr d s) (tr s) @
       concat (map (link_enc (conn_tr d s) (tr s)) (event_messages d ''chat'' [chat_value (in_room msg)] s))) \<and>
    (\<forall>x. session_link x (tr s) \<notin> (\<lambda>d. conn_link d s) ` set cs \<longrightarrow> link_sent x (tr t) = link_sent x (tr s))"
proof -
  let ?t = "start_task (EventTask c (Some ChatMessage) (a # args) (ID p)) s"
  have go: "live_step chat_app (EMessage k d (OpText, raw, None)) (s, rds) = (?t, rds)"
    by (rule event_starts_task [OF assms(2-7,10,11)]) (use assms(8,13-17) in simp_all)
  then have "fold (live_step chat_app) (es @ [EMessage k d (OpText, raw, None)]) chat_main = (?t, rds)"
    using assms(1) by simp
  then have ok: "server_ok ?t" by (rule chat_reachable)
  show ?thesis
    using chat_task_relays [OF ok, of "length (tasks s)" c a args msg cs rds] assms(9,12,18-20) go by simp
qed

end
