(* ===== verification/Example_Chat_Run.thy ===== *)
theory Example_Chat_Run
  imports Example_Chat
begin

section \<open>examples/chat: a run\<close>

text \<open>
  Two clients on the polling transport connect to the chat server of \<open>main\<close>, and the first one says
  hi: the run behind the witness of \<open>chat_message_relayed\<close>, computed one event at a time.
\<close>

subsection \<open>The packets of the run\<close>

definition say :: packet where
  "say = \<lparr>Type = TypeEvent, Namespace = ''/'', ID = None, Data = ''[\"chat\",{\"text\":\"hi\"}]'', Attachments = 0\<rparr>"

lemma say_ok: "encodable say"
  by code_simp

lemma say_wire: "wire say = ''2[\"chat\",{\"text\":\"hi\"}]''"
  by code_simp

lemma Decode_say: "Decode ''2[\"chat\",{\"text\":\"hi\"}]'' = Inr say"
  using Decode_wire [OF say_ok] by (simp add: say_wire maxPacket_def)

lemma say_name: "EventName ''[\"chat\",{\"text\":\"hi\"}]'' = Inr ''chat''"
  by code_simp

lemma say_args: "EventArgs ''[\"chat\",{\"text\":\"hi\"}]'' = Inr [''{\"text\":\"hi\"}'']"
  by code_simp

lemma say_msg: "unmarshal_chat ''{\"text\":\"hi\"}'' = Some \<lparr>cm_room = [], cm_text = ''hi'', cm_user = []\<rparr>"
  by code_simp

definition greeting :: "string \<Rightarrow> packet" where
  "greeting i = \<lparr>Type = TypeEvent, Namespace = ''/'', ID = None, Data = ''[\"system\",\"Welcome! You are connected as '' @ i @ ''\"]'', Attachments = 0\<rparr>"

lemma greeting_1: "BuildEventPacket ''/'' ''system'' None [GString ''Welcome! You are connected as c1''] = Inr (greeting ''c1'', [])"
  by code_simp

lemma greeting_2: "BuildEventPacket ''/'' ''system'' None [GString ''Welcome! You are connected as c2''] = Inr (greeting ''c2'', [])"
  by code_simp

lemma greeting_3: "Encode (Some (greeting ''c1'')) = Inr ''2[\"system\",\"Welcome! You are connected as c1\"]''"
  by code_simp

lemma greeting_4: "Encode (Some (greeting ''c2'')) = Inr ''2[\"system\",\"Welcome! You are connected as c2\"]''"
  by code_simp

lemma reply_2: "Encode (Some (connect_reply ''/'' ''c2'')) = Inr ''0{\"sid\":\"c2\"}''"
  by code_simp

subsection \<open>The server of main\<close>

definition two_polls :: "request engine" where
  "two_polls = polling_engine\<lparr>connCh := [0, 1],
     sess_heap := [\<lparr>current = PollLink 0, sc_closed = False, sc_ip = ''10.0.0.1'', sc_sid = ''s1''\<rparr>,
                   \<lparr>current = PollLink 1, sc_closed = False, sc_ip = ''10.0.0.2'', sc_sid = ''s2''\<rparr>],
     poll_heap := [newPollConn [], newPollConn []]\<rparr>"

definition chat_ns :: "chat_handler namespace" where
  "chat_ns = \<lparr>ns_name = ''/'', ns_rooms = New, onConnect = Some ChatConnect, onDisconnect = Some ChatDisconnect,
     onError = Some ChatError, events = [(''chat'', ChatMessage), (''join'', ChatJoin), (''leave'', ChatLeave)], binaryEvents = []\<rparr>"

lemma chat_main_state: "\<exists>s. chat_main = (s, []) \<and> conn_heap s = [] \<and> es_heap s = [] \<and> sessions s = [] \<and> tasks s = [] \<and>
   connCount s = 0 \<and> conns s = [] \<and> s_opts s = s_opts (server_New None) \<and> namespaces s = [(''/'', chat_ns)]"
  by (simp add: chat_main_def chat_setup_def run_defs OnConnect_def OnDisconnect_def OnError_def OnEvent_def set_handler_def
    ensureNamespace_def upd_ns_def newNamespace_def chat_ns_def)

subsection \<open>The events\<close>

text \<open>The state in the run: the connections, what is queued for the two polling clients, and the rooms of \<open>/\<close>.\<close>

definition chat_at :: "chat_handler conn list \<Rightarrow> pollconn list \<Rightarrow> nat manager \<Rightarrow> chat_handler server \<Rightarrow> bool" where
  "chat_at cs ps r s \<longleftrightarrow>
     conn_heap s = cs \<and> namespaces s = [(''/'', chat_ns\<lparr>ns_rooms := r\<rparr>)] \<and> tr s = two_polls\<lparr>connCh := [], poll_heap := ps\<rparr> \<and>
     es_heap s = [\<lparr>es_tr = 0, es_closed = False\<rparr>, \<lparr>es_tr = 1, es_closed = False\<rparr>] \<and> tasks s = [] \<and>
     sessions s = map (\<lambda>k. (k, if k < length cs then [(''/'', k)] else [])) [0, 1] \<and> s_opts s = s_opts (server_New None :: chat_handler server)"

definition guest :: "string \<Rightarrow> nat \<Rightarrow> chat_handler conn" where
  "guest i se = (newConn i ''/'' se (server_New None))\<lparr>ctx := Some (RMap [(''name'', RStr ''Guest'')]), joined := [''general'']\<rparr>"

lemma run_accepted:
  "\<exists>s. fold (live_step chat_app) [ETransport (\<lambda>_. two_polls), EServe True, EServe True] chat_main = (s, [new_reader, new_reader]) \<and>
     chat_at [] [newPollConn [], newPollConn []] New s"
proof -
  obtain s where s: "chat_main = (s, [])" "conn_heap s = []" "es_heap s = []" "sessions s = []" "tasks s = []"
   "connCount s = 0" "conns s = []" "s_opts s = s_opts (server_New None)" "namespaces s = [(''/'', chat_ns)]"
    using chat_main_state by blast
  show ?thesis unfolding s(1) using s(2-) by (simp add: run_defs two_polls_def polling_engine_def chat_at_def chat_ns_def)
qed

lemmas joining_defs = connect_defs chat_at_def chat_ns_def chat_connect_def on_heap_def conn_Join_def upd_ns_def as_member_def
  MaxRoomsPerConn_def emit_system_def conn_Emit_def greeting_1 greeting_2 greeting_3 greeting_4 reply_2 SetContext_def
  two_polls_def polling_engine_def newConn_def guest_def

lemma run_first:
  assumes "chat_at [] [newPollConn [], newPollConn []] New s"
  shows "\<exists>t q. live_step chat_app (EMessage 0 (''c1'', True) (OpText, ''0'', None)) (s, [new_reader, new_reader]) =
      (t, [new_reader\<lparr>connectedAny := True\<rparr>, new_reader]) \<and> 
    chat_at [guest ''c1'' 0] [(newPollConn [])\<lparr>sendCh := q\<rparr>, newPollConn []] (snd (Join ''general'' (Member ''c1'' 0) New)) t"
  using assms by (simp add: run_defs joining_defs)
lemma run_second:
  assumes "chat_at [guest ''c1'' 0] [p, newPollConn []] r s"
  shows "\<exists>t q. live_step chat_app (EMessage 1 (''c2'', True) (OpText, ''0'', None)) (s, [rd, new_reader]) =
      (t, [rd, new_reader\<lparr>connectedAny := True\<rparr>]) \<and> length q \<le> 10 \<and>
    chat_at [guest ''c1'' 0, guest ''c2'' 1] [p, (newPollConn [])\<lparr>sendCh := q\<rparr>] (snd (Join ''general'' (Member ''c2'' 1) r)) t"
  using assms by (simp add: run_defs joining_defs)
subsection \<open>The relayed message\<close>

definition hi :: chatMessage where
  "hi = \<lparr>cm_room = ''general'', cm_text = ''hi'', cm_user = []\<rparr>"

definition hi_packet :: packet where
  "hi_packet = \<lparr>Type = TypeEvent, Namespace = ''/'', ID = None,
     Data = ''[\"chat\",{\"room\":\"general\",\"text\":\"hi\",\"user\":\"\"}]'', Attachments = 0\<rparr>"

lemma hi_built: "BuildEventPacket ''/'' ''chat'' None [chat_value hi] = Inr (hi_packet, [])"
  by code_simp

lemma hi_encoded: "Encode (Some hi_packet) = Inr ''2[\"chat\",{\"room\":\"general\",\"text\":\"hi\",\"user\":\"\"}]''"
  by code_simp

lemma hi_messages:
  "c_ns (conn_heap s ! c) = ''/'' \<Longrightarrow>
   event_messages c ''chat'' [chat_value hi] s = [(OpText, ''42[\"chat\",{\"room\":\"general\",\"text\":\"hi\",\"user\":\"\"}]'')]"
  by (simp add: event_messages_def hi_built hi_encoded)

lemma general_room:
  assumes "namespaces s = [(''/'', chat_ns\<lparr>ns_rooms := snd (Join ''general'' (Member ''c2'' 1)
     (snd (Join ''general'' (Member ''c1'' 0) New)))\<rparr>)]"
  shows "RoomMembers ''/'' ''general'' s = [0, 1]"
  using assms
  by (simp add: RoomMembers_def find_ns_def root_ns Members_def snapshot_def Join_def Join_lookup_def room_add_def New_def
      newRoom_def add_def)

text \<open>The run, and the state after it: both clients are in the room.\<close>

abbreviation chat_run :: "chat_handler event list" where
  "chat_run \<equiv> [ETransport (\<lambda>_. two_polls), EServe True, EServe True,
     EMessage 0 (''c1'', True) (OpText, ''0'', None), EMessage 1 (''c2'', True) (OpText, ''0'', None)]"

definition ready_to_relay :: "chat_handler server \<Rightarrow> bool" where
  "ready_to_relay s \<longleftrightarrow>
     tasks s = [] \<and> session_conn 0 ''/'' s = Some 0 \<and> slot_free 0 s \<and> \<not> sc_closed (sess_heap (tr s) ! sess_tr 0 s) \<and>
     (\<exists>n. find_ns ''/'' s = Some n \<and> map_of (events n) ''chat'' = Some ChatMessage) \<and>
     recipients ''/'' ''general'' (Some 0) s = [1] \<and> conn_tr 1 s = 1 \<and> session_link 1 (tr s) = PollLink 1 \<and>
     c_ns (conn_heap s ! 1) = ''/'' \<and> reachable_by ''chat'' [chat_value hi] s 1"

lemma run_to_relay:
  "\<exists>s. fold (live_step chat_app) chat_run chat_main = (s, [new_reader\<lparr>connectedAny := True\<rparr>, new_reader\<lparr>connectedAny := True\<rparr>]) \<and>
     ready_to_relay s"
proof -
  let ?rd = "new_reader\<lparr>connectedAny := True\<rparr>"
  let ?r = "snd (Join ''general'' (Member ''c2'' 1) (snd (Join ''general'' (Member ''c1'' 0) New)))"
  obtain s0 where s0: "fold (live_step chat_app) [ETransport (\<lambda>_. two_polls), EServe True, EServe True] chat_main =
      (s0, [new_reader, new_reader])" "chat_at [] [newPollConn [], newPollConn []] New s0"
    using run_accepted by blast
  obtain s1 q1 where s1: "live_step chat_app (EMessage 0 (''c1'', True) (OpText, ''0'', None)) (s0, [new_reader, new_reader]) =
      (s1, [?rd, new_reader])"
    "chat_at [guest ''c1'' 0] [(newPollConn [])\<lparr>sendCh := q1\<rparr>, newPollConn []] (snd (Join ''general'' (Member ''c1'' 0) New)) s1"
    using run_first [OF s0(2)] by blast
  obtain s q2 where s: "live_step chat_app (EMessage 1 (''c2'', True) (OpText, ''0'', None)) (s1, [?rd, new_reader]) =
      (s, [?rd, ?rd])" "length q2 \<le> 10"
    "chat_at [guest ''c1'' 0, guest ''c2'' 1] [(newPollConn [])\<lparr>sendCh := q1\<rparr>, (newPollConn [])\<lparr>sendCh := q2\<rparr>] ?r s"
    using run_second [OF s1(2)] by blast
  have f: "conn_heap s = [guest ''c1'' 0, guest ''c2'' 1]" "namespaces s = [(''/'', chat_ns\<lparr>ns_rooms := ?r\<rparr>)]"
    "tr s = two_polls\<lparr>connCh := [], poll_heap := [(newPollConn [])\<lparr>sendCh := q1\<rparr>, (newPollConn [])\<lparr>sendCh := q2\<rparr>]\<rparr>"
    "es_heap s = [\<lparr>es_tr = 0, es_closed = False\<rparr>, \<lparr>es_tr = 1, es_closed = False\<rparr>]" "tasks s = []"
    "sessions s = [(0, [(''/'', 0)]), (1, [(''/'', 1)])]" "MaxEventConcurrency (s_opts s) = 32"
    using s(3) by (simp_all add: chat_at_def server_New_def NewServer_def defaults_def zero_options_def Let_def)
  have m: "recipients ''/'' ''general'' (Some 0) s = [1]"
    by (simp add: recipients_def general_room [OF f(2)] f(1) guest_def newConn_def)
  have n: "find_ns ''/'' s = Some (chat_ns\<lparr>ns_rooms := ?r\<rparr>)" by (simp add: find_ns_def f(2) root_ns)
  have c: "conn_tr 1 s = 1" "c_ns (conn_heap s ! 1) = ''/''" "session (conn_heap s ! 1) = 1" "sess_tr 1 s = 1"
    by (simp_all add: f(1,4) guest_def newConn_def)
  have l: "session_link 1 (tr s) = PollLink 1" "link_ready 1 (tr s)"
    "link_object (PollLink 1) (tr s) = Inl ((newPollConn [])\<lparr>sendCh := q2\<rparr>)"
    by (simp_all add: f(3) two_polls_def link_ready_def link_object_def)
  have "reachable_by ''chat'' [chat_value hi] s 1"
    unfolding reachable_by_def hi_messages [OF c(2)] c l using s(2) l(2)
    by (simp_all add: f(1,4) newPollConn_def chan_cap_def)
  moreover have "session_conn 0 ''/'' s = Some 0" "slot_free 0 s" "\<not> sc_closed (sess_heap (tr s) ! sess_tr 0 s)"
    by (simp_all add: session_conn_def slot_free_def f(1,3,4,6,7) guest_def newConn_def two_polls_def
        server_New_def NewServer_def defaults_def zero_options_def Let_def)
  moreover have "map_of (events (chat_ns\<lparr>ns_rooms := ?r\<rparr>)) ''chat'' = Some ChatMessage" by (simp add: chat_ns_def)
  ultimately have "ready_to_relay s" using m n c(1,2) l(1) f(5) by (simp add: ready_to_relay_def)
  moreover have "fold (live_step chat_app) chat_run chat_main = (s, [?rd, ?rd])"
    using s0(1) s1(1) s(1) by (simp only: fold.simps comp_apply id_apply)
  ultimately show ?thesis by blast
qed

subsection \<open>Witness\<close>

theorem chat_message_relayed_witness:
  "\<exists>s t rds. fold (live_step chat_app) chat_run chat_main = (s, rds) \<and>
     fold (live_step chat_app) [EMessage 0 ([], True) (OpText, ''2[\"chat\",{\"text\":\"hi\"}]'', None), ERunTask 0] (s, rds) = (t, rds) \<and>
     link_sent 1 (tr t) = link_sent 1 (tr s) @ [Inl ''42[\"chat\",{\"room\":\"general\",\"text\":\"hi\",\"user\":\"\"}]'']"
proof -
  let ?rds = "[new_reader\<lparr>connectedAny := True\<rparr>, new_reader\<lparr>connectedAny := True\<rparr>]"
  obtain s where s: "fold (live_step chat_app) chat_run chat_main = (s, ?rds)" "ready_to_relay s" using run_to_relay by blast
  note a = s(2) [unfolded ready_to_relay_def]
  obtain n where n: "find_ns ''/'' s = Some n" "map_of (events n) ''chat'' = Some ChatMessage" using a by blast
  have h: "in_room \<lparr>cm_room = [], cm_text = ''hi'', cm_user = []\<rparr> = hi" by (simp add: in_room_def hi_def)
  have hr: "cm_room hi = ''general''" by (simp add: hi_def)
  have "\<exists>t. fold (live_step chat_app) [EMessage 0 ([], True) (OpText, ''2[\"chat\",{\"text\":\"hi\"}]'', None), ERunTask (length (tasks s))]
      (s, ?rds) = (t, ?rds) \<and> (0::nat) \<notin> set [1] \<and>
    (\<forall>d\<in>set [1]. link_sent (conn_tr d s) (tr t) = link_sent (conn_tr d s) (tr s) @
       concat (map (link_enc (conn_tr d s) (tr s)) (event_messages d ''chat'' [chat_value hi] s))) \<and>
    (\<forall>x. session_link x (tr s) \<notin> (\<lambda>d. conn_link d s) ` set [1] \<longrightarrow> link_sent x (tr t) = link_sent x (tr s))"
    by (rule chat_message_relayed [OF s(1), where msg = "\<lparr>cm_room = [], cm_text = ''hi'', cm_user = []\<rparr>", unfolded h hr,
          where p = say and n = n and a = "''{\"text\":\"hi\"}''" and args = "[]"])
      (use a n in \<open>simp_all add: Decode_say say_name say_args say_msg new_reader_def\<close>, simp_all add: say_def say_name say_args)
  then obtain t where t: "fold (live_step chat_app) [EMessage 0 ([], True) (OpText, ''2[\"chat\",{\"text\":\"hi\"}]'', None), ERunTask 0]
      (s, ?rds) = (t, ?rds)" "link_sent (conn_tr 1 s) (tr t) = link_sent (conn_tr 1 s) (tr s) @
       concat (map (link_enc (conn_tr 1 s) (tr s)) (event_messages 1 ''chat'' [chat_value hi] s))"
    using a by auto
  have "link_enc 1 (tr s) (OpText, m) = [Inl m]" for m using a by (simp add: link_enc_def)
  then have "link_sent 1 (tr t) = link_sent 1 (tr s) @ [Inl ''42[\"chat\",{\"room\":\"general\",\"text\":\"hi\",\"user\":\"\"}]'']"
    using t(2) a hi_messages [of s 1] by simp
  then show ?thesis using s(1) t(1) by blast
qed

end
