(* ===== verification/Example_Basic.thy ===== *)
theory Example_Basic
  imports Sio_Broadcast
begin

section \<open>examples/basic: every API in one program\<close>

text \<open>
  The program \<open>examples/basic/main.go\<close>: its handlers, as the application's part of the server machine,
  the calls by which \<open>main\<close> registers them, the goroutine that sends a heartbeat and the index page.
  The formatted time is a parameter of what stores or sends it; \<open>OnConnect\<close> runs once for a connection, so
  for the handlers it is a function of the connection. What the program logs is left out, and
  \<open>Rooms\<close>, whose order Go leaves open, gives the rooms in the order they were joined.
\<close>

subsection \<open>The handlers\<close>

datatype basic_handler =
    BasicConnect | BasicDisconnect | BasicError | BasicMessage | BasicJoin | BasicLeave | BasicRooms | AdminConnect | AdminShutdown

text \<open>\<open>var text string; if len(args) > 0 \<lbrace> json.Unmarshal(args[0], &text) \<rbrace>\<close>: an error leaves it empty.\<close>

definition first_string :: "string list \<Rightarrow> string" where
  "first_string args = (case args of [] \<Rightarrow> [] | a # _ \<Rightarrow> (case unmarshal_string a of None \<Rightarrow> [] | Some t \<Rightarrow> t))"

definition basic_connect :: "string \<Rightarrow> nat \<Rightarrow> 'h server \<Rightarrow> 'h server" where
  "basic_connect now c s =
     (let s = SetContext c (Some (RMap [(''joined'', RStr now)])) s;
          s = conn_Join ''lobby'' c s
      in snd (conn_Emit c ''welcome''
           [GMap (Some [(KString ''message'', GString ''Hello from gsocketio!''),
                        (KString ''id'', GString (c_id (conn_heap s ! c)))])] s))"

definition basic_message :: "nat \<Rightarrow> string list \<Rightarrow> 'h server \<Rightarrow> 'h server" where
  "basic_message c args s =
     (let text = first_string args;
          s = snd (conn_Emit c ''echo'' [GString text] s)
      in ToRoom ''/'' ''lobby'' ''broadcast'' (Some c) [GString (c_id (conn_heap s ! c) @ '' says: '' @ text)] s)"

definition basic_join :: "nat \<Rightarrow> string list \<Rightarrow> 'h server \<Rightarrow> 'h server" where
  "basic_join c args s =
     (let room = first_string args in snd (conn_Emit c ''joined'' [GString room] (conn_Join room c s)))"

definition basic_leave :: "nat \<Rightarrow> string list \<Rightarrow> 'h server \<Rightarrow> 'h server" where
  "basic_leave c args s =
     (let room = first_string args in snd (conn_Emit c ''left'' [GString room] (conn_Leave room c s)))"

definition basic_rooms :: "nat \<Rightarrow> 'h server \<Rightarrow> 'h server" where
  "basic_rooms c s = snd (conn_Emit c ''rooms'' [GSlice (Some (map GString (conn_Rooms c s)))] s)"

definition basic_shutdown :: "'h server \<Rightarrow> 'h server" where
  "basic_shutdown s = ToNamespace ''/'' ''alert'' [GString ''Server shutting down!''] s"

fun basic_app :: "(nat \<Rightarrow> string) \<Rightarrow> basic_handler handlers" where
  "basic_app now BasicConnect (ConnectCall c) s = (None, on_heap c (basic_connect (now c) c) s)"
| "basic_app now BasicMessage (EventCall c args) s = (None, on_heap c (basic_message c args) s)"
| "basic_app now BasicJoin (EventCall c args) s = (None, on_heap c (basic_join c args) s)"
| "basic_app now BasicLeave (EventCall c args) s = (None, on_heap c (basic_leave c args) s)"
| "basic_app now BasicRooms (EventCall c args) s = (None, on_heap c (basic_rooms c) s)"
| "basic_app now AdminShutdown (EventCall c args) s = (None, basic_shutdown s)"
| "basic_app now _ _ s = (None, s)"

subsection \<open>main\<close>

definition basic_options :: "'r options" where
  "basic_options = zero_options\<lparr>PingInterval := 30 * second, PingTimeout := 10 * second, MaxPayload := 2000000\<rparr>"

definition basic_setup :: "basic_handler api list" where
  "basic_setup =
     [ApiOnConnect ''/'' BasicConnect, ApiOnDisconnect ''/'' BasicDisconnect, ApiOnError ''/'' BasicError,
      ApiOnEvent ''/'' ''message'' BasicMessage, ApiOnEvent ''/'' ''join-room'' BasicJoin,
      ApiOnEvent ''/'' ''leave-room'' BasicLeave, ApiOnEvent ''/'' ''rooms'' BasicRooms,
      ApiOnConnect ''/admin'' AdminConnect, ApiOnEvent ''/admin'' ''shutdown'' AdminShutdown]"

text \<open>The server after the calls of \<open>main\<close>; no handler runs in them, so the time does not matter.\<close>

definition basic_main :: "basic_handler machine" where
  "basic_main = fold (live_step (basic_app (\<lambda>_. []))) (map EApi basic_setup) (machine_New (Some basic_options))"

text \<open>One tick of the background goroutine.\<close>

definition basic_heartbeat :: "string \<Rightarrow> 'h server \<Rightarrow> 'h server" where
  "basic_heartbeat now s =
     ToNamespace ''/'' ''heartbeat''
       [GMap (Some [(KString ''time'', GString now), (KString ''connections'', GInt (server_Count s))])] s"

fun print_strings :: "string list \<Rightarrow> string" where
  "print_strings [] = []"
| "print_strings [r] = r"
| "print_strings (r # rs) = r @ '' '' @ print_strings rs"

text \<open>The page at \<open>/\<close>; the first line holds a dash of three bytes, and \<open>%v\<close> prints a slice of strings in brackets.\<close>

definition basic_index :: "'h server \<Rightarrow> string" where
  "basic_index s =
     ''gsocketio basic example '' @ [CHR 0xE2, CHR 0x80, CHR 0x94] @
     '' connect a WebSocket client to ws://localhost:9000/socket.io/?EIO=4&transport=websocket'' @ [CHR 0x0A] @
     ''Active connections: '' @ Itoa (server_Count s) @ [CHR 0x0A] @
     ''Rooms in /: ['' @ print_strings (server_Rooms ''/'' s) @ '']'' @ [CHR 0x0A]"

subsection \<open>The application keeps the invariant\<close>

lemma SetContext_length [simp]: "length (conn_heap (SetContext c v s)) = length (conn_heap s)"
  by (simp add: SetContext_def)

lemma basic_app_keeps: "handlers_keep (basic_app now)"
  unfolding handlers_keep_def
proof (intro allI impI)
  fix n h cl and s :: "basic_handler server" assume "server_at n s"
  then show "server_at n (snd (basic_app now h cl s))"
    by (induction now h cl s rule: basic_app.induct)
      (auto simp: basic_connect_def basic_message_def basic_join_def basic_leave_def basic_rooms_def basic_shutdown_def Let_def
        intro!: on_heap_at conn_Emit_at SetContext_at ns_op_at ToRoom_at ToNamespace_at)
qed

interpretation basic_example: application "basic_app now" for now
  by unfold_locales (rule basic_app_keeps)

text \<open>No handler runs while \<open>main\<close> registers them, so the states after it are reachable whatever the time is.\<close>

lemma basic_main_run: "basic_main = fold (live_step (basic_app now)) (map EApi basic_setup) (machine_New (Some basic_options))"
  by (simp add: basic_main_def basic_setup_def live_step_def machine_New_def)

lemma basic_reachable:
  assumes "fold (live_step (basic_app now)) es basic_main = (s, rds)" shows "server_ok s"
proof -
  have "fold (live_step (basic_app now)) (map EApi basic_setup @ es) (machine_New (Some basic_options)) = (s, rds)"
    using assms by (simp add: basic_main_run [of now])
  then show ?thesis by (rule basic_example.reachable_server)
qed

subsection \<open>The alert\<close>

abbreviation alert_args :: "gval list" where
  "alert_args \<equiv> [GString ''Server shutting down!'']"

lemma shutdown_task_alerts:
  assumes ok: "server_ok s" and "k < length (tasks s)" "tasks s ! k = EventTask c (Some AdminShutdown) args None"
    and "cs = ns_recipients ''/'' s" "list_all (reachable_by ''alert'' alert_args s) cs" "distinct (map (\<lambda>d. conn_link d s) cs)"
  shows "\<exists>t. live_step (basic_app now) (ERunTask k) (s, rds) = (t, rds) \<and>
    (\<forall>d\<in>set cs. link_sent (conn_tr d s) (tr t) =
       link_sent (conn_tr d s) (tr s) @
       concat (map (link_enc (conn_tr d s) (tr s)) (event_messages d ''alert'' alert_args s))) \<and>
    (\<forall>room. \<forall>d\<in>set (RoomMembers ''/'' room s). \<exists>e\<in>set cs. c_id (conn_heap s ! e) = c_id (conn_heap s ! d)) \<and>
    (\<forall>x. session_link x (tr s) \<notin> (\<lambda>d. conn_link d s) ` set cs \<longrightarrow> link_sent x (tr t) = link_sent x (tr s))"
proof -
  let ?u = "basic_shutdown s"
  have "live_step (basic_app now) (ERunTask k) (s, rds) = (finish_task k ?u, rds)"
    using event_task_runs [OF ok assms(2,3), of "basic_app now" rds] by simp
  moreover have "?u = emit_all ''alert'' alert_args cs s"
    by (simp add: basic_shutdown_def ToNamespace_emits assms(4))
  ultimately show ?thesis
    using emit_all_delivers [OF _ assms(5,6)] ns_recipients_members [OF ok, of "''/''"] assms(4)
    by (intro exI [of _ "finish_task k ?u"]) simp
qed

subsection \<open>Properties\<close>

text \<open>C21. The alert of the admin namespace: in every reachable state of the basic server, when the reader of a client
  that is connected to \<open>/admin\<close> is given a \<open>shutdown\<close> event, a slot is free, the handler of \<open>main\<close> is still
  registered and the clients of \<open>/\<close> that are in a room can be sent to, then a goroutine is started, and
  when it has run, each of them has been sent the alert once. Everyone in a room of \<open>/\<close> is among them, and every other
  session, such as that of a client that has left all its rooms, has been sent nothing.\<close>

theorem shutdown_alerts_rooms:
  assumes "fold (live_step (basic_app now)) es basic_main = (s, rds)"
    and "k < length rds" "\<not> exited (rds ! k)" "waiting (rds ! k) = None" "connectedAny (rds ! k)"
    and "Decode raw = Inr p" "Type p = TypeEvent" "Namespace p = ''/admin''" "ID p = None"
    and "EventName (Data p) = Inr ''shutdown''" "EventArgs (Data p) = Inr args"
    and "session_conn k ''/admin'' s = Some c" "slot_free c s" "\<not> sc_closed (sess_heap (tr s) ! sess_tr k s)"
    and "find_ns ''/admin'' s = Some n" "map_of (events n) ''shutdown'' = Some AdminShutdown"
    and "cs = ns_recipients ''/'' s" "list_all (reachable_by ''alert'' alert_args s) cs" "distinct (map (\<lambda>d. conn_link d s) cs)"
  shows "\<exists>t. fold (live_step (basic_app now)) [EMessage k d (OpText, raw, None), ERunTask (length (tasks s))] (s, rds) = (t, rds) \<and>
    (\<forall>d\<in>set cs. link_sent (conn_tr d s) (tr t) =
       link_sent (conn_tr d s) (tr s) @
       concat (map (link_enc (conn_tr d s) (tr s)) (event_messages d ''alert'' alert_args s))) \<and>
    (\<forall>room. \<forall>d\<in>set (RoomMembers ''/'' room s). \<exists>e\<in>set cs. c_id (conn_heap s ! e) = c_id (conn_heap s ! d)) \<and>
    (\<forall>x. session_link x (tr s) \<notin> (\<lambda>d. conn_link d s) ` set cs \<longrightarrow> link_sent x (tr t) = link_sent x (tr s))"
proof -
  let ?t = "start_task (EventTask c (Some AdminShutdown) args (ID p)) s"
  have go: "live_step (basic_app now) (EMessage k d (OpText, raw, None)) (s, rds) = (?t, rds)"
    by (rule event_starts_task [OF assms(2-7,10,11)]) (use assms(8,12-16) in simp_all)
  then have "fold (live_step (basic_app now)) (es @ [EMessage k d (OpText, raw, None)]) basic_main = (?t, rds)"
    using assms(1) by simp
  then have ok: "server_ok ?t" by (rule basic_reachable)
  show ?thesis
    using shutdown_task_alerts [OF ok, of "length (tasks s)" c args cs now rds] assms(9,17-19) go by simp
qed

end
