(* ===== verification/Example_Basic_Run.thy ===== *)
theory Example_Basic_Run
  imports Example_Basic
begin

section \<open>examples/basic: a run\<close>

text \<open>
  A client connects to \<open>/\<close> and, on the same session, to \<open>/admin\<close>, and asks for the shutdown: the run behind
  the witness of \<open>shutdown_alerts_rooms\<close>, computed one event at a time.
\<close>

subsection \<open>The packets of the run\<close>

definition connect_admin :: packet where
  "connect_admin = \<lparr>Type = TypeConnect, Namespace = ''/admin'', ID = None, Data = [], Attachments = 0\<rparr>"

definition shut :: packet where
  "shut = \<lparr>Type = TypeEvent, Namespace = ''/admin'', ID = None, Data = ''[\"shutdown\"]'', Attachments = 0\<rparr>"

lemma admin_packets_ok: "encodable connect_admin" "encodable shut"
  by code_simp+

lemma admin_packets_wire: "wire connect_admin = ''0/admin,''" "wire shut = ''2/admin,[\"shutdown\"]''"
  by code_simp+

lemma Decode_admin: "Decode ''0/admin,'' = Inr connect_admin" "Decode ''2/admin,[\"shutdown\"]'' = Inr shut"
  using Decode_wire [OF admin_packets_ok(1)] Decode_wire [OF admin_packets_ok(2)]
  by (simp_all add: admin_packets_wire maxPacket_def)

lemma shut_data: "EventName ''[\"shutdown\"]'' = Inr ''shutdown''" "EventArgs ''[\"shutdown\"]'' = Inr []"
  by code_simp+

lemma Encode_admin_reply: "Encode (Some (connect_reply ''/admin'' ''c2'')) = Inr ''0/admin,{\"sid\":\"c2\"}''"
  by code_simp

definition hello :: packet where
  "hello = \<lparr>Type = TypeEvent, Namespace = ''/'', ID = None,
     Data = ''[\"welcome\",{\"id\":\"c1\",\"message\":\"Hello from gsocketio!\"}]'', Attachments = 0\<rparr>"

lemma hello_built:
  "BuildEventPacket ''/'' ''welcome'' None
     [GMap (Some [(KString ''message'', GString ''Hello from gsocketio!''), (KString ''id'', GString ''c1'')])] = Inr (hello, [])"
  by code_simp

lemma hello_encoded: "Encode (Some hello) = Inr ''2[\"welcome\",{\"id\":\"c1\",\"message\":\"Hello from gsocketio!\"}]''"
  by code_simp

definition alert :: packet where
  "alert = \<lparr>Type = TypeEvent, Namespace = ''/'', ID = None, Data = ''[\"alert\",\"Server shutting down!\"]'', Attachments = 0\<rparr>"

lemma alert_built: "BuildEventPacket ''/'' ''alert'' None [GString ''Server shutting down!''] = Inr (alert, [])"
  by code_simp

lemma alert_encoded: "Encode (Some alert) = Inr ''2[\"alert\",\"Server shutting down!\"]''"
  by code_simp

lemma alert_messages:
  "c_ns (conn_heap s ! c) = ''/'' \<Longrightarrow>
   event_messages c ''alert'' [GString ''Server shutting down!''] s = [(OpText, ''42[\"alert\",\"Server shutting down!\"]'')]"
  by (simp add: event_messages_def alert_built alert_encoded)
subsection \<open>The events\<close>

definition root_basic :: "nat manager \<Rightarrow> basic_handler namespace" where
  "root_basic r = \<lparr>ns_name = ''/'', ns_rooms = r, onConnect = Some BasicConnect, onDisconnect = Some BasicDisconnect,
     onError = Some BasicError, events = [(''message'', BasicMessage), (''join-room'', BasicJoin),
       (''leave-room'', BasicLeave), (''rooms'', BasicRooms)], binaryEvents = []\<rparr>"

definition admin_basic :: "basic_handler namespace" where
  "admin_basic = \<lparr>ns_name = ''/admin'', ns_rooms = New, onConnect = Some AdminConnect, onDisconnect = None,
     onError = None, events = [(''shutdown'', AdminShutdown)], binaryEvents = []\<rparr>"

definition basic_at :: "basic_handler conn list \<Rightarrow> (string \<times> nat) list \<Rightarrow> string list \<Rightarrow> nat manager \<Rightarrow> basic_handler server \<Rightarrow> bool" where
  "basic_at cs ses q r s \<longleftrightarrow>
     conn_heap s = cs \<and> namespaces s = [(''/'', root_basic r), (''/admin'', admin_basic)] \<and>
     tr s = polling_engine\<lparr>connCh := [], poll_heap := [(newPollConn [])\<lparr>sendCh := q\<rparr>]\<rparr> \<and>
     es_heap s = [\<lparr>es_tr = 0, es_closed = False\<rparr>] \<and> tasks s = [] \<and> sessions s = [(0, ses)] \<and>
     MaxEventConcurrency (s_opts s) = 32"

definition lobby_client :: "basic_handler conn" where
  "lobby_client = (newConn ''c1'' ''/'' 0 (server_New None))\<lparr>ctx := Some (RMap [(''joined'', RStr ''noon'')]), joined := [''lobby'']\<rparr>"

definition admin_client :: "basic_handler conn" where
  "admin_client = newConn ''c2'' ''/admin'' 0 (server_New None)"

abbreviation noon_app :: "basic_handler handlers" where
  "noon_app \<equiv> basic_app (\<lambda>_. ''noon'')"

lemma admin_ns: "NormalizeNS ''/admin'' = ''/admin''"
  by code_simp

lemma basic_main_state:
  "\<exists>s. basic_main = (s, []) \<and> conn_heap s = [] \<and> es_heap s = [] \<and> sessions s = [] \<and> tasks s = [] \<and>
     MaxEventConcurrency (s_opts s) = 32 \<and> namespaces s = [(''/'', root_basic New), (''/admin'', admin_basic)]"
  by (simp add: basic_main_def basic_setup_def basic_options_def server_New_def NewServer_def defaults_def zero_options_def
    live_step_def machine_New_def Let_def root_ns admin_ns OnConnect_def OnDisconnect_def OnError_def OnEvent_def set_handler_def
    ensureNamespace_def upd_ns_def newNamespace_def root_basic_def admin_basic_def second_def)

lemma run_basic_accepted:
  "\<exists>s. fold (live_step noon_app) [ETransport (\<lambda>_. polling_engine\<lparr>connCh := [0]\<rparr>), EServe True] basic_main = (s, [new_reader]) \<and>
     basic_at [] [] [''4queued''] New s"
proof -
  obtain s where s: "basic_main = (s, [])" "conn_heap s = []" "es_heap s = []" "sessions s = []" "tasks s = []"
    "MaxEventConcurrency (s_opts s) = 32" "namespaces s = [(''/'', root_basic New), (''/admin'', admin_basic)]"
    using basic_main_state by blast
  show ?thesis unfolding s(1) using s(2-) by (simp add: run_defs basic_at_def polling_engine_def)
qed

lemmas basic_defs = admin_ns connect_defs basic_at_def root_basic_def admin_basic_def basic_connect_def on_heap_def conn_Join_def upd_ns_def
  as_member_def MaxRoomsPerConn_def conn_Emit_def hello_built hello_encoded SetContext_def polling_engine_def newConn_def
  lobby_client_def admin_client_def

lemma run_basic_first:
  assumes "basic_at [] [] [''4queued''] New s"
  shows "\<exists>t q. live_step noon_app (EMessage 0 (''c1'', True) (OpText, ''0'', None)) (s, [new_reader]) =
      (t, [new_reader\<lparr>connectedAny := True\<rparr>]) \<and> length q \<le> 10 \<and>
    basic_at [lobby_client] [(''/'', 0)] q (snd (Join ''lobby'' (Member ''c1'' 0) New)) t"
  using assms by (simp add: run_defs basic_defs)
lemma run_basic_admin:
  assumes "basic_at [lobby_client] [(''/'', 0)] q r s" "length q \<le> 10"
  shows "\<exists>t q'. live_step noon_app (EMessage 0 (''c2'', True) (OpText, ''0/admin,'', None)) (s, [new_reader\<lparr>connectedAny := True\<rparr>]) =
      (t, [new_reader\<lparr>connectedAny := True\<rparr>]) \<and> length q' \<le> 11 \<and>
    basic_at [lobby_client, admin_client] [(''/'', 0), (''/admin'', 1)] q' r t"
  using assms by (simp add: run_defs basic_defs Decode_admin connect_admin_def Encode_admin_reply)

text \<open>The run, and the state after it: the client is in the lobby and connected to \<open>/admin\<close>.\<close>

abbreviation basic_run :: "basic_handler event list" where
  "basic_run \<equiv> [ETransport (\<lambda>_. polling_engine\<lparr>connCh := [0]\<rparr>), EServe True,
     EMessage 0 (''c1'', True) (OpText, ''0'', None), EMessage 0 (''c2'', True) (OpText, ''0/admin,'', None)]"

definition ready_to_alert :: "basic_handler server \<Rightarrow> bool" where
  "ready_to_alert s \<longleftrightarrow>
     tasks s = [] \<and> session_conn 0 ''/admin'' s = Some 1 \<and> slot_free 1 s \<and> \<not> sc_closed (sess_heap (tr s) ! sess_tr 0 s) \<and>
     (\<exists>n. find_ns ''/admin'' s = Some n \<and> map_of (events n) ''shutdown'' = Some AdminShutdown) \<and>
     ns_recipients ''/'' s = [0] \<and> c_ns (conn_heap s ! 0) = ''/'' \<and>
     conn_tr 0 s = 0 \<and> session_link 0 (tr s) = PollLink 0 \<and> reachable_by ''alert'' alert_args s 0"

lemma lobby_recipients:
  assumes "namespaces s = [(''/'', root_basic (snd (Join ''lobby'' (Member ''c1'' 0) New))), n]"
  shows "ns_recipients ''/'' s = [0]"
  using assms
  by (simp add: ns_recipients_def all_members_def root_basic_def find_ns_def root_ns snapshot_def Join_def Join_lookup_def
      room_add_def New_def newRoom_def add_def)

lemma run_to_alert:
  "\<exists>s. fold (live_step noon_app) basic_run basic_main = (s, [new_reader\<lparr>connectedAny := True\<rparr>]) \<and> ready_to_alert s"
proof -
  let ?rd = "new_reader\<lparr>connectedAny := True\<rparr>" and ?r = "snd (Join ''lobby'' (Member ''c1'' 0) New)"
  obtain s0 where s0: "fold (live_step noon_app) [ETransport (\<lambda>_. polling_engine\<lparr>connCh := [0]\<rparr>), EServe True] basic_main =
      (s0, [new_reader])" "basic_at [] [] [''4queued''] New s0" using run_basic_accepted by blast
  obtain s1 q1 where s1: "live_step noon_app (EMessage 0 (''c1'', True) (OpText, ''0'', None)) (s0, [new_reader]) = (s1, [?rd])"
    "length q1 \<le> 10" "basic_at [lobby_client] [(''/'', 0)] q1 ?r s1" using run_basic_first [OF s0(2)] by blast
  obtain s q2 where s: "live_step noon_app (EMessage 0 (''c2'', True) (OpText, ''0/admin,'', None)) (s1, [?rd]) = (s, [?rd])"
    "length q2 \<le> 11" "basic_at [lobby_client, admin_client] [(''/'', 0), (''/admin'', 1)] q2 ?r s"
    using run_basic_admin [OF s1(3,2)] by blast
  have f: "conn_heap s = [lobby_client, admin_client]" "namespaces s = [(''/'', root_basic ?r), (''/admin'', admin_basic)]"
    "tr s = polling_engine\<lparr>connCh := [], poll_heap := [(newPollConn [])\<lparr>sendCh := q2\<rparr>]\<rparr>"
    "es_heap s = [\<lparr>es_tr = 0, es_closed = False\<rparr>]" "tasks s = []" "sessions s = [(0, [(''/'', 0), (''/admin'', 1)])]"
    "MaxEventConcurrency (s_opts s) = 32"
    using s(3) by (simp_all add: basic_at_def)
  have c: "c_ns (conn_heap s ! 0) = ''/''" "session (conn_heap s ! 0) = 0" "conn_tr 0 s = 0" "sess_tr 0 s = 0"
    by (simp_all add: f(1,4) lobby_client_def newConn_def)
  have l: "session_link 0 (tr s) = PollLink 0" "link_ready 0 (tr s)"
    "link_object (PollLink 0) (tr s) = Inl ((newPollConn [])\<lparr>sendCh := q2\<rparr>)"
    by (simp_all add: f(3) polling_engine_link link_ready_def link_object_def)
  have "reachable_by ''alert'' alert_args s 0"
    unfolding reachable_by_def alert_messages [OF c(1)] c l using s(2) l(2) by (simp_all add: f(4) newPollConn_def chan_cap_def)
  moreover have "session_conn 0 ''/admin'' s = Some 1" "slot_free 1 s" "\<not> sc_closed (sess_heap (tr s) ! sess_tr 0 s)"
    by (simp_all add: session_conn_def slot_free_def f(1,3,4,6,7) admin_client_def newConn_def polling_engine_link
        server_New_def NewServer_def defaults_def zero_options_def Let_def)
  moreover have "find_ns ''/admin'' s = Some admin_basic" "map_of (events admin_basic) ''shutdown'' = Some AdminShutdown"
    by (simp_all add: find_ns_def f(2) admin_ns admin_basic_def)
  ultimately have "ready_to_alert s" using c(1,3) l(1) f(5) lobby_recipients [OF f(2)] by (simp add: ready_to_alert_def)
  moreover have "fold (live_step noon_app) basic_run basic_main = (s, [?rd])"
    using s0(1) s1(1) s(1) by (simp only: fold.simps comp_apply id_apply)
  ultimately show ?thesis by blast
qed

subsection \<open>Witness\<close>

theorem shutdown_alerts_rooms_witness:
  "\<exists>s t rds. fold (live_step noon_app) basic_run basic_main = (s, rds) \<and>
     fold (live_step noon_app) [EMessage 0 ([], True) (OpText, ''2/admin,[\"shutdown\"]'', None), ERunTask 0] (s, rds) = (t, rds) \<and>
     link_sent 0 (tr t) = link_sent 0 (tr s) @ [Inl ''42[\"alert\",\"Server shutting down!\"]'']"
proof -
  let ?rds = "[new_reader\<lparr>connectedAny := True\<rparr>]"
  obtain s where s: "fold (live_step noon_app) basic_run basic_main = (s, ?rds)" "ready_to_alert s" using run_to_alert by blast
  note a = s(2) [unfolded ready_to_alert_def]
  obtain n where n: "find_ns ''/admin'' s = Some n" "map_of (events n) ''shutdown'' = Some AdminShutdown" using a by blast
  have "\<exists>t. fold (live_step noon_app) [EMessage 0 ([], True) (OpText, ''2/admin,[\"shutdown\"]'', None), ERunTask (length (tasks s))]
      (s, ?rds) = (t, ?rds) \<and>
    (\<forall>d\<in>set [0]. link_sent (conn_tr d s) (tr t) = link_sent (conn_tr d s) (tr s) @
       concat (map (link_enc (conn_tr d s) (tr s)) (event_messages d ''alert'' alert_args s))) \<and>
    (\<forall>room. \<forall>d\<in>set (RoomMembers ''/'' room s). \<exists>e\<in>set [0]. c_id (conn_heap s ! e) = c_id (conn_heap s ! d)) \<and>
    (\<forall>x. session_link x (tr s) \<notin> (\<lambda>d. conn_link d s) ` set [0] \<longrightarrow> link_sent x (tr t) = link_sent x (tr s))"
    by (rule shutdown_alerts_rooms [OF s(1), where p = shut and n = n and args = "[]"])
      (use a n in \<open>simp_all add: Decode_admin shut_data new_reader_def\<close>, simp_all add: shut_def shut_data)
  then obtain t where t: "fold (live_step noon_app) [EMessage 0 ([], True) (OpText, ''2/admin,[\"shutdown\"]'', None), ERunTask 0]
      (s, ?rds) = (t, ?rds)" "link_sent (conn_tr 0 s) (tr t) = link_sent (conn_tr 0 s) (tr s) @
       concat (map (link_enc (conn_tr 0 s) (tr s)) (event_messages 0 ''alert'' alert_args s))"
    using a by auto
  have "link_enc 0 (tr s) (OpText, m) = [Inl m]" for m using a by (simp add: link_enc_def)
  then have "link_sent 0 (tr t) = link_sent 0 (tr s) @ [Inl ''42[\"alert\",\"Server shutting down!\"]'']"
    using t(2) a alert_messages [of s 0] by simp
  then show ?thesis using s(1) t(1) by blast
qed

end
